(* ===== verification/Forge_Prelude.thy ===== *)
theory Forge_Prelude
  imports Main "HOL-Library.Word"
begin

text \<open>
  Shared vocabulary of the ForgeRTOS development: the machine integer types of the C11 sources,
  word and list facts used by every component, and two interfaces that several components implement:

  \<^item> \<open>priority_scan\<close>: the ``keep the first strictly better candidate'' loop that the scheduler
    and the wait-object code run over the task registry;
  \<^item> \<open>ring_index\<close>: the wrap-around index increment of the message queue and of the trace buffer.
\<close>

unbundle bit_operations_syntax

type_synonym u8 = "8 word"
type_synonym u32 = "32 word"

named_theorems cpu_free \<open>operations that do not depend on the processor registers\<close>


section \<open>Words\<close>

lemma unat_bound: "unat (x :: 'a::len word) < 2 ^ LENGTH('a)"
  by (rule unsigned_less)

lemma unat_Suc_word:
  fixes x y :: "'a::len word"
  assumes "x < y"
  shows "unat (x + 1) = Suc (unat x)"
proof -
  have "unat x + 1 < 2 ^ LENGTH('a)"
    using unat_bound [of y] assms [unfolded word_less_nat_alt] by linarith
  then show ?thesis by (simp add: unat_word_ariths)
qed

lemma unat_pred_word:
  fixes x :: "'a::len word"
  assumes "x \<noteq> 0"
  shows "unat (x - 1) = unat x - 1"
  using assms by (simp add: unat_minus_one)

lemma word_inc_eq_zero_or:
  fixes x y :: "'a::len word"
  assumes "x < y"
  shows "unat (if x + 1 = y then 0 else x + 1) = Suc (unat x) mod unat y"
proof (cases "x + 1 = y")
  case True
  then have "Suc (unat x) = unat y" using unat_Suc_word [OF assms] by simp
  with True show ?thesis by simp
next
  case False
  then have "Suc (unat x) < unat y"
    using assms unat_Suc_word [OF assms]
    by (metis Suc_lessI unat_mono word_unat_eq_iff)
  with False show ?thesis by (simp add: unat_Suc_word [OF assms])
qed

lemma unat_of_nat32: "n < 4294967296 \<Longrightarrow> unat (of_nat n :: u32) = n"
  by (simp add: unat_of_nat take_bit_nat_def)

lemma unat_lt_u32 [simp]: "unat (x :: u32) < 4294967296"
  using unat_bound [of x] by simp

lemma add_diff_assoc_word: "(n :: 'a::len word) + (d - n) = d"
  by simp


section \<open>Priority scans\<close>

text \<open>
  The contract of one round of a registry scan: a candidate replaces the selection exactly when it
  is eligible and strictly better than what is selected.
\<close>

locale priority_scan =
  fixes eligible :: "'s \<Rightarrow> 'a \<Rightarrow> bool"
    and prio :: "'s \<Rightarrow> 'a \<Rightarrow> 'p::linorder"
    and pick :: "'s \<Rightarrow> 'a \<Rightarrow> 'a option \<Rightarrow> 'a option"
  assumes pick_law:
    "pick s x sel =
       (if eligible s x \<and> (case sel of None \<Rightarrow> True | Some y \<Rightarrow> prio s y < prio s x)
        then Some x else sel)"
begin

lemma pick_skip: "\<not> eligible s x \<Longrightarrow> pick s x sel = sel"
  by (simp add: pick_law [of s x sel])

lemma pick_None: "eligible s x \<Longrightarrow> pick s x None = Some x"
  by (simp add: pick_law [of s x None])

lemma pick_Some: "eligible s x \<Longrightarrow> pick s x (Some y) = (if prio s y < prio s x then Some x else Some y)"
  by (simp add: pick_law [of s x "Some y"])

lemma pick_keeps: "\<not> (eligible s x \<and> prio s y < prio s x) \<Longrightarrow> pick s x (Some y) = Some y"
  by (cases "eligible s x") (auto simp: pick_skip pick_Some)

lemma scan_from_Some:
  "fold (pick s) xs (Some y) = Some z \<Longrightarrow>
     prio s y \<le> prio s z \<and> (\<forall>x \<in> set xs. eligible s x \<longrightarrow> prio s x \<le> prio s z) \<and>
     (z = y \<or> z \<in> set xs \<and> eligible s z \<and> prio s y < prio s z)"
proof (induction xs arbitrary: y)
  case Nil
  then show ?case by simp
next
  case (Cons x xs)
  show ?case
  proof (cases "eligible s x \<and> prio s y < prio s x")
    case True
    then have "fold (pick s) xs (Some x) = Some z"
      using Cons.prems by (simp add: pick_Some)
    from Cons.IH [OF this] True show ?thesis by auto
  next
    case False
    then have "fold (pick s) xs (Some y) = Some z"
      using Cons.prems by (simp add: pick_keeps)
    from Cons.IH [OF this] False show ?thesis by force
  qed
qed

lemma scan_Some_not_None: "fold (pick s) xs (Some y) \<noteq> None"
proof (induction xs arbitrary: y)
  case Nil
  then show ?case by simp
next
  case (Cons x xs)
  then show ?case by (cases "eligible s x \<and> prio s y < prio s x") (simp_all add: pick_Some pick_keeps)
qed

lemma scan_None_iff: "fold (pick s) xs None = None \<longleftrightarrow> (\<forall>x \<in> set xs. \<not> eligible s x)"
proof (induction xs)
  case Nil
  then show ?case by simp
next
  case (Cons x xs)
  then show ?case
    by (cases "eligible s x") (simp_all add: pick_None pick_skip scan_Some_not_None)
qed

lemma scan_best:
  assumes "fold (pick s) xs None = Some z"
  shows "z \<in> set xs" "eligible s z" "\<And>x. x \<in> set xs \<Longrightarrow> eligible s x \<Longrightarrow> prio s x \<le> prio s z"
proof -
  have "z \<in> set xs \<and> eligible s z \<and> (\<forall>x \<in> set xs. eligible s x \<longrightarrow> prio s x \<le> prio s z)"
    using assms
  proof (induction xs)
    case Nil
    then show ?case by simp
  next
    case (Cons x xs)
    show ?case
    proof (cases "eligible s x")
      case True
      then have "fold (pick s) xs (Some x) = Some z"
        using Cons.prems by (simp add: pick_None)
      from scan_from_Some [OF this] True show ?thesis by auto
    next
      case False
      then have "fold (pick s) xs None = Some z"
        using Cons.prems by (simp add: pick_skip)
      from Cons.IH [OF this] False show ?thesis by auto
    qed
  qed
  then show "z \<in> set xs" "eligible s z"
    "\<And>x. x \<in> set xs \<Longrightarrow> eligible s x \<Longrightarrow> prio s x \<le> prio s z"
    by auto
qed

text \<open>Ties go to the candidate that the loop reaches first.\<close>

lemma scan_first_from:
  assumes "fold (pick s) (us @ z # vs) sel = Some z" and "z \<notin> set us" and "sel \<noteq> Some z"
    and "x \<in> set us" and "eligible s x"
  shows "prio s x < prio s z"
proof -
  obtain y where y: "fold (pick s) us sel = Some y"
    using assms(4,5) scan_None_iff [of s us] scan_Some_not_None [of s us] by (cases sel) fastforce+
  have best: "y \<noteq> z \<and> prio s x \<le> prio s y"
  proof (cases sel)
    case None
    with y assms(2,4,5) scan_best [of s us y] show ?thesis by auto
  next
    case (Some w)
    with y assms(2-5) scan_from_Some [of s us w y] show ?thesis by auto
  qed
  have "fold (pick s) (z # vs) (Some y) = Some z" using assms(1) y by simp
  from scan_from_Some [OF this] best have "prio s y < prio s z" by auto
  with best show ?thesis by (auto intro: le_less_trans)
qed

end


section \<open>Ring indices\<close>

text \<open>
  The contract of an index increment over a ring of \<open>cap c\<close> slots, and the list of slots that a
  ring of \<open>n\<close> used slots starting at index \<open>i\<close> denotes.
\<close>

fun ring_slots :: "nat \<Rightarrow> nat \<Rightarrow> nat \<Rightarrow> nat list" where
  "ring_slots cap i 0 = []"
| "ring_slots cap i (Suc n) = i # ring_slots cap (Suc i mod cap) n"

lemma length_ring_slots [simp]: "length (ring_slots cap i n) = n"
  by (induction n arbitrary: i) auto

lemma ring_slots_nth:
  "k < n \<Longrightarrow> i < cap \<Longrightarrow> ring_slots cap i n ! k = (i + k) mod cap"
proof (induction n arbitrary: i k)
  case 0
  then show ?case by simp
next
  case (Suc n)
  show ?case
  proof (cases k)
    case 0
    with Suc.prems show ?thesis by simp
  next
    case (Suc k')
    then have "ring_slots cap (Suc i mod cap) n ! k' = (Suc i mod cap + k') mod cap"
      using Suc.prems by (intro Suc.IH) auto
    with Suc show ?thesis by (simp add: mod_add_left_eq)
  qed
qed

lemma ring_slots_conv: "i < cap \<Longrightarrow> ring_slots cap i n = map (\<lambda>k. (i + k) mod cap) [0..<n]"
  by (rule nth_equalityI) (simp_all add: ring_slots_nth)

lemma ring_slots_snoc:
  "i < cap \<Longrightarrow> ring_slots cap i (Suc n) = ring_slots cap i n @ [(i + n) mod cap]"
  by (simp only: ring_slots_conv) simp

lemma ring_slots_less: "i < cap \<Longrightarrow> x \<in> set (ring_slots cap i n) \<Longrightarrow> x < cap"
  by (auto simp: ring_slots_conv)

lemma ring_slots_inj:
  fixes i j n cap :: nat
  assumes "i < cap" and "j < n" and "n < cap"
  shows "(i + j) mod cap \<noteq> (i + n) mod cap"
proof
  assume "(i + j) mod cap = (i + n) mod cap"
  then have "cap dvd (i + n) - (i + j)"
    using assms(2) mod_eq_dvd_iff_nat [of "i + j" "i + n" cap] by simp
  with assms(2,3) show False by (simp add: nat_dvd_not_less)
qed

lemma ring_slots_free:
  assumes "i < cap" and "n < cap"
  shows "(i + n) mod cap \<notin> set (ring_slots cap i n)"
  using ring_slots_inj [OF assms(1) _ assms(2)] assms by (fastforce simp: ring_slots_conv)

locale ring_index =
  fixes cap :: "'c \<Rightarrow> nat"
    and pos :: "'i \<Rightarrow> nat"
    and advance :: "'c \<Rightarrow> 'i \<Rightarrow> 'i"
  assumes advance_law: "pos i < cap c \<Longrightarrow> pos (advance c i) = Suc (pos i) mod cap c"
begin

lemma advance_less: "pos i < cap c \<Longrightarrow> pos (advance c i) < cap c"
  by (simp add: advance_law)

text \<open>Writing slot \<open>head + n\<close> appends to the contents of a ring that is not full.\<close>

lemma ring_put:
  assumes "pos h < cap c" and "n < cap c" and "pos t = (pos h + n) mod cap c"
  shows "map (f(pos t := v)) (ring_slots (cap c) (pos h) (Suc n)) =
           map f (ring_slots (cap c) (pos h) n) @ [v]"
    and "pos (advance c t) = (pos h + Suc n) mod cap c"
proof -
  have t: "pos t < cap c" using assms by simp
  show "map (f(pos t := v)) (ring_slots (cap c) (pos h) (Suc n)) =
           map f (ring_slots (cap c) (pos h) n) @ [v]"
    using ring_slots_free [OF assms(1,2)] assms
    by (simp only: ring_slots_snoc [OF assms(1)]) auto
  show "pos (advance c t) = (pos h + Suc n) mod cap c"
    using assms t by (simp add: advance_law mod_Suc_eq)
qed

text \<open>Dropping the oldest slot advances the head.\<close>

lemma ring_get:
  assumes "pos h < cap c" and "n \<noteq> 0"
  shows "map f (ring_slots (cap c) (pos h) n) =
           f (pos h) # map f (ring_slots (cap c) (pos (advance c h)) (n - 1))"
    and "(pos h + n) mod cap c = (pos (advance c h) + (n - 1)) mod cap c"
proof -
  obtain m where n: "n = Suc m" using assms(2) by (cases n) auto
  show "map f (ring_slots (cap c) (pos h) n) =
           f (pos h) # map f (ring_slots (cap c) (pos (advance c h)) (n - 1))"
    using assms(1) by (simp add: n advance_law)
  show "(pos h + n) mod cap c = (pos (advance c h) + (n - 1)) mod cap c"
    using assms(1) by (simp add: n advance_law mod_add_left_eq)
qed

text \<open>Overwriting the oldest slot of a full ring drops it and appends the new value.\<close>

lemma ring_overwrite:
  assumes "pos w < cap c"
  shows "map (f(pos w := v)) (ring_slots (cap c) (pos (advance c w)) (cap c)) =
           tl (map f (ring_slots (cap c) (pos w) (cap c))) @ [v]"
proof -
  obtain m where m: "cap c = Suc m" using assms by (cases "cap c") auto
  have a: "pos (advance c w) = Suc (pos w) mod cap c" using assms by (rule advance_law)
  have "pos w = (pos (advance c w) + m) mod cap c"
    using assms by (simp add: a m mod_add_left_eq del: mod_Suc_eq)
       (metis a add_Suc_right add_Suc_shift m mod_add_self2 mod_less)
  from ring_put(1) [OF advance_less [OF assms] _ this, of f v]
  have "map (f(pos w := v)) (ring_slots (cap c) (pos (advance c w)) (Suc m)) =
          map f (ring_slots (cap c) (pos (advance c w)) m) @ [v]"
    by (simp add: m)
  moreover have "tl (map f (ring_slots (cap c) (pos w) (Suc m))) =
                   map f (ring_slots (cap c) (pos (advance c w)) m)"
    by (simp add: a)
  ultimately show ?thesis by (simp only: m)
qed

end

end
