(* ===== verification/Kernel_State.thy ===== *)
theory Kernel_State
  imports Forge_Prelude
begin

text \<open>
  The data of the kernel: configuration constants, task control blocks, kernel objects, the trace
  ring, the Cortex-M4 registers the kernel reads and writes, and the global state that the C files
  keep in static variables.

  Pointers. A \<open>fr_task_t *\<close> designates a slot of \<open>g_fr_task_pool\<close> or \<open>g_fr_scheduler_idle_task\<close>, so
  it is a \<open>task_ptr option\<close> with \<open>None\<close> for \<open>NULL\<close>. Every other pointer (stacks, kernel objects,
  buffers, functions) is its 32-bit address, with 0 for \<open>NULL\<close>. Kernel objects live in a typed heap
  indexed by address: an address that holds no object of the expected type fails the
  magic-number check of the code, as uninitialised memory does.
\<close>


section \<open>Configuration\<close>

definition FR_CONFIG_KERNEL_INTERRUPT_CEILING :: u32 where
  [simp]: "FR_CONFIG_KERNEL_INTERRUPT_CEILING = 8"

definition FR_CONFIG_MAX_TASKS :: u32 where
  [simp]: "FR_CONFIG_MAX_TASKS = 8"

definition FR_CONFIG_MAX_TASK_PRIORITY :: u8 where
  [simp]: "FR_CONFIG_MAX_TASK_PRIORITY = 31"

definition FR_CONFIG_MIN_TASK_STACK_WORDS :: u32 where
  [simp]: "FR_CONFIG_MIN_TASK_STACK_WORDS = 32"

definition FR_CONFIG_IDLE_STACK_WORDS :: u32 where
  [simp]: "FR_CONFIG_IDLE_STACK_WORDS = 128"

definition UINT32_MAX :: u32 where
  [simp]: "UINT32_MAX = 0xFFFFFFFF"

definition FR_WAIT_FOREVER :: u32 where
  [simp]: "FR_WAIT_FOREVER = UINT32_MAX"

definition FR_WAIT_MAX_FINITE_TICKS :: u32 where
  "FR_WAIT_MAX_FINITE_TICKS = UINT32_MAX div 2"

definition FR_TASK_SLEEP_MAX_TICKS :: u32 where
  "FR_TASK_SLEEP_MAX_TICKS = UINT32_MAX div 2"

lemma half_of_UINT32_MAX: "UINT32_MAX div 2 = 0x7FFFFFFF"
  by (simp add: word_unat_eq_iff unat_div)

lemma FR_WAIT_MAX_FINITE_TICKS_value [simp]: "FR_WAIT_MAX_FINITE_TICKS = 0x7FFFFFFF"
  unfolding FR_WAIT_MAX_FINITE_TICKS_def by (rule half_of_UINT32_MAX)

lemma FR_TASK_SLEEP_MAX_TICKS_value [simp]: "FR_TASK_SLEEP_MAX_TICKS = 0x7FFFFFFF"
  unfolding FR_TASK_SLEEP_MAX_TICKS_def by (rule half_of_UINT32_MAX)


section \<open>Enumerations\<close>

datatype fr_task_state =
    STATE_INVALID | STATE_CREATED | STATE_READY | STATE_RUNNING | STATE_BLOCKED | STATE_SUSPENDED

datatype fr_task_status =
    TASK_OK | TASK_ERROR_INVALID_ARGUMENT | TASK_ERROR_INVALID_PRIORITY
  | TASK_ERROR_INVALID_STACK | TASK_ERROR_NO_CAPACITY

datatype fr_wait_reason =
    WAIT_NONE | WAIT_SLEEP | WAIT_SYNC | WAIT_MUTEX | WAIT_QUEUE_SEND | WAIT_QUEUE_RECEIVE
  | WAIT_EVENT_FLAGS

datatype fr_wait_result = RESULT_PENDING | RESULT_TIMEOUT | RESULT_SIGNALED

datatype fr_trace_event =
    EVENT_NONE | EVENT_TASK_CREATE | EVENT_SCHEDULER_START | EVENT_TASK_BLOCK
  | EVENT_TASK_TIMEOUT | EVENT_TASK_UNBLOCK | EVENT_CONTEXT_SWITCH

datatype fr_scheduler_status =
    SCHEDULER_OK | SCHEDULER_ERROR_ALREADY_RUNNING | SCHEDULER_ERROR_NO_READY_TASK

text \<open>The casts \<open>(uint32_t)reason\<close> and \<open>(uint32_t)result\<close> of the trace records.\<close>

fun wait_reason_code :: "fr_wait_reason \<Rightarrow> u32" where
  "wait_reason_code WAIT_NONE = 0"
| "wait_reason_code WAIT_SLEEP = 1"
| "wait_reason_code WAIT_SYNC = 2"
| "wait_reason_code WAIT_MUTEX = 3"
| "wait_reason_code WAIT_QUEUE_SEND = 4"
| "wait_reason_code WAIT_QUEUE_RECEIVE = 5"
| "wait_reason_code WAIT_EVENT_FLAGS = 6"

fun wait_result_code :: "fr_wait_result \<Rightarrow> u32" where
  "wait_result_code RESULT_PENDING = 0"
| "wait_result_code RESULT_TIMEOUT = 1"
| "wait_result_code RESULT_SIGNALED = 2"


section \<open>Task control blocks\<close>

datatype task_ptr = Pool nat | IdleTask

record fr_task =
  saved_sp :: u32
  stack_base :: u32
  stack_top :: u32
  entry :: u32
  argument :: u32
  stack_size_words :: u32
  task_id :: u32
  priority :: u8
  base_priority :: u8
  task_state :: fr_task_state
  wait_deadline :: u32
  wait_object :: u32
  wait_reason :: fr_wait_reason
  wait_result :: fr_wait_result
  wait_has_deadline :: bool
  wait_flags_mask :: u32
  wait_flags_result :: u32
  wait_flags_all :: bool
  wait_flags_clear_on_exit :: bool

record fr_task_config =
  cfg_entry :: u32
  cfg_argument :: u32
  cfg_stack_memory :: u32
  cfg_stack_size_words :: u32
  cfg_priority :: u8


section \<open>Kernel objects\<close>

record fr_binary_semaphore =
  bs_magic :: u32
  bs_available :: u32

record fr_counting_semaphore =
  cs_magic :: u32
  cs_count :: u32
  cs_max_count :: u32

record fr_mutex =
  mx_magic :: u32
  mx_owner :: "task_ptr option"

record fr_queue =
  q_magic :: u32
  q_storage :: u32
  q_capacity :: u32
  q_item_size :: u32
  q_head :: u32
  q_tail :: u32
  q_count :: u32

record fr_event_flags =
  ef_magic :: u32
  ef_bits :: u32

datatype kobj =
    NoObject
  | BinarySemaphore fr_binary_semaphore
  | CountingSemaphore fr_counting_semaphore
  | Mutex fr_mutex
  | Queue fr_queue
  | EventFlags fr_event_flags

definition FR_BINARY_SEMAPHORE_MAGIC :: u32 where
  "FR_BINARY_SEMAPHORE_MAGIC = 0x46525342"

definition FR_COUNTING_SEMAPHORE_MAGIC :: u32 where
  "FR_COUNTING_SEMAPHORE_MAGIC = 0x46524353"

definition FR_MUTEX_MAGIC :: u32 where
  "FR_MUTEX_MAGIC = 0x46524D58"

definition FR_QUEUE_MAGIC :: u32 where
  "FR_QUEUE_MAGIC = 0x46525155"

definition FR_EVENT_FLAGS_MAGIC :: u32 where
  "FR_EVENT_FLAGS_MAGIC = 0x46524546"


section \<open>Trace ring, assertion record, processor\<close>

record fr_trace_entry =
  te_sequence :: u32
  te_tick :: u32
  te_event :: fr_trace_event
  te_task_id :: u32
  te_arg0 :: u32
  te_arg1 :: u32

record trace_state =
  trace_buffer :: "nat \<Rightarrow> fr_trace_entry"
  trace_write_index :: u32
  trace_count :: u32
  trace_next_sequence :: u32
  trace_overwritten_events :: u32
  trace_enabled :: bool

record fr_assert_record =
  ar_magic :: u32
  ar_count :: u32
  ar_line :: u32
  ar_file :: string
  ar_expression :: string
  ar_ipsr :: u32
  ar_control :: u32
  ar_primask :: u32
  ar_basepri :: u32
  ar_faultmask :: u32

record cpu_state =
  cpu_ipsr :: u32
  cpu_control :: u32
  cpu_primask :: u32
  cpu_basepri :: u32
  cpu_faultmask :: u32
  cpu_psp :: u32
  cpu_msp :: u32

text \<open>
  Addresses that the linker assigns: the task pool, the idle stack, the idle entry function and the
  trap that a returning task falls into.
\<close>

record link_map =
  lm_task_pool :: u32
  lm_idle_stack :: u32
  lm_idle_entry :: u32
  lm_return_trap :: u32


section \<open>Global state\<close>

record kernel =
  tcb :: "task_ptr \<Rightarrow> fr_task"
  g_fr_task_count :: u32
  g_fr_scheduler_current_task :: "task_ptr option"
  g_fr_scheduler_running :: bool
  g_fr_scheduler_context_switch_count :: u32
  g_fr_scheduler_timeout_count :: u32
  g_fr_scheduler_last_timeout_task_id :: u32
  g_fr_scheduler_last_timeout_tick :: u32
  g_fr_scheduler_last_timeout_deadline :: u32
  g_fr_kernel_tick_count :: u32
  g_fr_trace :: trace_state
  g_fr_assert_record :: fr_assert_record
  cpu :: cpu_state
  pendsv_pending :: bool
  scb_shpr3 :: u32
  ram :: "u32 \<Rightarrow> u8"
  objects :: "u32 \<Rightarrow> kobj"
  links :: link_map

text \<open>
  The result of code that may stop in \<open>fr_assert_fail\<close>: \<open>Ret\<close> is a normal return, \<open>Halt\<close> the state
  in which the processor spins with interrupts disabled.
\<close>

datatype 'a outcome = Ret 'a kernel | Halt kernel

fun and_then :: "'a outcome \<Rightarrow> ('a \<Rightarrow> kernel \<Rightarrow> 'b outcome) \<Rightarrow> 'b outcome" where
  "and_then (Ret x s) f = f x s"
| "and_then (Halt s) f = Halt s"

text \<open>
  What a call that can block has done when its critical section ends: returned a value, or put the
  caller to sleep until another context completes its wait.
\<close>

datatype 'a call = Returned 'a | Suspended

definition upd_task :: "task_ptr \<Rightarrow> (fr_task \<Rightarrow> fr_task) \<Rightarrow> kernel \<Rightarrow> kernel" where
  "upd_task p f s = s\<lparr>tcb := (tcb s)(p := f (tcb s p))\<rparr>"

definition set_object :: "u32 \<Rightarrow> kobj \<Rightarrow> kernel \<Rightarrow> kernel" where
  "set_object a ob s = s\<lparr>objects := (objects s)(a := ob)\<rparr>"

text \<open>
  The state after reset: startup code clears \<open>.bss\<close>, so every static variable is zero, the
  registers are at their reset values and no exception is pending.
\<close>

definition zero_task :: fr_task where
  "zero_task = \<lparr>saved_sp = 0, stack_base = 0, stack_top = 0, entry = 0, argument = 0,
     stack_size_words = 0, task_id = 0, priority = 0, base_priority = 0,
     task_state = STATE_INVALID, wait_deadline = 0, wait_object = 0, wait_reason = WAIT_NONE,
     wait_result = RESULT_PENDING, wait_has_deadline = False, wait_flags_mask = 0,
     wait_flags_result = 0, wait_flags_all = False, wait_flags_clear_on_exit = False\<rparr>"

definition zero_trace_entry :: fr_trace_entry where
  "zero_trace_entry = \<lparr>te_sequence = 0, te_tick = 0, te_event = EVENT_NONE, te_task_id = 0,
     te_arg0 = 0, te_arg1 = 0\<rparr>"

definition reset_kernel :: "link_map \<Rightarrow> kernel" where
  "reset_kernel lm =
     \<lparr>tcb = (\<lambda>_. zero_task), g_fr_task_count = 0, g_fr_scheduler_current_task = None,
      g_fr_scheduler_running = False, g_fr_scheduler_context_switch_count = 0,
      g_fr_scheduler_timeout_count = 0, g_fr_scheduler_last_timeout_task_id = 0,
      g_fr_scheduler_last_timeout_tick = 0, g_fr_scheduler_last_timeout_deadline = 0,
      g_fr_kernel_tick_count = 0,
      g_fr_trace = \<lparr>trace_buffer = (\<lambda>_. zero_trace_entry), trace_write_index = 0,
        trace_count = 0, trace_next_sequence = 0, trace_overwritten_events = 0,
        trace_enabled = False\<rparr>,
      g_fr_assert_record = \<lparr>ar_magic = 0, ar_count = 0, ar_line = 0, ar_file = [],
        ar_expression = [], ar_ipsr = 0, ar_control = 0, ar_primask = 0, ar_basepri = 0,
        ar_faultmask = 0\<rparr>,
      cpu = \<lparr>cpu_ipsr = 0, cpu_control = 0, cpu_primask = 0, cpu_basepri = 0,
        cpu_faultmask = 0, cpu_psp = 0, cpu_msp = 0\<rparr>,
      pendsv_pending = False, scb_shpr3 = 0, ram = (\<lambda>_. 0), objects = (\<lambda>_. NoObject),
      links = lm\<rparr>"

text \<open>A concrete placement of the linker's symbols, used by the witnesses.\<close>

definition example_links :: link_map where
  "example_links = \<lparr>lm_task_pool = 0x20000100, lm_idle_stack = 0x20000400,
     lm_idle_entry = 0x08000201, lm_return_trap = 0x08000301\<rparr>"

lemma upd_task_frame [simp]:
  "g_fr_task_count (upd_task p f s) = g_fr_task_count s"
  "g_fr_scheduler_current_task (upd_task p f s) = g_fr_scheduler_current_task s"
  "g_fr_scheduler_running (upd_task p f s) = g_fr_scheduler_running s"
  "g_fr_kernel_tick_count (upd_task p f s) = g_fr_kernel_tick_count s"
  "g_fr_trace (upd_task p f s) = g_fr_trace s"
  "cpu (upd_task p f s) = cpu s"
  "pendsv_pending (upd_task p f s) = pendsv_pending s"
  "ram (upd_task p f s) = ram s"
  "objects (upd_task p f s) = objects s"
  "links (upd_task p f s) = links s"
  by (simp_all add: upd_task_def)

lemma tcb_upd_task: "tcb (upd_task p f s) q = (if q = p then f (tcb s p) else tcb s q)"
  by (simp add: upd_task_def)

lemma tcb_upd_task_same [simp]: "tcb (upd_task p f s) p = f (tcb s p)"
  by (simp add: upd_task_def)

lemma tcb_upd_task_other [simp]: "q \<noteq> p \<Longrightarrow> tcb (upd_task p f s) q = tcb s q"
  by (simp add: upd_task_def)

lemma set_object_frame [simp]:
  "tcb (set_object a ob s) = tcb s"
  "g_fr_task_count (set_object a ob s) = g_fr_task_count s"
  "g_fr_scheduler_current_task (set_object a ob s) = g_fr_scheduler_current_task s"
  "g_fr_scheduler_running (set_object a ob s) = g_fr_scheduler_running s"
  "g_fr_kernel_tick_count (set_object a ob s) = g_fr_kernel_tick_count s"
  "g_fr_trace (set_object a ob s) = g_fr_trace s"
  "cpu (set_object a ob s) = cpu s"
  "pendsv_pending (set_object a ob s) = pendsv_pending s"
  "ram (set_object a ob s) = ram s"
  "links (set_object a ob s) = links s"
  "objects (set_object a ob s) = (objects s)(a := ob)"
  by (simp_all add: set_object_def)

lemma and_then_Ret_iff:
  "and_then m f = Ret y t \<longleftrightarrow> (\<exists>x s. m = Ret x s \<and> f x s = Ret y t)"
  by (cases m) auto

end
