(* ===== verification/Port.thy ===== *)
theory Port
  imports Kernel_State
begin

text \<open>
  The parts of the Cortex-M4 port that the kernel calls: BASEPRI critical sections
  (\<open>port/cortex_m4/critical.c\<close>), the PendSV request (\<open>port/cortex_m4/pendsv.c\<close>), the thread-context
  test that every blocking service runs first, and the assertion trap (\<open>kernel/assert.c\<close>).

  A critical section saves the caller's BASEPRI and restores exactly that value, so sections nest;
  while one is open every interrupt at or below the kernel ceiling is masked.
\<close>


section \<open>Interrupt priorities\<close>

definition FR_CORTEX_M4_PRIORITY_SHIFT :: nat where
  [simp]: "FR_CORTEX_M4_PRIORITY_SHIFT = 8 - 4"

definition FR_CORTEX_M4_ENCODE_PRIORITY :: "u32 \<Rightarrow> u32" where
  "FR_CORTEX_M4_ENCODE_PRIORITY p = push_bit FR_CORTEX_M4_PRIORITY_SHIFT p"

definition FR_CORTEX_M4_PENDSV_LOGICAL_PRIORITY :: u32 where
  "FR_CORTEX_M4_PENDSV_LOGICAL_PRIORITY = push_bit 4 1 - 1"


section \<open>Critical sections\<close>

text \<open>
  \<open>msr basepri_max, r\<close> raises the mask only: it writes when the current value is 0 (no masking) or
  numerically larger (less urgent) than \<open>r\<close>.
\<close>

definition msr_basepri_max :: "u32 \<Rightarrow> cpu_state \<Rightarrow> cpu_state" where
  "msr_basepri_max v c =
     (if v \<noteq> 0 \<and> (cpu_basepri c = 0 \<or> v < cpu_basepri c) then c\<lparr>cpu_basepri := v\<rparr> else c)"

definition fr_critical_enter :: "kernel \<Rightarrow> u32 \<times> kernel" where
  "fr_critical_enter s =
     (let previous_basepri = cpu_basepri (cpu s);
          kernel_ceiling = FR_CORTEX_M4_ENCODE_PRIORITY FR_CONFIG_KERNEL_INTERRUPT_CEILING
      in (previous_basepri, s\<lparr>cpu := msr_basepri_max kernel_ceiling (cpu s)\<rparr>))"

definition fr_critical_exit :: "u32 \<Rightarrow> kernel \<Rightarrow> kernel" where
  "fr_critical_exit state s = s\<lparr>cpu := (cpu s)\<lparr>cpu_basepri := state\<rparr>\<rparr>"

definition thread_context_allowed :: "kernel \<Rightarrow> bool" where
  "thread_context_allowed s \<longleftrightarrow>
     cpu_ipsr (cpu s) = 0 \<and> cpu_primask (cpu s) AND 1 = 0 \<and>
     cpu_faultmask (cpu s) AND 1 = 0 \<and> cpu_basepri (cpu s) = 0"

text \<open>An interrupt of encoded priority \<open>p\<close> is held back by BASEPRI.\<close>

definition masked_by_basepri :: "u32 \<Rightarrow> kernel \<Rightarrow> bool" where
  "masked_by_basepri p s \<longleftrightarrow> cpu_basepri (cpu s) \<noteq> 0 \<and> cpu_basepri (cpu s) \<le> p"


section \<open>PendSV\<close>

definition fr_port_scheduler_init :: "kernel \<Rightarrow> kernel" where
  "fr_port_scheduler_init s =
     (let encoded_priority = FR_CORTEX_M4_ENCODE_PRIORITY FR_CORTEX_M4_PENDSV_LOGICAL_PRIORITY;
          shpr3 = scb_shpr3 s AND NOT (push_bit 16 0xFF);
          shpr3' = shpr3 OR push_bit 16 encoded_priority
      in s\<lparr>scb_shpr3 := shpr3', pendsv_pending := False\<rparr>)"

definition fr_port_request_context_switch :: "kernel \<Rightarrow> kernel" where
  "fr_port_request_context_switch s = s\<lparr>pendsv_pending := True\<rparr>"


section \<open>Assertions\<close>

definition FR_ASSERT_RECORD_MAGIC :: u32 where
  "FR_ASSERT_RECORD_MAGIC = 0x46524153"

definition fr_assert_init :: "kernel \<Rightarrow> kernel" where
  "fr_assert_init s = s\<lparr>g_fr_assert_record :=
     \<lparr>ar_magic = 0, ar_count = 0, ar_line = 0, ar_file = [], ar_expression = [], ar_ipsr = 0,
      ar_control = 0, ar_primask = 0, ar_basepri = 0, ar_faultmask = 0\<rparr>\<rparr>"

text \<open>
  \<open>fr_assert_fail\<close> captures the special registers, then disables interrupts (\<open>cpsid i\<close>), fills the
  record with the magic published last, and never returns. The addresses of the two string
  literals are represented by the literals themselves.
\<close>

definition fr_assert_fail :: "string \<Rightarrow> string \<Rightarrow> u32 \<Rightarrow> kernel \<Rightarrow> kernel" where
  "fr_assert_fail expression file line s =
     (let c = cpu s; next_count = ar_count (g_fr_assert_record s) + 1
      in s\<lparr>cpu := c\<lparr>cpu_primask := 1\<rparr>,
           g_fr_assert_record :=
             \<lparr>ar_magic = FR_ASSERT_RECORD_MAGIC, ar_count = next_count, ar_line = line,
              ar_file = file, ar_expression = expression, ar_ipsr = cpu_ipsr c,
              ar_control = cpu_control c, ar_primask = cpu_primask c,
              ar_basepri = cpu_basepri c, ar_faultmask = cpu_faultmask c\<rparr>\<rparr>)"

definition FR_ASSERT ::
    "bool \<Rightarrow> string \<Rightarrow> string \<Rightarrow> u32 \<Rightarrow> kernel \<Rightarrow> (kernel \<Rightarrow> 'a outcome) \<Rightarrow> 'a outcome" where
  "FR_ASSERT c expression file line s k =
     (if \<not> c then Halt (fr_assert_fail expression file line s) else k s)"

lemma FR_ASSERT_True [simp]: "c \<Longrightarrow> FR_ASSERT c e f l s k = k s"
  by (simp add: FR_ASSERT_def)


section \<open>Facts\<close>

lemma critical_enter_state [simp]: "fst (fr_critical_enter s) = cpu_basepri (cpu s)"
  by (simp add: fr_critical_enter_def Let_def)

lemma critical_enter_frame [simp]:
  "tcb (snd (fr_critical_enter s)) = tcb s"
  "g_fr_task_count (snd (fr_critical_enter s)) = g_fr_task_count s"
  "g_fr_scheduler_current_task (snd (fr_critical_enter s)) = g_fr_scheduler_current_task s"
  "g_fr_scheduler_running (snd (fr_critical_enter s)) = g_fr_scheduler_running s"
  "g_fr_kernel_tick_count (snd (fr_critical_enter s)) = g_fr_kernel_tick_count s"
  "g_fr_trace (snd (fr_critical_enter s)) = g_fr_trace s"
  "pendsv_pending (snd (fr_critical_enter s)) = pendsv_pending s"
  "ram (snd (fr_critical_enter s)) = ram s"
  "objects (snd (fr_critical_enter s)) = objects s"
  "links (snd (fr_critical_enter s)) = links s"
  by (simp_all add: fr_critical_enter_def Let_def)

lemma critical_exit_frame [simp]:
  "tcb (fr_critical_exit c s) = tcb s"
  "g_fr_task_count (fr_critical_exit c s) = g_fr_task_count s"
  "g_fr_scheduler_current_task (fr_critical_exit c s) = g_fr_scheduler_current_task s"
  "g_fr_scheduler_running (fr_critical_exit c s) = g_fr_scheduler_running s"
  "g_fr_kernel_tick_count (fr_critical_exit c s) = g_fr_kernel_tick_count s"
  "g_fr_trace (fr_critical_exit c s) = g_fr_trace s"
  "pendsv_pending (fr_critical_exit c s) = pendsv_pending s"
  "ram (fr_critical_exit c s) = ram s"
  "objects (fr_critical_exit c s) = objects s"
  "links (fr_critical_exit c s) = links s"
  "cpu_basepri (cpu (fr_critical_exit c s)) = c"
  by (simp_all add: fr_critical_exit_def)

lemma critical_section_restores [simp]:
  "fr_critical_exit (cpu_basepri (cpu s)) (snd (fr_critical_enter s)) = s"
  by (simp add: fr_critical_exit_def fr_critical_enter_def msr_basepri_max_def Let_def)

lemma request_frame [simp]:
  "tcb (fr_port_request_context_switch s) = tcb s"
  "g_fr_task_count (fr_port_request_context_switch s) = g_fr_task_count s"
  "g_fr_scheduler_current_task (fr_port_request_context_switch s) = g_fr_scheduler_current_task s"
  "g_fr_scheduler_running (fr_port_request_context_switch s) = g_fr_scheduler_running s"
  "g_fr_kernel_tick_count (fr_port_request_context_switch s) = g_fr_kernel_tick_count s"
  "g_fr_trace (fr_port_request_context_switch s) = g_fr_trace s"
  "cpu (fr_port_request_context_switch s) = cpu s"
  "ram (fr_port_request_context_switch s) = ram s"
  "objects (fr_port_request_context_switch s) = objects s"
  "links (fr_port_request_context_switch s) = links s"
  "pendsv_pending (fr_port_request_context_switch s)"
  by (simp_all add: fr_port_request_context_switch_def)

end
