(* ===== verification/Tick.thy ===== *)
theory Tick
  imports Port
begin

text \<open>
  The kernel time base (\<open>kernel/tick.c\<close>) and the absolute-deadline timeouts of the blocking
  services (\<open>kernel/wait_timeout.c\<close>). Ticks are 32-bit and wrap; a deadline counts as reached when
  it lies in the half range behind the current tick, which is exact as long as no deadline is more
  than \<open>2 ^ 31 - 1\<close> ticks ahead and no check is more than \<open>2 ^ 31 - 1\<close> ticks late.
\<close>


section \<open>The tick counter\<close>

definition fr_tick_now :: "kernel \<Rightarrow> u32" where
  "fr_tick_now s = g_fr_kernel_tick_count s"

definition fr_tick_elapsed :: "u32 \<Rightarrow> u32 \<Rightarrow> u32" where
  "fr_tick_elapsed start end = end - start"

definition fr_tick_has_elapsed :: "u32 \<Rightarrow> u32 \<Rightarrow> kernel \<Rightarrow> bool" where
  "fr_tick_has_elapsed start duration s \<longleftrightarrow> fr_tick_elapsed start (fr_tick_now s) \<ge> duration"

definition fr_kernel_tick_isr :: "kernel \<Rightarrow> kernel" where
  "fr_kernel_tick_isr s = s\<lparr>g_fr_kernel_tick_count := g_fr_kernel_tick_count s + 1\<rparr>"

definition fr_tick_deadline_reached :: "u32 \<Rightarrow> u32 \<Rightarrow> bool" where
  "fr_tick_deadline_reached now deadline \<longleftrightarrow> now - deadline \<le> UINT32_MAX div 2"


section \<open>Wait timeouts\<close>

record fr_wait_timeout =
  to_wait_forever :: bool
  to_deadline :: u32

text \<open>The result is \<open>None\<close> where the C function returns \<open>false\<close>.\<close>

definition fr_wait_timeout_start :: "u32 \<Rightarrow> kernel \<Rightarrow> fr_wait_timeout option" where
  "fr_wait_timeout_start timeout_ticks s =
     (if timeout_ticks > FR_WAIT_MAX_FINITE_TICKS \<and> timeout_ticks \<noteq> FR_WAIT_FOREVER then None
      else if timeout_ticks = FR_WAIT_FOREVER
      then Some \<lparr>to_wait_forever = True, to_deadline = 0\<rparr>
      else Some \<lparr>to_wait_forever = False, to_deadline = fr_tick_now s + timeout_ticks\<rparr>)"

text \<open>The pair is the returned flag and the value left in \<open>*remaining_ticks\<close>.\<close>

definition fr_wait_timeout_remaining :: "fr_wait_timeout \<Rightarrow> kernel \<Rightarrow> bool \<times> u32" where
  "fr_wait_timeout_remaining timeout s =
     (if to_wait_forever timeout then (True, FR_WAIT_FOREVER)
      else let now = fr_tick_now s
           in if fr_tick_deadline_reached now (to_deadline timeout) then (False, 0)
              else (True, to_deadline timeout - now))"


section \<open>Facts\<close>

lemma unat_half: "x \<le> (0x7FFFFFFF :: u32) \<longleftrightarrow> unat x < 2147483648"
  by (simp add: word_le_nat_alt less_Suc_eq_le [symmetric])

lemma deadline_reached_unat: "fr_tick_deadline_reached now dl \<longleftrightarrow> unat (now - dl) < 2147483648"
  unfolding fr_tick_deadline_reached_def half_of_UINT32_MAX by (rule unat_half)

lemma unat_neg_u32:
  assumes "w \<noteq> (0 :: u32)"
  shows "unat (- w) = 4294967296 - unat w"
proof -
  have "unat (0 - w) = 4294967296 - unat w"
    using assms by (subst unat_sub_if') (simp add: unat_eq_zero)
  then show ?thesis by simp
qed

lemma unat_sub_of_nat:
  assumes "d < 2147483648" and "k < d + 2147483648"
  shows "unat (of_nat k - of_nat d :: u32) = (if d \<le> k then k - d else 4294967296 - (d - k))"
proof (cases "d \<le> k")
  case True
  then have "of_nat k - of_nat d = (of_nat (k - d) :: u32)" by (simp add: of_nat_diff)
  moreover have "unat (of_nat (k - d) :: u32) = k - d" using assms by (intro unat_of_nat32) simp
  ultimately show ?thesis using True by simp
next
  case False
  then have "of_nat k - of_nat d = - (of_nat (d - k) :: u32)" by (simp add: of_nat_diff)
  moreover have u: "unat (of_nat (d - k) :: u32) = d - k" using assms by (intro unat_of_nat32) simp
  moreover have "of_nat (d - k) \<noteq> (0 :: u32)" using u False by (metis unat_0 not_le zero_less_diff less_irrefl)
  ultimately have "unat (of_nat k - of_nat d :: u32) = 4294967296 - (d - k)"
    using unat_neg_u32 [of "of_nat (d - k)"] by metis
  then show ?thesis using False by simp
qed

lemma deadline_reached_iff:
  assumes "d < 2147483648" and "k < d + 2147483648"
  shows "fr_tick_deadline_reached (t + of_nat k) (t + of_nat d) \<longleftrightarrow> d \<le> k"
proof -
  have "(t + of_nat k) - (t + of_nat d) = (of_nat k - of_nat d :: u32)" by simp
  with assms show ?thesis
    by (simp only: deadline_reached_unat unat_sub_of_nat) auto
qed

text \<open>
  A remaining time is positive and leads back to the stored deadline. It exceeds the largest
  finite wait only when the deadline was missed by exactly \<open>2 ^ 31\<close> ticks.
\<close>

lemma remaining_finite:
  assumes "fr_wait_timeout_remaining to s = (True, w)" and "\<not> to_wait_forever to"
  shows "w \<noteq> 0" "unat w \<le> 2147483648" "fr_tick_now s + w = to_deadline to"
proof -
  from assms have nr: "\<not> fr_tick_deadline_reached (fr_tick_now s) (to_deadline to)"
    and w: "w = to_deadline to - fr_tick_now s"
    by (auto simp: fr_wait_timeout_remaining_def Let_def split: if_splits)
  from nr have neg: "unat (- w) \<ge> 2147483648"
    by (simp add: deadline_reached_unat w)
  then show w0: "w \<noteq> 0" by auto
  then have "unat (- w) = 4294967296 - unat w" by (rule unat_neg_u32)
  then show "unat w \<le> 2147483648" using neg by linarith
  show "fr_tick_now s + w = to_deadline to" by (simp add: w)
qed

lemma remaining_forever:
  "fr_wait_timeout_remaining to s = (True, w) \<Longrightarrow> to_wait_forever to \<Longrightarrow> w = FR_WAIT_FOREVER"
  by (simp add: fr_wait_timeout_remaining_def)

lemma remaining_budget:
  assumes "fr_wait_timeout_start (of_nat d) s = Some to" and "d < 2147483648"
    and "fr_tick_now s' = fr_tick_now s + of_nat k" and "k < d + 2147483648"
  shows "fr_wait_timeout_remaining to s' = (if k < d then (True, of_nat (d - k)) else (False, 0))
         \<and> (k < d \<longrightarrow> (of_nat (d - k) :: u32) \<noteq> FR_WAIT_FOREVER)"
proof -
  have nf: "n \<le> d \<Longrightarrow> (of_nat n :: u32) \<noteq> FR_WAIT_FOREVER" for n
  proof
    assume n: "n \<le> d" and eq: "(of_nat n :: u32) = FR_WAIT_FOREVER"
    then have "unat (of_nat n :: u32) = 4294967295" by simp
    with n assms(2) show False by (simp add: unat_of_nat32)
  qed
  have to: "to = \<lparr>to_wait_forever = False, to_deadline = fr_tick_now s + of_nat d\<rparr>"
    using assms(1) nf [of d]
    by (auto simp: fr_wait_timeout_start_def split: if_splits)
  show ?thesis
    using deadline_reached_iff [OF assms(2,4), of "fr_tick_now s"] nf [of "d - k"] assms(3)
    by (auto simp: to fr_wait_timeout_remaining_def Let_def of_nat_diff)
qed


section \<open>Properties\<close>

text \<open>
  The deadline test is exact across tick wrap-around: for a wait of \<open>d \<le> 2 ^ 31 - 1\<close> ticks armed
  at tick \<open>t\<close> and examined \<open>k\<close> ticks later (less than \<open>2 ^ 31\<close> ticks after the deadline), the deadline
  counts as reached exactly when \<open>d \<le> k\<close>, whatever \<open>t\<close> is.
\<close>

lemma deadline_exact_across_wrap:
  assumes "d < 2147483648" and "k < d + 2147483648"
  shows "fr_tick_deadline_reached (t + of_nat k) (t + of_nat d) \<longleftrightarrow> d \<le> k"
  by (rule deadline_reached_iff [OF assms])

text \<open>
  A started timeout keeps its original budget across retries: if a service accepted a wait of
  \<open>d\<close> ticks (finite) at tick \<open>t\<close>, then \<open>k\<close> ticks later the remaining time is \<open>d - k\<close> while \<open>k < d\<close> and the
  timeout has expired from \<open>k = d\<close> on, and the remaining time never equals the
  wait-forever sentinel.
\<close>

lemma timeout_budget_is_absolute:
  assumes "fr_wait_timeout_start (of_nat d) s = Some to" and "d < 2147483648"
    and "fr_tick_now s' = fr_tick_now s + of_nat k" and "k < d + 2147483648"
  shows "fr_wait_timeout_remaining to s' = (if k < d then (True, of_nat (d - k)) else (False, 0))
         \<and> (k < d \<longrightarrow> (of_nat (d - k) :: u32) \<noteq> FR_WAIT_FOREVER)"
  by (rule remaining_budget [OF assms])

definition kernel_at_tick :: "u32 \<Rightarrow> kernel" where
  "kernel_at_tick t = (reset_kernel example_links)\<lparr>g_fr_kernel_tick_count := t\<rparr>"

end
