(* ===== verification/Trace.thy ===== *)
theory Trace
  imports Tick
begin

text \<open>
  The event trace (\<open>kernel/trace.c\<close>): a ring of 128 entries that keeps the newest events. The
  abstract view of the ring is the list of its entries, oldest first; recording an event appends to
  that list and drops the oldest entry of a full ring, and a snapshot is a suffix of the list.
\<close>

definition FR_TRACE_BUFFER_CAPACITY :: u32 where
  [simp]: "FR_TRACE_BUFFER_CAPACITY = 128"

definition FR_TRACE_TASK_ID_IDLE :: u32 where
  "FR_TRACE_TASK_ID_IDLE = 0"


section \<open>Operations\<close>

definition fr_trace_advance_index :: "u32 \<Rightarrow> u32" where
  "fr_trace_advance_index index =
     (let index = index + 1 in if index = FR_TRACE_BUFFER_CAPACITY then 0 else index)"

definition fr_trace_copy_entry :: "fr_trace_entry \<Rightarrow> fr_trace_entry" where
  "fr_trace_copy_entry source =
     \<lparr>te_sequence = te_sequence source, te_tick = te_tick source, te_event = te_event source,
      te_task_id = te_task_id source, te_arg0 = te_arg0 source, te_arg1 = te_arg1 source\<rparr>"

definition fr_trace_init :: "kernel \<Rightarrow> kernel" where
  "fr_trace_init s = s\<lparr>g_fr_trace := (g_fr_trace s)
     \<lparr>trace_write_index := 0, trace_count := 0, trace_next_sequence := 1,
      trace_overwritten_events := 0, trace_enabled := True\<rparr>\<rparr>"

definition fr_trace_enable :: "bool \<Rightarrow> kernel \<Rightarrow> kernel" where
  "fr_trace_enable enabled s =
     (let (critical_state, s1) = fr_critical_enter s;
          s2 = s1\<lparr>g_fr_trace := (g_fr_trace s1)\<lparr>trace_enabled := enabled\<rparr>\<rparr>
      in fr_critical_exit critical_state s2)"

definition fr_trace_clear :: "kernel \<Rightarrow> kernel" where
  "fr_trace_clear s =
     (let (critical_state, s1) = fr_critical_enter s;
          s2 = s1\<lparr>g_fr_trace := (g_fr_trace s1)
                 \<lparr>trace_write_index := 0, trace_count := 0, trace_next_sequence := 1,
                  trace_overwritten_events := 0\<rparr>\<rparr>
      in fr_critical_exit critical_state s2)"

record fr_trace_status =
  ts_capacity :: u32
  ts_count :: u32
  ts_write_index :: u32
  ts_next_sequence :: u32
  ts_overwritten_events :: u32
  ts_enabled :: bool

text \<open>
  Where a function writes through a pointer, \<open>out_valid\<close> says that the pointer is not null, and the result
  contains what is written, \<open>None\<close> for nothing.
\<close>

definition fr_trace_get_status :: "bool \<Rightarrow> kernel \<Rightarrow> fr_trace_status option \<times> kernel" where
  "fr_trace_get_status out_valid s =
     (if \<not> out_valid then (None, s)
      else let (critical_state, s1) = fr_critical_enter s;
          t = g_fr_trace s1;
          out_status = \<lparr>ts_capacity = FR_TRACE_BUFFER_CAPACITY, ts_count = trace_count t,
            ts_write_index = trace_write_index t, ts_next_sequence = trace_next_sequence t,
            ts_overwritten_events = trace_overwritten_events t, ts_enabled = trace_enabled t\<rparr>
      in (Some out_status, fr_critical_exit critical_state s1))"

text \<open>
  The two loops of \<open>fr_trace_snapshot\<close>: skipping to the first entry to copy, and copying. The
  destination array is represented by the list of entries written to \<open>entries[0]\<close>, \<open>entries[1]\<close>, ...
\<close>

fun trace_skip :: "nat \<Rightarrow> u32 \<Rightarrow> u32" where
  "trace_skip 0 index = index"
| "trace_skip (Suc n) index = trace_skip n (fr_trace_advance_index index)"

fun trace_copy :: "nat \<Rightarrow> trace_state \<Rightarrow> u32 \<Rightarrow> fr_trace_entry list" where
  "trace_copy 0 t index = []"
| "trace_copy (Suc n) t index =
     fr_trace_copy_entry (trace_buffer t (unat index)) # trace_copy n t (fr_trace_advance_index index)"

definition fr_trace_snapshot :: "bool \<Rightarrow> u32 \<Rightarrow> kernel \<Rightarrow> u32 \<times> fr_trace_entry list \<times> kernel" where
  "fr_trace_snapshot entries_valid max_entries s =
     (if \<not> entries_valid \<or> max_entries = 0 then (0, [], s)
      else let (critical_state, s1) = fr_critical_enter s;
               t = g_fr_trace s1;
               count = trace_count t;
               copy_count = (if count < max_entries then count else max_entries);
               oldest_index = (if count < FR_TRACE_BUFFER_CAPACITY then 0 else trace_write_index t);
               skip_count = count - copy_count;
               oldest_index = trace_skip (unat skip_count) oldest_index;
               entries = trace_copy (unat copy_count) t oldest_index
           in (copy_count, entries, fr_critical_exit critical_state s1))"

definition trace_write :: "u32 \<Rightarrow> fr_trace_event \<Rightarrow> u32 \<Rightarrow> u32 \<Rightarrow> u32 \<Rightarrow> trace_state \<Rightarrow> trace_state" where
  "trace_write now event tid arg0 arg1 t =
     (if \<not> trace_enabled t \<or> event = EVENT_NONE then t
      else let index = trace_write_index t;
               e = \<lparr>te_sequence = trace_next_sequence t, te_tick = now, te_event = event,
                    te_task_id = tid, te_arg0 = arg0, te_arg1 = arg1\<rparr>;
               t1 = t\<lparr>trace_buffer := (trace_buffer t)(unat index := e),
                      trace_next_sequence := trace_next_sequence t + 1,
                      trace_write_index := fr_trace_advance_index index\<rparr>
           in if trace_count t < FR_TRACE_BUFFER_CAPACITY
              then t1\<lparr>trace_count := trace_count t + 1\<rparr>
              else t1\<lparr>trace_overwritten_events := trace_overwritten_events t + 1\<rparr>)"

definition fr_trace_record_locked :: "fr_trace_event \<Rightarrow> u32 \<Rightarrow> u32 \<Rightarrow> u32 \<Rightarrow> kernel \<Rightarrow> kernel" where
  "fr_trace_record_locked event tid arg0 arg1 s =
     s\<lparr>g_fr_trace := trace_write (fr_tick_now s) event tid arg0 arg1 (g_fr_trace s)\<rparr>"

lemma trace_record_frame [simp]:
  "tcb (fr_trace_record_locked e i a b s) = tcb s"
  "g_fr_task_count (fr_trace_record_locked e i a b s) = g_fr_task_count s"
  "g_fr_scheduler_current_task (fr_trace_record_locked e i a b s) = g_fr_scheduler_current_task s"
  "g_fr_scheduler_running (fr_trace_record_locked e i a b s) = g_fr_scheduler_running s"
  "g_fr_kernel_tick_count (fr_trace_record_locked e i a b s) = g_fr_kernel_tick_count s"
  "cpu (fr_trace_record_locked e i a b s) = cpu s"
  "pendsv_pending (fr_trace_record_locked e i a b s) = pendsv_pending s"
  "ram (fr_trace_record_locked e i a b s) = ram s"
  "objects (fr_trace_record_locked e i a b s) = objects s"
  "links (fr_trace_record_locked e i a b s) = links s"
  by (simp_all add: fr_trace_record_locked_def)


section \<open>The ring as a list\<close>

interpretation trace_ring: ring_index "\<lambda>_. 128" unat "\<lambda>_ :: unit. fr_trace_advance_index"
proof
  fix i :: u32
  assume "unat i < 128"
  then have "i < 128" by (simp add: word_less_nat_alt)
  from word_inc_eq_zero_or [OF this] show "unat (fr_trace_advance_index i) = Suc (unat i) mod 128"
    by (simp add: fr_trace_advance_index_def Let_def)
qed

definition trace_oldest :: "trace_state \<Rightarrow> u32" where
  "trace_oldest t = (if trace_count t < FR_TRACE_BUFFER_CAPACITY then 0 else trace_write_index t)"

definition trace_events :: "trace_state \<Rightarrow> fr_trace_entry list" where
  "trace_events t =
     map (trace_buffer t) (ring_slots 128 (unat (trace_oldest t)) (unat (trace_count t)))"

definition trace_ok :: "trace_state \<Rightarrow> bool" where
  "trace_ok t \<longleftrightarrow> trace_count t \<le> 128 \<and> trace_write_index t < 128 \<and>
     (trace_count t < 128 \<longrightarrow> trace_write_index t = trace_count t)"

text \<open>The abstract trace: append, and forget the oldest event beyond the capacity.\<close>

definition trace_spec_append :: "fr_trace_entry \<Rightarrow> fr_trace_entry list \<Rightarrow> fr_trace_entry list" where
  "trace_spec_append e es = drop (Suc (length es) - 128) (es @ [e])"

lemma trace_skip_pos:
  "unat i < 128 \<Longrightarrow> unat (trace_skip n i) = (unat i + n) mod 128"
proof (induction n arbitrary: i)
  case 0
  then show ?case by simp
next
  case (Suc n)
  from Suc.prems have "unat (fr_trace_advance_index i) < 128" by (rule trace_ring.advance_less)
  from Suc.IH [OF this] Suc.prems show ?case
    by (simp add: trace_ring.advance_law mod_add_left_eq)
qed

lemma copy_entry_id [simp]: "fr_trace_copy_entry e = e"
  by (simp add: fr_trace_copy_entry_def)

lemma trace_copy_slots:
  "unat i < 128 \<Longrightarrow> trace_copy n t i = map (trace_buffer t) (ring_slots 128 (unat i) n)"
proof (induction n arbitrary: i)
  case 0
  then show ?case by simp
next
  case (Suc n)
  from Suc.prems have "unat (fr_trace_advance_index i) < 128" by (rule trace_ring.advance_less)
  from Suc.IH [OF this] Suc.prems show ?case
    by (simp add: trace_ring.advance_law)
qed

lemma trace_oldest_less: "trace_ok t \<Longrightarrow> unat (trace_oldest t) < 128"
  by (simp add: trace_ok_def trace_oldest_def word_less_nat_alt)

lemma trace_tail_pos:
  assumes "trace_ok t"
  shows "unat (trace_write_index t) = (unat (trace_oldest t) + unat (trace_count t)) mod 128"
proof (cases "trace_count t < 128")
  case True
  with assms show ?thesis
    by (simp add: trace_ok_def trace_oldest_def word_less_nat_alt)
next
  case False
  with assms have "unat (trace_count t) = 128"
    by (simp add: trace_ok_def word_less_nat_alt word_le_nat_alt)
  with False assms show ?thesis
    by (simp add: trace_ok_def trace_oldest_def word_less_nat_alt)
qed

lemma length_trace_events [simp]: "length (trace_events t) = unat (trace_count t)"
  by (simp add: trace_events_def)

lemma ring_slots_drop:
  "i < cap \<Longrightarrow> k \<le> n \<Longrightarrow> drop k (ring_slots cap i n) = ring_slots cap ((i + k) mod cap) (n - k)"
  by (rule nth_equalityI) (simp_all add: ring_slots_nth mod_add_left_eq add.assoc)

definition trace_new_entry :: "u32 \<Rightarrow> fr_trace_event \<Rightarrow> u32 \<Rightarrow> u32 \<Rightarrow> u32 \<Rightarrow> trace_state \<Rightarrow> fr_trace_entry" where
  "trace_new_entry now event tid a b t =
     \<lparr>te_sequence = trace_next_sequence t, te_tick = now, te_event = event, te_task_id = tid,
      te_arg0 = a, te_arg1 = b\<rparr>"

lemma trace_write_ok:
  assumes "trace_ok t"
  shows "trace_ok (trace_write now event tid a b t)"
proof -
  have less: "unat (fr_trace_advance_index (trace_write_index t)) < 128"
    using assms by (intro trace_ring.advance_less) (simp add: trace_ok_def word_less_nat_alt)
  have adv: "unat (fr_trace_advance_index (trace_write_index t)) =
               Suc (unat (trace_write_index t)) mod 128"
    using assms by (intro trace_ring.advance_law) (simp add: trace_ok_def word_less_nat_alt)
  show ?thesis
  proof (cases "trace_count t < 128")
    case True
    then have "unat (trace_count t + 1) = Suc (unat (trace_count t))" by (rule unat_Suc_word)
    with True assms less adv show ?thesis
      by (auto simp: trace_write_def trace_ok_def Let_def word_less_nat_alt word_le_nat_alt
          word_unat_eq_iff)
  next
    case False
    with assms less show ?thesis
      by (simp add: trace_write_def trace_ok_def Let_def word_less_nat_alt)
  qed
qed

lemma trace_write_disabled:
  "\<not> trace_enabled t \<or> event = EVENT_NONE \<Longrightarrow> trace_write now event tid a b t = t"
  by (simp add: trace_write_def)

lemma trace_write_fields:
  assumes "trace_enabled t" and "event \<noteq> EVENT_NONE"
  shows "trace_buffer (trace_write now event tid a b t) =
           (trace_buffer t)(unat (trace_write_index t) := trace_new_entry now event tid a b t)"
    and "trace_write_index (trace_write now event tid a b t) =
           fr_trace_advance_index (trace_write_index t)"
    and "trace_next_sequence (trace_write now event tid a b t) = trace_next_sequence t + 1"
    and "trace_count (trace_write now event tid a b t) =
           (if trace_count t < 128 then trace_count t + 1 else trace_count t)"
  using assms by (simp_all add: trace_write_def trace_new_entry_def Let_def)

lemma trace_write_grows:
  assumes ok: "trace_ok t" and en: "trace_enabled t" "event \<noteq> EVENT_NONE" and room: "trace_count t < 128"
  shows "trace_events (trace_write now event tid a b t) = trace_events t @ [trace_new_entry now event tid a b t]"
proof -
  let ?w = "trace_write_index t" and ?t' = "trace_write now event tid a b t"
  let ?e = "trace_new_entry now event tid a b t"
  note f = trace_write_fields [OF en, of now tid a b]
  have w: "unat ?w < 128" using ok by (simp add: trace_ok_def word_less_nat_alt)
  have c: "unat (trace_count ?t') = Suc (unat (trace_count t))"
    by (simp add: f room unat_Suc_word [OF room])
  have c128: "unat (trace_count t) < 128" using room by (simp add: word_less_nat_alt)
  have wc: "unat ?w = (unat (0 :: u32) + unat (trace_count t)) mod 128"
    using room ok c128 by (simp add: trace_ok_def)
  have adv: "unat (fr_trace_advance_index ?w) = Suc (unat (trace_count t)) mod 128"
    using trace_ring.advance_law [OF w] wc c128 by simp
  have old: "unat (trace_oldest ?t') = 0"
  proof (cases "Suc (unat (trace_count t)) = 128")
    case True
    then show ?thesis using adv by (simp add: trace_oldest_def f(2))
  next
    case False
    then have "trace_count ?t' < FR_TRACE_BUFFER_CAPACITY"
      using c c128 by (simp add: word_less_nat_alt)
    then show ?thesis by (simp add: trace_oldest_def)
  qed
  have "map (trace_buffer ?t') (ring_slots 128 0 (Suc (unat (trace_count t)))) =
          map (trace_buffer t) (ring_slots 128 0 (unat (trace_count t))) @ [?e]"
    using trace_ring.ring_put(1) [OF _ c128 wc, of "trace_buffer t" ?e] by (simp add: f)
  moreover have "trace_events ?t' =
      map (trace_buffer ?t') (ring_slots 128 0 (Suc (unat (trace_count t))))"
    by (simp only: trace_events_def old c)
  moreover have "trace_events t = map (trace_buffer t) (ring_slots 128 0 (unat (trace_count t)))"
    using room by (simp add: trace_events_def trace_oldest_def)
  ultimately show ?thesis by simp
qed

lemma trace_write_overwrites:
  assumes ok: "trace_ok t" and en: "trace_enabled t" "event \<noteq> EVENT_NONE" and full: "\<not> trace_count t < 128"
  shows "trace_events (trace_write now event tid a b t) = tl (trace_events t) @ [trace_new_entry now event tid a b t]"
proof -
  let ?w = "trace_write_index t" and ?t' = "trace_write now event tid a b t"
  let ?e = "trace_new_entry now event tid a b t"
  note f = trace_write_fields [OF en, of now tid a b]
  have w: "unat ?w < 128" using ok by (simp add: trace_ok_def word_less_nat_alt)
  have c: "unat (trace_count t) = 128"
    using ok full by (simp add: trace_ok_def word_less_nat_alt word_le_nat_alt)
  have "map (trace_buffer ?t') (ring_slots 128 (unat (fr_trace_advance_index ?w)) 128) =
          tl (map (trace_buffer t) (ring_slots 128 (unat ?w) 128)) @ [?e]"
    using trace_ring.ring_overwrite [OF w, of "trace_buffer t" ?e] by (simp only: f)
  moreover have "trace_events t = map (trace_buffer t) (ring_slots 128 (unat ?w) 128)"
    using full by (simp only: trace_events_def c) (simp add: trace_oldest_def)
  moreover have "trace_events ?t' =
      map (trace_buffer ?t') (ring_slots 128 (unat (fr_trace_advance_index ?w)) 128)"
    using full c by (simp add: trace_events_def trace_oldest_def f)
  ultimately show ?thesis by simp
qed

lemma trace_write_events:
  assumes "trace_ok t" and "trace_enabled t" "event \<noteq> EVENT_NONE"
  shows "trace_events (trace_write now event tid a b t) =
           trace_spec_append (trace_new_entry now event tid a b t) (trace_events t)"
proof (cases "trace_count t < 128")
  case True
  then have "unat (trace_count t) < 128" by (simp add: word_less_nat_alt)
  then show ?thesis by (simp add: trace_write_grows [OF assms True] trace_spec_append_def)
next
  case False
  then have "unat (trace_count t) = 128"
    using assms(1) by (simp add: trace_ok_def word_less_nat_alt word_le_nat_alt)
  then show ?thesis by (simp add: trace_write_overwrites [OF assms False] trace_spec_append_def drop_Suc)
qed

text \<open>Sequence numbers are consecutive and end just before the next one to be issued.\<close>

definition trace_seq_ok :: "trace_state \<Rightarrow> bool" where
  "trace_seq_ok t \<longleftrightarrow> (\<forall>i < unat (trace_count t).
     te_sequence (trace_events t ! i) = trace_next_sequence t - of_nat (unat (trace_count t) - i))"

lemma trace_write_seq_ok:
  assumes ok: "trace_ok t" and seq: "trace_seq_ok t"
  shows "trace_seq_ok (trace_write now event tid a b t)"
proof (cases "trace_enabled t \<and> event \<noteq> EVENT_NONE")
  case False
  with seq show ?thesis by (auto simp: trace_write_disabled)
next
  case True
  then have en: "trace_enabled t" "event \<noteq> EVENT_NONE" by auto
  let ?n = "unat (trace_count t)" and ?t' = "trace_write now event tid a b t"
  let ?k = "Suc ?n - 128"
  note ev = trace_write_events [OF ok en, of now tid a b]
  have n: "?n \<le> 128" using ok by (simp add: trace_ok_def word_le_nat_alt)
  have n': "unat (trace_count ?t') = Suc ?n - ?k"
    using arg_cong [OF ev, of length] by (simp add: trace_spec_append_def)
  show ?thesis
    unfolding trace_seq_ok_def
  proof (intro allI impI)
    fix i assume i: "i < unat (trace_count ?t')"
    have entry: "trace_events ?t' ! i = (trace_events t @ [trace_new_entry now event tid a b t]) ! (?k + i)"
      using i n' unfolding ev trace_spec_append_def length_trace_events
      by (intro nth_drop) simp
    have dist: "unat (trace_count ?t') - i = Suc (?n - (?k + i))" using i n' by simp
    show "te_sequence (trace_events ?t' ! i) =
            trace_next_sequence ?t' - of_nat (unat (trace_count ?t') - i)"
    proof (cases "?k + i < ?n")
      case True
      define m where "m = ?n - (?k + i)"
      have "te_sequence (trace_events t ! (?k + i)) = trace_next_sequence t - of_nat m"
        using seq True unfolding trace_seq_ok_def m_def by blast
      with True show ?thesis
        unfolding dist m_def [symmetric] by (simp add: entry nth_append trace_write_fields(3) [OF en])
    next
      case False
      then have last: "?k + i = ?n" using i n' by simp
      then show ?thesis
        unfolding dist by (simp add: entry nth_append trace_new_entry_def trace_write_fields(3) [OF en])
    qed
  qed
qed


lemma trace_empty_ok:
  "trace_count t = 0 \<Longrightarrow> trace_write_index t = 0 \<Longrightarrow> trace_ok t \<and> trace_seq_ok t"
  by (simp add: trace_ok_def trace_seq_ok_def)

lemma trace_enable_same:
  "trace_ok (t\<lparr>trace_enabled := en\<rparr>) = trace_ok t"
  "trace_seq_ok (t\<lparr>trace_enabled := en\<rparr>) = trace_seq_ok t"
  by (cases t, simp add: trace_ok_def)
     (cases t, simp add: trace_seq_ok_def trace_events_def trace_oldest_def)


section \<open>Properties\<close>

text \<open>
  C38. Recording an event refines the abstract trace: with tracing enabled, the list of buffered
  events becomes the old list with the new event appended, less the oldest event when 128 events
  are already buffered, and the ring stays well formed.
\<close>

theorem trace_record_refines_append:
  assumes "trace_ok (g_fr_trace s)" and "trace_enabled (g_fr_trace s)" and "event \<noteq> EVENT_NONE"
  shows "trace_events (g_fr_trace (fr_trace_record_locked event tid a b s)) =
           trace_spec_append (trace_new_entry (fr_tick_now s) event tid a b (g_fr_trace s))
             (trace_events (g_fr_trace s))
         \<and> trace_ok (g_fr_trace (fr_trace_record_locked event tid a b s))"
  using assms by (simp add: fr_trace_record_locked_def trace_write_events trace_write_ok)

theorem trace_record_refines_append_witness:
  "trace_events (g_fr_trace (fr_trace_record_locked EVENT_TASK_CREATE 1 3 128
      (fr_trace_init (reset_kernel example_links)))) =
   [\<lparr>te_sequence = 1, te_tick = 0, te_event = EVENT_TASK_CREATE, te_task_id = 1, te_arg0 = 3,
     te_arg1 = 128\<rparr>]"
proof -
  let ?s = "fr_trace_init (reset_kernel example_links)"
  have "trace_ok (g_fr_trace ?s)" "trace_enabled (g_fr_trace ?s)"
    by (simp_all add: fr_trace_init_def trace_ok_def)
  from trace_record_refines_append [OF this, of EVENT_TASK_CREATE 1 3 128] show ?thesis
    by (simp add: trace_spec_append_def trace_new_entry_def trace_events_def fr_trace_init_def
        fr_tick_now_def reset_kernel_def)
qed

text \<open>
  C39. A snapshot of at most \<open>m > 0\<close> entries returns the newest \<open>min count m\<close> buffered events in
  chronological order, reports that number, and leaves the kernel state unchanged.
\<close>

theorem trace_snapshot_newest:
  assumes "trace_ok (g_fr_trace s)" and "m \<noteq> 0"
  shows "fr_trace_snapshot True m s =
           (min (trace_count (g_fr_trace s)) m,
            drop (unat (trace_count (g_fr_trace s)) - unat m) (trace_events (g_fr_trace s)), s)"
proof -
  let ?t = "g_fr_trace s"
  let ?c = "trace_count ?t"
  let ?copy = "if ?c < m then ?c else m"
  have copy: "unat ?copy = min (unat ?c) (unat m)" by (simp add: word_less_nat_alt)
  have le: "?copy \<le> ?c" by (simp add: not_less)
  have skip: "unat (?c - ?copy) = unat ?c - unat m"
    by (simp add: unat_sub [OF le] copy)
  have old: "unat (trace_oldest ?t) < 128" using assms(1) by (rule trace_oldest_less)
  have "trace_copy (unat ?copy) ?t (trace_skip (unat (?c - ?copy)) (trace_oldest ?t)) =
          drop (unat ?c - unat m) (trace_events ?t)"
    using old
    by (simp add: trace_copy_slots trace_skip_pos trace_events_def skip copy drop_map ring_slots_drop
        min_def)
  moreover have "min ?c m = ?copy" by (auto simp: min_def)
  ultimately show ?thesis
    using assms(2)
    by (simp only: fr_trace_snapshot_def trace_oldest_def Let_def split_beta if_False not_True_eq_False simp_thms
        critical_enter_frame critical_enter_state critical_section_restores)
qed

definition traced_kernel :: kernel where
  "traced_kernel =
     fr_trace_record_locked EVENT_TASK_CREATE 1 3 128 (fr_trace_init (reset_kernel example_links))"

theorem trace_snapshot_newest_witness:
  "fr_trace_snapshot True 4 traced_kernel =
     (1, [\<lparr>te_sequence = 1, te_tick = 0, te_event = EVENT_TASK_CREATE, te_task_id = 1,
           te_arg0 = 3, te_arg1 = 128\<rparr>], traced_kernel)"
proof -
  have ok: "trace_ok (g_fr_trace traced_kernel)"
    by (simp add: traced_kernel_def fr_trace_record_locked_def fr_trace_init_def trace_write_ok
        trace_empty_ok)
  have t: "g_fr_trace traced_kernel =
      \<lparr>trace_buffer = (\<lambda>_. zero_trace_entry)(0 := \<lparr>te_sequence = 1, te_tick = 0,
         te_event = EVENT_TASK_CREATE, te_task_id = 1, te_arg0 = 3, te_arg1 = 128\<rparr>),
       trace_write_index = 1, trace_count = 1, trace_next_sequence = 2,
       trace_overwritten_events = 0, trace_enabled = True\<rparr>"
    by (simp add: traced_kernel_def fr_trace_record_locked_def fr_trace_init_def trace_write_def
        Let_def fr_trace_advance_index_def reset_kernel_def fr_tick_now_def)
  show ?thesis
    unfolding trace_snapshot_newest [OF ok, of 4, simplified]
    by (simp add: t trace_events_def trace_oldest_def)
qed

text \<open>
  Trace entries carry consecutive sequence numbers: from initialisation on, every recorded
  event, enable, disable or clear keeps the ring well formed and the buffered entries numbered
  \<open>next - count, ..., next - 1\<close> (modulo \<open>2 ^ 32\<close>).
\<close>

lemma trace_operations_keep_sequence:
  "trace_ok (g_fr_trace (fr_trace_init s)) \<and> trace_seq_ok (g_fr_trace (fr_trace_init s)) \<and>
   trace_ok (g_fr_trace (fr_trace_clear s)) \<and> trace_seq_ok (g_fr_trace (fr_trace_clear s)) \<and>
   (trace_ok (g_fr_trace s) \<and> trace_seq_ok (g_fr_trace s) \<longrightarrow>
      trace_ok (g_fr_trace (fr_trace_record_locked event tid a b s)) \<and>
      trace_seq_ok (g_fr_trace (fr_trace_record_locked event tid a b s)) \<and>
      trace_ok (g_fr_trace (fr_trace_enable en s)) \<and>
      trace_seq_ok (g_fr_trace (fr_trace_enable en s)))"
  by (simp add: fr_trace_init_def fr_trace_clear_def fr_trace_record_locked_def fr_trace_enable_def
      split_beta Let_def trace_write_ok trace_write_seq_ok trace_empty_ok trace_enable_same)

end
