(* ===== verification/Memory.thy ===== *)
theory Memory
  imports Trace
begin

text \<open>
  Byte-addressed memory with the 32-bit little-endian accesses that the stack code makes. Addresses
  wrap at 32 bits.
\<close>

definition load32 :: "(u32 \<Rightarrow> u8) \<Rightarrow> u32 \<Rightarrow> u32" where
  "load32 m a = ucast (m a) OR push_bit 8 (ucast (m (a + 1)))
     OR push_bit 16 (ucast (m (a + 2))) OR push_bit 24 (ucast (m (a + 3)))"

definition store32 :: "(u32 \<Rightarrow> u8) \<Rightarrow> u32 \<Rightarrow> u32 \<Rightarrow> (u32 \<Rightarrow> u8)" where
  "store32 m a v = m(a := ucast v, a + 1 := ucast (drop_bit 8 v),
     a + 2 := ucast (drop_bit 16 v), a + 3 := ucast (drop_bit 24 v))"

text \<open>Consecutive words from an address upwards.\<close>

fun store_words :: "(u32 \<Rightarrow> u8) \<Rightarrow> u32 \<Rightarrow> u32 list \<Rightarrow> (u32 \<Rightarrow> u8)" where
  "store_words m a [] = m"
| "store_words m a (w # ws) = store_words (store32 m a w) (a + 4) ws"

definition word_at :: "u32 \<Rightarrow> nat \<Rightarrow> u32" where
  "word_at base i = base + 4 * of_nat i"

lemma load32_store32_same: "load32 (store32 m a v) a = v"
proof -
  have d: "a + 1 \<noteq> a" "a + 2 \<noteq> a" "a + 3 \<noteq> a" "a + 2 \<noteq> a + 1" "a + 3 \<noteq> a + 1" "a + 3 \<noteq> a + 2"
    by simp_all
  have "load32 (store32 m a v) a = ucast (ucast v :: u8) OR push_bit 8 (ucast (ucast (drop_bit 8 v) :: u8))
      OR push_bit 16 (ucast (ucast (drop_bit 16 v) :: u8)) OR push_bit 24 (ucast (ucast (drop_bit 24 v) :: u8))"
    using d d [symmetric] by (simp add: load32_def store32_def)
  also have "\<dots> = v"
  proof (rule bit_word_eqI)
    fix n
    assume n: "n < LENGTH(32)"
    show "bit (ucast (ucast v :: u8) OR push_bit 8 (ucast (ucast (drop_bit 8 v) :: u8))
      OR push_bit 16 (ucast (ucast (drop_bit 16 v) :: u8))
      OR push_bit 24 (ucast (ucast (drop_bit 24 v) :: u8)) :: u32) n = bit v n"
    proof -
      consider "n < 16" | "16 \<le> n" "n < 24" | "24 \<le> n" by linarith
      then show ?thesis
        by cases (use n in \<open>auto simp: bit_simps not_less\<close>)
    qed
  qed
  finally show ?thesis .
qed

lemma load32_store32_other:
  assumes "\<And>p q. p < 4 \<Longrightarrow> q < 4 \<Longrightarrow> a + of_nat p \<noteq> b + of_nat q"
  shows "load32 (store32 m a v) b = load32 m b"
proof -
  have "store32 m a v (b + of_nat q) = m (b + of_nat q)" if "q < 4" for q
    using assms [of 0 q] assms [of 1 q] assms [of 2 q] assms [of 3 q] that
    by (auto simp: store32_def)
  from this [of 0] this [of 1] this [of 2] this [of 3] show ?thesis
    by (simp add: load32_def)
qed

text \<open>Bytes \<open>base + k\<close> for distinct offsets below \<open>2 ^ 32\<close> are distinct.\<close>

lemma byte_offset_inj:
  assumes "i < 4294967296" and "j < 4294967296" and "b + of_nat i = b + (of_nat j :: u32)"
  shows "i = j"
proof -
  have "unat (of_nat i :: u32) = unat (of_nat j :: u32)" using assms(3) by simp
  with assms(1,2) show ?thesis by (simp add: unat_of_nat32)
qed

lemma word_at_byte: "word_at b i + of_nat p = b + of_nat (4 * i + p)"
  by (simp add: word_at_def)

lemma load32_store32_word:
  assumes "i < 1073741824" and "j < 1073741824"
  shows "load32 (store32 m (word_at b i) v) (word_at b j) =
           (if i = j then v else load32 m (word_at b j))"
proof (cases "i = j")
  case True
  then show ?thesis by (simp add: load32_store32_same)
next
  case False
  have "word_at b i + of_nat p \<noteq> word_at b j + of_nat q" if "p < 4" "q < 4" for p q
  proof
    assume "word_at b i + of_nat p = word_at b j + of_nat q"
    then have eq: "b + of_nat (4 * i + p) = b + of_nat (4 * j + q)" by (simp only: word_at_byte)
    have "4 * i + p = 4 * j + q"
      by (rule byte_offset_inj [OF _ _ eq]) (use assms that in simp_all)
    with that False show False by presburger
  qed
  then show ?thesis using False by (simp add: load32_store32_other)
qed

lemma word_at_add: "word_at b i + 4 = word_at b (Suc i)"
  by (simp add: word_at_def)

lemma load32_store_words:
  assumes "i + length ws \<le> 1073741824" and "j < 1073741824"
  shows "load32 (store_words m (word_at b i) ws) (word_at b j) =
           (if i \<le> j \<and> j < i + length ws then ws ! (j - i) else load32 m (word_at b j))"
  using assms
proof (induction ws arbitrary: m i)
  case Nil
  then show ?case by auto
next
  case (Cons w ws)
  have "load32 (store_words (store32 m (word_at b i) w) (word_at b (Suc i)) ws) (word_at b j) =
          (if Suc i \<le> j \<and> j < Suc i + length ws then ws ! (j - Suc i)
           else load32 (store32 m (word_at b i) w) (word_at b j))"
    using Cons.prems by (intro Cons.IH) auto
  moreover have "load32 (store32 m (word_at b i) w) (word_at b j) =
      (if i = j then w else load32 m (word_at b j))"
    using Cons.prems by (intro load32_store32_word) auto
  ultimately show ?case
    by (auto simp: word_at_add nth_Cons' not_le less_Suc_eq_le)
qed

section \<open>Alignment\<close>

lemma unat_and_mask3: "unat ((x :: u32) AND 7) = unat x mod 8"
proof -
  have "x AND 7 = take_bit 3 x" by (simp add: take_bit_eq_mask mask_eq_exp_minus_1)
  then show ?thesis by (simp add: take_bit_eq_mod unat_mod)
qed

lemma and7_iff: "(x :: u32) AND 7 = 0 \<longleftrightarrow> 8 dvd unat x"
  using unat_and_mask3 [of x] by (simp add: unat_eq_zero dvd_eq_mod_eq_0 flip: unat_eq_zero)

lemma and1_iff: "(x :: u32) AND 1 = 0 \<longleftrightarrow> even (unat x)"
proof -
  have "x AND 1 = take_bit 1 x" by (simp add: take_bit_eq_mask)
  then have "unat (x AND 1) = unat x mod 2" by (simp add: take_bit_eq_mod unat_mod)
  then show ?thesis by (simp add: even_iff_mod_2_eq_zero flip: unat_eq_zero)
qed

end
