(* ===== verification/Task.thy ===== *)
theory Task
  imports Memory
begin

text \<open>
  Task creation and inspection (\<open>kernel/task.c\<close>) and the initial Cortex-M4 context that creation
  builds on the new stack (\<open>port/cortex_m4/task_context.c\<close>).

  Creation runs in two critical sections: the first reserves a slot of the registry, the second
  publishes the task as READY; between them the stack is filled and the initial context written.
  The task handles of the inspection functions are raw addresses, validated against the pool.
\<close>


section \<open>Initial context\<close>

definition FR_CORTEX_M4_INITIAL_CONTEXT_WORDS :: u32 where
  [simp]: "FR_CORTEX_M4_INITIAL_CONTEXT_WORDS = 16"

definition FR_CORTEX_M4_INITIAL_XPSR :: u32 where [simp]: "FR_CORTEX_M4_INITIAL_XPSR = 0x01000000"
definition FR_CORTEX_M4_INITIAL_R1 :: u32 where [simp]: "FR_CORTEX_M4_INITIAL_R1 = 0x11111111"
definition FR_CORTEX_M4_INITIAL_R2 :: u32 where [simp]: "FR_CORTEX_M4_INITIAL_R2 = 0x22222222"
definition FR_CORTEX_M4_INITIAL_R3 :: u32 where [simp]: "FR_CORTEX_M4_INITIAL_R3 = 0x33333333"
definition FR_CORTEX_M4_INITIAL_R4 :: u32 where [simp]: "FR_CORTEX_M4_INITIAL_R4 = 0x44444444"
definition FR_CORTEX_M4_INITIAL_R5 :: u32 where [simp]: "FR_CORTEX_M4_INITIAL_R5 = 0x55555555"
definition FR_CORTEX_M4_INITIAL_R6 :: u32 where [simp]: "FR_CORTEX_M4_INITIAL_R6 = 0x66666666"
definition FR_CORTEX_M4_INITIAL_R7 :: u32 where [simp]: "FR_CORTEX_M4_INITIAL_R7 = 0x77777777"
definition FR_CORTEX_M4_INITIAL_R8 :: u32 where [simp]: "FR_CORTEX_M4_INITIAL_R8 = 0x88888888"
definition FR_CORTEX_M4_INITIAL_R9 :: u32 where [simp]: "FR_CORTEX_M4_INITIAL_R9 = 0x99999999"
definition FR_CORTEX_M4_INITIAL_R10 :: u32 where [simp]: "FR_CORTEX_M4_INITIAL_R10 = 0xAAAAAAAA"
definition FR_CORTEX_M4_INITIAL_R11 :: u32 where [simp]: "FR_CORTEX_M4_INITIAL_R11 = 0xBBBBBBBB"
definition FR_CORTEX_M4_INITIAL_R12 :: u32 where [simp]: "FR_CORTEX_M4_INITIAL_R12 = 0x12121212"

text \<open>
  The enumeration of the sixteen words in stack order, R4 to R11, then the hardware frame R0 to R3, R12,
  LR, PC, xPSR; and what the port stores in each.
\<close>

datatype fr_context =
    FR_CONTEXT_R4 | FR_CONTEXT_R5 | FR_CONTEXT_R6 | FR_CONTEXT_R7 | FR_CONTEXT_R8 | FR_CONTEXT_R9 | FR_CONTEXT_R10 | FR_CONTEXT_R11
  | FR_CONTEXT_R0 | FR_CONTEXT_R1 | FR_CONTEXT_R2 | FR_CONTEXT_R3 | FR_CONTEXT_R12 | FR_CONTEXT_LR | FR_CONTEXT_PC | FR_CONTEXT_XPSR

definition context_words :: "fr_context list" where
  "context_words =
     [FR_CONTEXT_R4, FR_CONTEXT_R5, FR_CONTEXT_R6, FR_CONTEXT_R7, FR_CONTEXT_R8, FR_CONTEXT_R9, FR_CONTEXT_R10, FR_CONTEXT_R11,
      FR_CONTEXT_R0, FR_CONTEXT_R1, FR_CONTEXT_R2, FR_CONTEXT_R3, FR_CONTEXT_R12, FR_CONTEXT_LR, FR_CONTEXT_PC, FR_CONTEXT_XPSR]"

fun initial_word :: "u32 \<Rightarrow> u32 \<Rightarrow> u32 \<Rightarrow> fr_context \<Rightarrow> u32" where
  "initial_word entry_address arg return_address FR_CONTEXT_R4 = FR_CORTEX_M4_INITIAL_R4"
| "initial_word entry_address arg return_address FR_CONTEXT_R5 = FR_CORTEX_M4_INITIAL_R5"
| "initial_word entry_address arg return_address FR_CONTEXT_R6 = FR_CORTEX_M4_INITIAL_R6"
| "initial_word entry_address arg return_address FR_CONTEXT_R7 = FR_CORTEX_M4_INITIAL_R7"
| "initial_word entry_address arg return_address FR_CONTEXT_R8 = FR_CORTEX_M4_INITIAL_R8"
| "initial_word entry_address arg return_address FR_CONTEXT_R9 = FR_CORTEX_M4_INITIAL_R9"
| "initial_word entry_address arg return_address FR_CONTEXT_R10 = FR_CORTEX_M4_INITIAL_R10"
| "initial_word entry_address arg return_address FR_CONTEXT_R11 = FR_CORTEX_M4_INITIAL_R11"
| "initial_word entry_address arg return_address FR_CONTEXT_R0 = arg"
| "initial_word entry_address arg return_address FR_CONTEXT_R1 = FR_CORTEX_M4_INITIAL_R1"
| "initial_word entry_address arg return_address FR_CONTEXT_R2 = FR_CORTEX_M4_INITIAL_R2"
| "initial_word entry_address arg return_address FR_CONTEXT_R3 = FR_CORTEX_M4_INITIAL_R3"
| "initial_word entry_address arg return_address FR_CONTEXT_R12 = FR_CORTEX_M4_INITIAL_R12"
| "initial_word entry_address arg return_address FR_CONTEXT_LR = return_address"
| "initial_word entry_address arg return_address FR_CONTEXT_PC = entry_address"
| "initial_word entry_address arg return_address FR_CONTEXT_XPSR = FR_CORTEX_M4_INITIAL_XPSR"

definition initial_context :: "u32 \<Rightarrow> u32 \<Rightarrow> u32 \<Rightarrow> u32 list" where
  "initial_context entry_address arg return_address = map (initial_word entry_address arg return_address) context_words"

definition fr_port_task_stack_init :: "u32 \<Rightarrow> u32 \<Rightarrow> u32 \<Rightarrow> kernel \<Rightarrow> u32 \<times> kernel" where
  "fr_port_task_stack_init top_of_stack ent arg s =
     (let sp = top_of_stack - 4 * FR_CORTEX_M4_INITIAL_CONTEXT_WORDS;
          entry_address = ent AND NOT 1;
          return_address = lm_return_trap (links s) OR 1
      in (sp, s\<lparr>ram := store_words (ram s) sp (initial_context entry_address arg return_address)\<rparr>))"


section \<open>Stacks\<close>

definition FR_TASK_STACK_FILL_PATTERN :: u32 where
  "FR_TASK_STACK_FILL_PATTERN = 0xA5A5A5A5"

definition FR_TASK_STACK_GUARD_WORDS :: u32 where
  [simp]: "FR_TASK_STACK_GUARD_WORDS = 8"

definition fr_task_stack_is_valid :: "fr_task_config \<Rightarrow> bool" where
  "fr_task_stack_is_valid config =
     (if cfg_stack_memory config = 0 then False
      else if cfg_stack_size_words config < FR_CONFIG_MIN_TASK_STACK_WORDS then False
      else if cfg_stack_size_words config AND 1 \<noteq> 0 then False
      else let base = cfg_stack_memory config
           in if base AND 7 \<noteq> 0 then False
              else if cfg_stack_size_words config > UINT32_MAX div 4 then False
              else let stack_size_bytes = cfg_stack_size_words config * 4
                   in if base > UINT32_MAX - stack_size_bytes then False
                      else (base + stack_size_bytes) AND 7 = 0)"

definition fr_task_calculate_stack_top :: "fr_task_config \<Rightarrow> u32" where
  "fr_task_calculate_stack_top config =
     (let base = cfg_stack_memory config; stack_size_bytes = cfg_stack_size_words config * 4
      in base + stack_size_bytes)"

definition fr_task_stack_fill :: "u32 \<Rightarrow> u32 \<Rightarrow> kernel \<Rightarrow> kernel" where
  "fr_task_stack_fill base size_words s =
     s\<lparr>ram := fold (\<lambda>i m. store32 m (word_at base i) FR_TASK_STACK_FILL_PATTERN)
                [0..<unat size_words] (ram s)\<rparr>"

text \<open>The scan loop, with the number of words still to inspect as its bound.\<close>

fun free_words_loop :: "(u32 \<Rightarrow> u8) \<Rightarrow> u32 \<Rightarrow> nat \<Rightarrow> nat \<Rightarrow> nat" where
  "free_words_loop m base free_words 0 = free_words"
| "free_words_loop m base free_words (Suc left) =
     (if load32 m (word_at base free_words) = FR_TASK_STACK_FILL_PATTERN
      then free_words_loop m base (Suc free_words) left else free_words)"

definition fr_task_stack_minimum_free_words :: "u32 \<Rightarrow> u32 \<Rightarrow> kernel \<Rightarrow> u32" where
  "fr_task_stack_minimum_free_words base size_words s =
     of_nat (free_words_loop (ram s) base 0 (unat size_words))"

definition fr_task_stack_guard_intact :: "u32 \<Rightarrow> kernel \<Rightarrow> bool" where
  "fr_task_stack_guard_intact base s =
     list_all (\<lambda>i. load32 (ram s) (word_at base i) = FR_TASK_STACK_FILL_PATTERN)
       [0..<unat FR_TASK_STACK_GUARD_WORDS]"


section \<open>Creation\<close>

text \<open>What a call has done to the caller's variable \<open>*out_task\<close>: nothing, or stored null or a task in it.\<close>

datatype handle_write = Untouched | Wrote "task_ptr option"

definition fr_task_create_reserve :: "fr_task_config \<Rightarrow> kernel \<Rightarrow> nat option \<times> kernel" where
  "fr_task_create_reserve config s =
     (let (reserve_state, s) = fr_critical_enter s
      in if g_fr_task_count s \<ge> FR_CONFIG_MAX_TASKS
         then (None, fr_critical_exit reserve_state s)
         else let index = g_fr_task_count s;
                  s = upd_task (Pool (unat index)) (\<lambda>t. t
                    \<lparr>saved_sp := 0, stack_base := cfg_stack_memory config,
                     stack_top := fr_task_calculate_stack_top config,
                     entry := cfg_entry config, argument := cfg_argument config,
                     stack_size_words := cfg_stack_size_words config, task_id := index + 1,
                     priority := cfg_priority config, base_priority := cfg_priority config,
                     task_state := STATE_CREATED, wait_flags_mask := 0, wait_flags_result := 0,
                     wait_flags_all := False, wait_flags_clear_on_exit := False\<rparr>) s;
                  s = s\<lparr>g_fr_task_count := index + 1\<rparr>
              in (Some (unat index), fr_critical_exit reserve_state s))"

definition fr_task_create_publish :: "task_ptr \<Rightarrow> u32 \<Rightarrow> kernel \<Rightarrow> (fr_task_status \<times> handle_write) outcome" where
  "fr_task_create_publish task initial_sp s =
     (let (publish_state, s) = fr_critical_enter s;
          s = upd_task task (\<lambda>t. t
            \<lparr>saved_sp := initial_sp, wait_deadline := 0, wait_object := 0, wait_reason := WAIT_NONE,
             wait_result := RESULT_PENDING, wait_has_deadline := False, task_state := STATE_READY\<rparr>) s
      in FR_ASSERT (saved_sp (tcb s task) \<noteq> 0) ''task->saved_sp != NULL'' ''kernel/task.c'' 205 s (\<lambda>s.
         FR_ASSERT (task_state (tcb s task) = STATE_READY)
           ''task->state == FR_TASK_STATE_READY'' ''kernel/task.c'' 206 s (\<lambda>s.
         FR_ASSERT (wait_reason (tcb s task) = WAIT_NONE)
           ''task->wait_reason == FR_WAIT_REASON_NONE'' ''kernel/task.c'' 207 s (\<lambda>s.
         FR_ASSERT (wait_object (tcb s task) = 0)
           ''task->wait_object == NULL'' ''kernel/task.c'' 208 s (\<lambda>s.
         let s = fr_trace_record_locked EVENT_TASK_CREATE (task_id (tcb s task))
                   (ucast (base_priority (tcb s task))) (stack_size_words (tcb s task)) s
         in Ret (TASK_OK, Wrote (Some task)) (fr_critical_exit publish_state s))))))"

text \<open>The unlocked part between the two sections.\<close>

definition fr_task_create_prepare ::
    "task_ptr \<Rightarrow> kernel \<Rightarrow> (u32 \<Rightarrow> kernel \<Rightarrow> 'a outcome) \<Rightarrow> 'a outcome" where
  "fr_task_create_prepare task s k =
     (let s = fr_task_stack_fill (stack_base (tcb s task)) (stack_size_words (tcb s task)) s;
          (initial_sp, s) = fr_port_task_stack_init (stack_top (tcb s task)) (entry (tcb s task))
                              (argument (tcb s task)) s
      in FR_ASSERT (initial_sp \<noteq> 0) ''initial_sp != NULL'' ''kernel/task.c'' 189 s (\<lambda>s.
         FR_ASSERT (initial_sp \<ge> stack_base (tcb s task))
           ''initial_sp_address >= stack_base_address'' ''kernel/task.c'' 190 s (\<lambda>s.
         FR_ASSERT (initial_sp \<le> stack_top (tcb s task))
           ''initial_sp_address <= stack_top_address'' ''kernel/task.c'' 191 s (\<lambda>s.
         FR_ASSERT (initial_sp AND 7 = 0)
           ''(initial_sp_address & 0x7u) == 0u'' ''kernel/task.c'' 192 s (k initial_sp)))))"

text \<open>
  \<open>out_valid\<close> says whether the caller passed a non-null \<open>out_task\<close>, and \<open>None\<close> is a null
  configuration pointer, with which the function returns before it writes \<open>*out_task\<close>.
\<close>

definition fr_task_create ::
    "bool \<Rightarrow> fr_task_config option \<Rightarrow> kernel \<Rightarrow> (fr_task_status \<times> handle_write) outcome" where
  "fr_task_create out_valid config_ptr s =
     (case (out_valid, config_ptr) of
        (True, Some config) \<Rightarrow>
          if cfg_entry config = 0 then Ret (TASK_ERROR_INVALID_ARGUMENT, Wrote None) s
          else if cfg_priority config > FR_CONFIG_MAX_TASK_PRIORITY
          then Ret (TASK_ERROR_INVALID_PRIORITY, Wrote None) s
          else if \<not> fr_task_stack_is_valid config then Ret (TASK_ERROR_INVALID_STACK, Wrote None) s
          else (case fr_task_create_reserve config s of
                  (None, s) \<Rightarrow> Ret (TASK_ERROR_NO_CAPACITY, Wrote None) s
                | (Some index, s) \<Rightarrow>
                    fr_task_create_prepare (Pool index) s (fr_task_create_publish (Pool index)))
      | _ \<Rightarrow> Ret (TASK_ERROR_INVALID_ARGUMENT, Untouched) s)"


section \<open>Registry and inspection\<close>

definition fr_task_count :: "kernel \<Rightarrow> u32" where
  "fr_task_count s = g_fr_task_count s"

definition fr_task_internal_count :: "kernel \<Rightarrow> u32" where
  "fr_task_internal_count s = g_fr_task_count s"

definition fr_task_internal_at :: "nat \<Rightarrow> kernel \<Rightarrow> task_ptr option" where
  "fr_task_internal_at index s =
     (if index \<ge> unat (g_fr_task_count s) then None else Some (Pool index))"

text \<open>\<open>sizeof(fr_task_t)\<close> with the 32-bit ARM layout.\<close>

definition sizeof_fr_task :: u32 where
  [simp]: "sizeof_fr_task = 56"

definition fr_task_handle_is_valid :: "u32 \<Rightarrow> kernel \<Rightarrow> bool" where
  "fr_task_handle_is_valid task s =
     (if task = 0 then False
      else let pool_begin = lm_task_pool (links s);
               pool_end = pool_begin + FR_CONFIG_MAX_TASKS * sizeof_fr_task
           in if task < pool_begin \<or> task \<ge> pool_end then False
              else let offset = task - pool_begin
                   in if offset mod sizeof_fr_task \<noteq> 0 then False
                      else let index = offset div sizeof_fr_task
                           in if index \<ge> g_fr_task_count s then False
                              else task_id (tcb s (Pool (unat index))) \<noteq> 0)"

text \<open>The pool slot that a valid handle designates.\<close>

definition task_of_handle :: "u32 \<Rightarrow> kernel \<Rightarrow> task_ptr" where
  "task_of_handle task s = Pool (unat ((task - lm_task_pool (links s)) div sizeof_fr_task))"

record fr_task_info =
  ti_id :: u32
  ti_state :: fr_task_state
  ti_priority :: u8
  ti_base_priority :: u8
  ti_stack_size_words :: u32
  ti_stack_base :: u32
  ti_stack_top :: u32
  ti_saved_sp :: u32

record fr_task_stack_info =
  si_size_words :: u32
  si_guard_words :: u32
  si_usable_words :: u32
  si_minimum_free_words :: u32
  si_minimum_usable_free_words :: u32
  si_peak_used_words :: u32
  si_stack_base :: u32
  si_stack_top :: u32
  si_saved_sp :: u32
  si_guard_intact :: bool
  si_saved_sp_in_bounds :: bool
  si_saved_sp_aligned :: bool
  si_overflow_detected :: bool

text \<open>\<open>None\<close> is the \<open>false\<close> result, for an invalid handle or a null \<open>out_info\<close>.\<close>

definition fr_task_get_info :: "u32 \<Rightarrow> bool \<Rightarrow> kernel \<Rightarrow> fr_task_info option \<times> kernel" where
  "fr_task_get_info task out_valid s =
     (if \<not> out_valid then (None, s)
      else let (critical_state, s) = fr_critical_enter s
      in if \<not> fr_task_handle_is_valid task s then (None, fr_critical_exit critical_state s)
         else let t = tcb s (task_of_handle task s);
                  out_info = \<lparr>ti_id = task_id t, ti_state = task_state t, ti_priority = priority t,
                    ti_base_priority = base_priority t, ti_stack_size_words = stack_size_words t,
                    ti_stack_base = stack_base t, ti_stack_top = stack_top t,
                    ti_saved_sp = saved_sp t\<rparr>
              in (Some out_info, fr_critical_exit critical_state s))"

definition fr_task_stack_get_info :: "u32 \<Rightarrow> bool \<Rightarrow> kernel \<Rightarrow> fr_task_stack_info option \<times> kernel" where
  "fr_task_stack_get_info task out_valid s =
     (if \<not> out_valid then (None, s)
      else let (critical_state, s) = fr_critical_enter s
      in if \<not> fr_task_handle_is_valid task s then (None, fr_critical_exit critical_state s)
         else let t = tcb s (task_of_handle task s);
                  size_words = stack_size_words t;
                  minimum_free_words = fr_task_stack_minimum_free_words (stack_base t) size_words s;
                  guard_intact = fr_task_stack_guard_intact (stack_base t) s;
                  in_bounds = (saved_sp t \<ge> stack_base t \<and> saved_sp t \<le> stack_top t);
                  aligned = (saved_sp t AND 7 = 0);
                  out_info = \<lparr>si_size_words = size_words, si_guard_words = FR_TASK_STACK_GUARD_WORDS,
                    si_usable_words = size_words - FR_TASK_STACK_GUARD_WORDS,
                    si_minimum_free_words = minimum_free_words,
                    si_minimum_usable_free_words =
                      (if minimum_free_words > FR_TASK_STACK_GUARD_WORDS
                       then minimum_free_words - FR_TASK_STACK_GUARD_WORDS else 0),
                    si_peak_used_words = size_words - minimum_free_words,
                    si_stack_base = stack_base t, si_stack_top = stack_top t,
                    si_saved_sp = saved_sp t, si_guard_intact = guard_intact,
                    si_saved_sp_in_bounds = in_bounds, si_saved_sp_aligned = aligned,
                    si_overflow_detected = (\<not> guard_intact \<or> \<not> in_bounds)\<rparr>
              in (Some out_info, fr_critical_exit critical_state s))"



section \<open>Stack geometry\<close>

lemma UINT32_MAX_div_4: "UINT32_MAX div 4 = 0x3FFFFFFF"
  by (simp add: word_unat_eq_iff unat_div)

lemma unat_mult4: "unat (n :: u32) \<le> 1073741823 \<Longrightarrow> unat (n * 4) = 4 * unat n"
  by (simp add: unat_word_ariths)

lemma stack_is_valid_iff:
  "fr_task_stack_is_valid c \<longleftrightarrow>
     cfg_stack_memory c \<noteq> 0 \<and> 32 \<le> unat (cfg_stack_size_words c) \<and>
     even (unat (cfg_stack_size_words c)) \<and> 8 dvd unat (cfg_stack_memory c) \<and>
     unat (cfg_stack_memory c) + 4 * unat (cfg_stack_size_words c) < 4294967296"
proof -
  let ?b = "cfg_stack_memory c" and ?n = "cfg_stack_size_words c"
  have big: "unat ?n \<le> 1073741823 \<longleftrightarrow> \<not> ?n > 0x3FFFFFFF"
    by (simp add: word_less_nat_alt not_less)
  show ?thesis
  proof (cases "unat ?n \<le> 1073741823")
    case False
    then show ?thesis
      using big by (auto simp: fr_task_stack_is_valid_def UINT32_MAX_div_4 Let_def)
  next
    case True
    then have n4: "unat (?n * 4) = 4 * unat ?n" by (rule unat_mult4)
    have room: "?b > UINT32_MAX - ?n * 4 \<longleftrightarrow> \<not> unat ?b + 4 * unat ?n < 4294967296"
      using True n4 by (simp add: word_less_nat_alt unat_sub word_le_nat_alt) arith
    have top: "unat (?b + ?n * 4) = unat ?b + 4 * unat ?n"
      if "unat ?b + 4 * unat ?n < 4294967296"
      using that n4 by (simp add: unat_word_ariths)
    have dv: "8 dvd unat ?b + 4 * unat ?n \<longleftrightarrow> 8 dvd unat ?b" if "even (unat ?n)"
      using that by (auto elim!: evenE simp: dvd_add_left_iff)
    show ?thesis
      using True big room top dv
      by (auto simp: fr_task_stack_is_valid_def UINT32_MAX_div_4 Let_def and1_iff and7_iff
          word_less_nat_alt)
  qed
qed

lemma stack_top_unat:
  assumes "fr_task_stack_is_valid c"
  shows "unat (fr_task_calculate_stack_top c) =
           unat (cfg_stack_memory c) + 4 * unat (cfg_stack_size_words c)"
proof -
  have "unat (cfg_stack_size_words c * 4) = 4 * unat (cfg_stack_size_words c)"
    using assms by (intro unat_mult4) (simp add: stack_is_valid_iff)
  then show ?thesis
    using assms by (simp add: fr_task_calculate_stack_top_def stack_is_valid_iff unat_word_ariths)
qed

text \<open>The stack pointer of a new task: sixteen words below the top.\<close>

lemma initial_sp_facts:
  assumes "fr_task_stack_is_valid c"
  defines "sp \<equiv> fr_task_calculate_stack_top c - 64"
  shows "sp = word_at (cfg_stack_memory c) (unat (cfg_stack_size_words c) - 16)"
    and "sp \<noteq> 0" "cfg_stack_memory c \<le> sp" "sp \<le> fr_task_calculate_stack_top c" "sp AND 7 = 0"
proof -
  let ?b = "cfg_stack_memory c" and ?n = "unat (cfg_stack_size_words c)"
  have v: "32 \<le> ?n" "even ?n" "8 dvd unat ?b" "unat ?b + 4 * ?n < 4294967296" "?b \<noteq> 0"
    using assms(1) by (auto simp: stack_is_valid_iff)
  have top: "unat (fr_task_calculate_stack_top c) = unat ?b + 4 * ?n"
    using assms(1) by (rule stack_top_unat)
  have sp: "unat sp = unat ?b + 4 * ?n - 64"
    using top v by (simp add: sp_def unat_sub word_le_nat_alt)
  define m where "m = (of_nat (?n - 16) :: u32)"
  have "cfg_stack_size_words c = m + 16"
    using v(1) by (simp add: m_def of_nat_diff)
  then have "sp = ?b + 4 * m"
    by (simp add: sp_def fr_task_calculate_stack_top_def distrib_right)
  then show "sp = word_at ?b (?n - 16)"
    by (simp add: word_at_def m_def)
  have "unat sp \<noteq> 0" using sp v by simp
  then show "sp \<noteq> 0" by auto
  show "?b \<le> sp" using sp v by (simp add: word_le_nat_alt)
  show "sp \<le> fr_task_calculate_stack_top c" using sp top by (simp add: word_le_nat_alt)
  show "sp AND 7 = 0"
    unfolding and7_iff sp using v by (auto elim!: evenE dvdE intro!: dvd_diff_nat)
qed


section \<open>Stack contents\<close>

lemma fill_words:
  assumes "n \<le> 1073741824" and "j < 1073741824"
  shows "load32 (fold (\<lambda>i m. store32 m (word_at b i) v) [0..<n] m) (word_at b j) =
           (if j < n then v else load32 m (word_at b j))"
  using assms(1)
proof (induction n)
  case 0
  then show ?case by simp
next
  case (Suc n)
  then show ?case using assms(2) by (auto simp: load32_store32_word)
qed

lemma free_words_loop_spec:
  "free_words_loop m b k n = k + length (takeWhile (\<lambda>i. load32 m (word_at b i) = FR_TASK_STACK_FILL_PATTERN) [k..<k + n])"
proof (induction n arbitrary: k)
  case 0
  then show ?case by simp
next
  case (Suc n)
  have "[k..<k + Suc n] = k # [Suc k..<Suc k + n]" by (simp add: upt_conv_Cons)
  then show ?case using Suc.IH [of "Suc k"] by simp
qed

lemma free_words_loop_exact:
  assumes "f \<le> n" and "\<And>i. i < f \<Longrightarrow> load32 m (word_at b i) = FR_TASK_STACK_FILL_PATTERN"
    and "f < n \<Longrightarrow> load32 m (word_at b f) \<noteq> FR_TASK_STACK_FILL_PATTERN"
  shows "free_words_loop m b 0 n = f"
proof -
  let ?P = "\<lambda>i. load32 m (word_at b i) = FR_TASK_STACK_FILL_PATTERN"
  have split: "[0..<n] = [0..<f] @ [f..<n]" using assms(1) upt_add_eq_append [of 0 f "n - f"] by simp
  have "takeWhile ?P [f..<n] = []" using assms(3) by (cases "f < n") (simp_all add: upt_conv_Cons)
  moreover have "takeWhile ?P ([0..<f] @ [f..<n]) = [0..<f] @ takeWhile ?P [f..<n]"
    using assms(2) by (intro takeWhile_append2) auto
  ultimately show ?thesis by (simp add: free_words_loop_spec split)
qed



section \<open>The effect of a successful creation\<close>

definition created_task :: "fr_task_config \<Rightarrow> u32 \<Rightarrow> fr_task" where
  "created_task c index =
     \<lparr>saved_sp = fr_task_calculate_stack_top c - 64, stack_base = cfg_stack_memory c,
      stack_top = fr_task_calculate_stack_top c, entry = cfg_entry c, argument = cfg_argument c,
      stack_size_words = cfg_stack_size_words c, task_id = index + 1, priority = cfg_priority c,
      base_priority = cfg_priority c, task_state = STATE_READY, wait_deadline = 0,
      wait_object = 0, wait_reason = WAIT_NONE, wait_result = RESULT_PENDING,
      wait_has_deadline = False, wait_flags_mask = 0, wait_flags_result = 0,
      wait_flags_all = False, wait_flags_clear_on_exit = False\<rparr>"

definition created_ram :: "fr_task_config \<Rightarrow> u32 \<Rightarrow> (u32 \<Rightarrow> u8) \<Rightarrow> (u32 \<Rightarrow> u8)" where
  "created_ram c trap m =
     store_words
       (fold (\<lambda>i m. store32 m (word_at (cfg_stack_memory c) i) FR_TASK_STACK_FILL_PATTERN)
          [0..<unat (cfg_stack_size_words c)] m)
       (fr_task_calculate_stack_top c - 64)
       (initial_context (cfg_entry c AND NOT 1) (cfg_argument c) (trap OR 1))"

definition config_ok :: "fr_task_config \<Rightarrow> bool" where
  "config_ok c \<longleftrightarrow> cfg_entry c \<noteq> 0 \<and> cfg_priority c \<le> 31 \<and> fr_task_stack_is_valid c"

lemma create_reserve_ok:
  assumes "g_fr_task_count s < 8"
  shows "\<exists>s1. fr_task_create_reserve c s = (Some (unat (g_fr_task_count s)), s1) \<and>
    tcb s1 = (tcb s)(Pool (unat (g_fr_task_count s)) :=
      (created_task c (g_fr_task_count s))
        \<lparr>saved_sp := 0, task_state := STATE_CREATED,
         wait_deadline := wait_deadline (tcb s (Pool (unat (g_fr_task_count s)))),
         wait_object := wait_object (tcb s (Pool (unat (g_fr_task_count s)))),
         wait_reason := wait_reason (tcb s (Pool (unat (g_fr_task_count s)))),
         wait_result := wait_result (tcb s (Pool (unat (g_fr_task_count s)))),
         wait_has_deadline := wait_has_deadline (tcb s (Pool (unat (g_fr_task_count s))))\<rparr>) \<and>
    g_fr_task_count s1 = g_fr_task_count s + 1 \<and>
    g_fr_scheduler_current_task s1 = g_fr_scheduler_current_task s \<and>
    g_fr_scheduler_running s1 = g_fr_scheduler_running s \<and>
    g_fr_kernel_tick_count s1 = g_fr_kernel_tick_count s \<and>
    g_fr_trace s1 = g_fr_trace s \<and> cpu s1 = cpu s \<and>
    pendsv_pending s1 = pendsv_pending s \<and> ram s1 = ram s \<and> objects s1 = objects s \<and>
    links s1 = links s"
  using assms
  by (simp add: fr_task_create_reserve_def split_beta Let_def not_le upd_task_def fr_critical_exit_def
      fr_critical_enter_def msr_basepri_max_def created_task_def fun_eq_iff)

text \<open>
  What a successful creation does to the kernel state, as one equation per component. The trace
  gains one event; every component not listed is untouched.
\<close>

definition created_from :: "fr_task_config \<Rightarrow> kernel \<Rightarrow> kernel \<Rightarrow> bool" where
  "created_from c s s' \<longleftrightarrow>
     tcb s' = (tcb s)(Pool (unat (g_fr_task_count s)) := created_task c (g_fr_task_count s)) \<and>
     g_fr_task_count s' = g_fr_task_count s + 1 \<and>
     g_fr_scheduler_current_task s' = g_fr_scheduler_current_task s \<and>
     g_fr_scheduler_running s' = g_fr_scheduler_running s \<and>
     g_fr_kernel_tick_count s' = g_fr_kernel_tick_count s \<and>
     g_fr_trace s' = trace_write (fr_tick_now s) EVENT_TASK_CREATE (g_fr_task_count s + 1)
       (ucast (cfg_priority c)) (cfg_stack_size_words c) (g_fr_trace s) \<and>
     cpu s' = cpu s \<and> pendsv_pending s' = pendsv_pending s \<and>
     ram s' = created_ram c (lm_return_trap (links s)) (ram s) \<and>
     objects s' = objects s \<and> links s' = links s"

lemma create_ok:
  assumes c: "config_ok c" and room: "g_fr_task_count s < 8"
  shows "\<exists>s'. fr_task_create True (Some c) s =
            Ret (TASK_OK, Wrote (Some (Pool (unat (g_fr_task_count s))))) s' \<and> created_from c s s'"
proof -
  let ?n = "unat (g_fr_task_count s)"
  have v: "fr_task_stack_is_valid c" using c by (simp add: config_ok_def)
  note sp = initial_sp_facts(2-5) [OF v]
  obtain s1 where r: "fr_task_create_reserve c s = (Some ?n, s1)"
    and t1: "tcb s1 (Pool ?n) = (created_task c (g_fr_task_count s))
        \<lparr>saved_sp := 0, task_state := STATE_CREATED, wait_deadline := wait_deadline (tcb s (Pool ?n)),
         wait_object := wait_object (tcb s (Pool ?n)), wait_reason := wait_reason (tcb s (Pool ?n)),
         wait_result := wait_result (tcb s (Pool ?n)),
         wait_has_deadline := wait_has_deadline (tcb s (Pool ?n))\<rparr>"
    and o1: "\<And>q. q \<noteq> Pool ?n \<Longrightarrow> tcb s1 q = tcb s q"
    and f1: "g_fr_task_count s1 = g_fr_task_count s + 1"
      "g_fr_scheduler_current_task s1 = g_fr_scheduler_current_task s"
      "g_fr_scheduler_running s1 = g_fr_scheduler_running s"
      "g_fr_kernel_tick_count s1 = g_fr_kernel_tick_count s"
      "g_fr_trace s1 = g_fr_trace s" "cpu s1 = cpu s" "pendsv_pending s1 = pendsv_pending s"
      "ram s1 = ram s" "objects s1 = objects s" "links s1 = links s"
    using create_reserve_ok [OF room, of c] by auto
  define s2 where "s2 = s1\<lparr>ram := created_ram c (lm_return_trap (links s)) (ram s)\<rparr>"
  have prep: "fr_task_create_prepare (Pool ?n) s1 k = k (fr_task_calculate_stack_top c - 64) s2"
    for k :: "u32 \<Rightarrow> kernel \<Rightarrow> (fr_task_status \<times> handle_write) outcome"
    using sp
    by (simp add: fr_task_create_prepare_def fr_task_stack_fill_def fr_port_task_stack_init_def
        Let_def t1 created_task_def f1 s2_def created_ram_def)
  have "\<exists>s'. fr_task_create_publish (Pool ?n) (fr_task_calculate_stack_top c - 64) s2 =
          Ret (TASK_OK, Wrote (Some (Pool ?n))) s' \<and> created_from c s s'"
    using sp
    by (simp add: fr_task_create_publish_def split_beta Let_def created_from_def s2_def f1 o1
        upd_task_def t1 created_task_def fun_eq_iff fr_trace_record_locked_def fr_critical_exit_def
        fr_critical_enter_def msr_basepri_max_def fr_tick_now_def)
  then show ?thesis
    using c v by (simp add: fr_task_create_def config_ok_def r prep not_less)
qed

lemma created_ram_words:
  assumes "fr_task_stack_is_valid c" and "j < unat (cfg_stack_size_words c)"
  shows "load32 (created_ram c trap m) (word_at (cfg_stack_memory c) j) =
           (if j < unat (cfg_stack_size_words c) - 16 then FR_TASK_STACK_FILL_PATTERN
            else initial_context (cfg_entry c AND NOT 1) (cfg_argument c) (trap OR 1)
                   ! (j - (unat (cfg_stack_size_words c) - 16)))"
proof -
  let ?n = "unat (cfg_stack_size_words c)"
  let ?m = "fold (\<lambda>i m. store32 m (word_at (cfg_stack_memory c) i) FR_TASK_STACK_FILL_PATTERN) [0..<?n] m"
  have n: "32 \<le> ?n" "?n < 1073741824" using assms(1) by (auto simp: stack_is_valid_iff)
  have len: "length (initial_context e a r) = 16" for e a r by (simp add: initial_context_def context_words_def)
  have "load32 (created_ram c trap m) (word_at (cfg_stack_memory c) j) =
      (if ?n - 16 \<le> j \<and> j < ?n - 16 + 16
       then initial_context (cfg_entry c AND NOT 1) (cfg_argument c) (trap OR 1) ! (j - (?n - 16))
       else load32 ?m (word_at (cfg_stack_memory c) j))"
    unfolding created_ram_def initial_sp_facts(1) [OF assms(1)]
    using n assms(2) by (subst load32_store_words) (simp_all add: len)
  moreover have "load32 ?m (word_at (cfg_stack_memory c) j) = FR_TASK_STACK_FILL_PATTERN"
    using n assms(2) by (subst fill_words) auto
  ultimately show ?thesis using n assms(2) by auto
qed

lemma created_free_words:
  assumes "fr_task_stack_is_valid c"
  shows "free_words_loop (created_ram c trap m) (cfg_stack_memory c) 0 (unat (cfg_stack_size_words c)) =
           unat (cfg_stack_size_words c) - 16"
proof (rule free_words_loop_exact)
  have n: "32 \<le> unat (cfg_stack_size_words c)" using assms by (simp add: stack_is_valid_iff)
  show "unat (cfg_stack_size_words c) - 16 \<le> unat (cfg_stack_size_words c)" by simp
  show "load32 (created_ram c trap m) (word_at (cfg_stack_memory c) i) = FR_TASK_STACK_FILL_PATTERN"
    if "i < unat (cfg_stack_size_words c) - 16" for i
    using that by (subst created_ram_words [OF assms]) auto
  show "load32 (created_ram c trap m) (word_at (cfg_stack_memory c) (unat (cfg_stack_size_words c) - 16))
      \<noteq> FR_TASK_STACK_FILL_PATTERN"
    using n by (subst created_ram_words [OF assms])
      (simp_all add: initial_context_def context_words_def FR_TASK_STACK_FILL_PATTERN_def)
qed

lemma inspect_in_critical [simp]:
  "fr_task_handle_is_valid h (snd (fr_critical_enter s)) = fr_task_handle_is_valid h s"
  "task_of_handle h (snd (fr_critical_enter s)) = task_of_handle h s"
  "fr_task_stack_minimum_free_words b n (snd (fr_critical_enter s)) = fr_task_stack_minimum_free_words b n s"
  "fr_task_stack_guard_intact b (snd (fr_critical_enter s)) = fr_task_stack_guard_intact b s"
  by (simp_all add: fr_task_handle_is_valid_def task_of_handle_def
      fr_task_stack_minimum_free_words_def fr_task_stack_guard_intact_def)

text \<open>The linker places the pool away from address 0 and from the end of the address space.\<close>

definition pool_placed :: "kernel \<Rightarrow> bool" where
  "pool_placed s \<longleftrightarrow> lm_task_pool (links s) \<noteq> 0 \<and> unat (lm_task_pool (links s)) + 448 < 4294967296"

lemma handle_offset:
  assumes "pool_placed s" and "i < 8"
  shows "unat (lm_task_pool (links s) + 56 * of_nat i) = unat (lm_task_pool (links s)) + 56 * i"
proof -
  have "unat (56 * of_nat i :: u32) = 56 * i"
    using assms(2) unat_of_nat32 [of "56 * i"] by simp
  then show ?thesis using assms by (simp add: unat_word_ariths pool_placed_def)
qed

lemma handle_valid_iff:
  assumes pl: "pool_placed s" and cnt: "g_fr_task_count s \<le> 8"
    and ids: "\<And>i. i < unat (g_fr_task_count s) \<Longrightarrow> task_id (tcb s (Pool i)) \<noteq> 0"
  shows "fr_task_handle_is_valid h s \<longleftrightarrow>
     (\<exists>i < unat (g_fr_task_count s). h = lm_task_pool (links s) + 56 * of_nat i)"
proof
  let ?p = "lm_task_pool (links s)"
  assume "fr_task_handle_is_valid h s"
  then have h: "?p \<le> h" "(h - ?p) mod 56 = 0" "(h - ?p) div 56 < g_fr_task_count s"
    by (auto simp: fr_task_handle_is_valid_def Let_def not_le not_less split: if_splits)
  let ?i = "unat ((h - ?p) div 56)"
  have "(h - ?p) div 56 * 56 + (h - ?p) mod 56 = h - ?p" by (rule div_mult_mod_eq)
  then have "h = ?p + 56 * of_nat ?i" using h(2) by (simp add: algebra_simps)
  moreover have "?i < unat (g_fr_task_count s)" using h(3) by (simp only: word_less_nat_alt)
  ultimately show "\<exists>i < unat (g_fr_task_count s). h = ?p + 56 * of_nat i" by blast
next
  let ?p = "lm_task_pool (links s)"
  assume "\<exists>i < unat (g_fr_task_count s). h = ?p + 56 * of_nat i"
  then obtain i where i: "i < unat (g_fr_task_count s)" and h: "h = ?p + 56 * of_nat i" by blast
  have i8: "i < 8" using i cnt by (simp add: word_le_nat_alt)
  note uh = handle_offset [OF pl i8]
  have e: "unat (?p + 448) = unat ?p + 448" using pl by (simp add: pool_placed_def unat_word_ariths)
  have off: "unat (56 * of_nat i :: u32) = 56 * i" using i8 unat_of_nat32 [of "56 * i"] by simp
  have d: "unat ((56 * of_nat i :: u32) div 56) = i" by (simp add: unat_div off)
  have m: "(56 * of_nat i :: u32) mod 56 = 0" by (simp add: word_unat_eq_iff unat_mod off)
  have "h \<noteq> 0" using uh pl h by (auto simp: pool_placed_def simp flip: unat_eq_zero)
  moreover have "?p \<le> h" "h < ?p + 448" using uh e i8 h by (simp_all add: word_le_nat_alt word_less_nat_alt)
  moreover have "(56 * of_nat i :: u32) div 56 < g_fr_task_count s"
    using i d by (simp only: word_less_nat_alt)
  ultimately show "fr_task_handle_is_valid h s"
    using d m ids [OF i] by (simp add: fr_task_handle_is_valid_def Let_def h not_le not_less)
qed

lemma task_of_handle_slot:
  assumes "i < 8"
  shows "task_of_handle (lm_task_pool (links s) + 56 * of_nat i) s = Pool i"
proof -
  have off: "unat (56 * of_nat i :: u32) = 56 * i" using assms unat_of_nat32 [of "56 * i"] by simp
  show ?thesis by (simp add: task_of_handle_def unat_div off)
qed


section \<open>Properties\<close>

text \<open>
  The stack check accepts exactly the usable stacks: a non-null 8-byte aligned base, an even
  number of at least 32 words, and an extent that does not run past the end of the address space.
\<close>

lemma stack_check_exact:
  "fr_task_stack_is_valid c \<longleftrightarrow>
     cfg_stack_memory c \<noteq> 0 \<and> 8 dvd unat (cfg_stack_memory c) \<and>
     32 \<le> unat (cfg_stack_size_words c) \<and> even (unat (cfg_stack_size_words c)) \<and>
     unat (cfg_stack_memory c) + 4 * unat (cfg_stack_size_words c) < 2 ^ 32"
  using stack_is_valid_iff [of c] by auto

text \<open>
  C34. Creating a task with a valid configuration and a free slot succeeds without tripping an
  assertion: it returns the next pool slot, whose control block is READY with id \<open>count + 1\<close>, both
  priorities as configured, no wait in progress and a stack pointer sixteen words below the stack
  top, and it changes nothing else than the registry count, the trace and that task's stack.
\<close>

theorem task_create_registers_ready_task:
  assumes "config_ok c" and "g_fr_task_count s < FR_CONFIG_MAX_TASKS"
  shows "\<exists>s'. fr_task_create True (Some c) s =
            Ret (TASK_OK, Wrote (Some (Pool (unat (g_fr_task_count s))))) s' \<and> created_from c s s'"
  using assms by (simp add: create_ok)

definition example_config :: fr_task_config where
  "example_config = \<lparr>cfg_entry = 0x08000101, cfg_argument = 0, cfg_stack_memory = 0x20001000,
     cfg_stack_size_words = 128, cfg_priority = 3\<rparr>"

lemma example_config_ok: "config_ok example_config"
  by (simp add: config_ok_def example_config_def stack_is_valid_iff)

theorem task_create_registers_ready_task_witness:
  "\<exists>s'. fr_task_create True (Some example_config) (reset_kernel example_links) =
      Ret (TASK_OK, Wrote (Some (Pool 0))) s' \<and>
    saved_sp (tcb s' (Pool 0)) = 0x200011C0 \<and> g_fr_task_count s' = 1"
proof -
  have room: "g_fr_task_count (reset_kernel example_links) < FR_CONFIG_MAX_TASKS"
    by (simp add: reset_kernel_def)
  from task_create_registers_ready_task [OF example_config_ok room] show ?thesis
    by (auto simp: created_from_def created_task_def fr_task_calculate_stack_top_def
        example_config_def reset_kernel_def)
qed

text \<open>The stacks and configurations that can be used, in ordinary arithmetic.\<close>

definition usable_stack :: "fr_task_config \<Rightarrow> bool" where
  "usable_stack c \<longleftrightarrow> (let base = unat (cfg_stack_memory c); words = unat (cfg_stack_size_words c)
     in base \<noteq> 0 \<and> 8 dvd base \<and> 32 \<le> words \<and> even words \<and> base + 4 * words < 2 ^ 32)"

lemma usable_stack_iff: "usable_stack c \<longleftrightarrow> fr_task_stack_is_valid c"
  unfolding usable_stack_def Let_def unat_eq_zero stack_check_exact by (rule refl)

fun creation_status :: "fr_task_config option \<Rightarrow> nat \<Rightarrow> fr_task_status" where
  "creation_status None n = TASK_ERROR_INVALID_ARGUMENT"
| "creation_status (Some c) n =
     (if cfg_entry c = 0 then TASK_ERROR_INVALID_ARGUMENT
      else if 31 < unat (cfg_priority c) then TASK_ERROR_INVALID_PRIORITY
      else if \<not> usable_stack c then TASK_ERROR_INVALID_STACK
      else if 8 \<le> n then TASK_ERROR_NO_CAPACITY else TASK_OK)"

text \<open>
  C35. Creation is total and its status is exact. Whatever the arguments and whatever the state of the
  kernel, \<open>fr_task_create\<close> returns without tripping an assertion, and its status is decided by the
  arguments and the number of tasks alone: a null pointer or entry; else a priority above 31; else a stack that is not
  a block of at least 32 and an even number of words, at an address that is a non-zero multiple of eight, and
  ends inside the address space; else a full registry. Every error leaves the kernel exactly as it was;
  the caller's handle is then null, but untouched when one of the two pointers is null, and only success
  stores a task in it, the one in the next slot.
\<close>

theorem task_create_status_exact:
  "fr_task_create False config s = Ret (TASK_ERROR_INVALID_ARGUMENT, Untouched) s \<and>
   (\<exists>s'. fr_task_create True config s =
       Ret (creation_status config (unat (g_fr_task_count s)),
            if config = None then Untouched
            else Wrote (if creation_status config (unat (g_fr_task_count s)) = TASK_OK
                        then Some (Pool (unat (g_fr_task_count s))) else None)) s' \<and>
     (if creation_status config (unat (g_fr_task_count s)) = TASK_OK
      then created_from (the config) s s' else s' = s))"
proof
  show "fr_task_create False config s = Ret (TASK_ERROR_INVALID_ARGUMENT, Untouched) s" by (simp add: fr_task_create_def)
  show "\<exists>s'. fr_task_create True config s =
       Ret (creation_status config (unat (g_fr_task_count s)),
            if config = None then Untouched
            else Wrote (if creation_status config (unat (g_fr_task_count s)) = TASK_OK
                        then Some (Pool (unat (g_fr_task_count s))) else None)) s' \<and>
     (if creation_status config (unat (g_fr_task_count s)) = TASK_OK
      then created_from (the config) s s' else s' = s)"
  proof (cases config)
    case None
    then show ?thesis by (simp add: fr_task_create_def)
  next
    case (Some c)
    have p: "31 < unat (cfg_priority c) \<longleftrightarrow> \<not> cfg_priority c \<le> 31" by (simp add: word_le_nat_alt not_le)
    have n: "8 \<le> unat (g_fr_task_count s) \<longleftrightarrow> \<not> g_fr_task_count s < 8" by (simp add: word_less_nat_alt not_less)
    have st: "creation_status config (unat (g_fr_task_count s)) = TASK_OK \<longleftrightarrow> config_ok c \<and> g_fr_task_count s < 8"
      by (simp add: Some p n usable_stack_iff config_ok_def)
    show ?thesis
    proof (cases "config_ok c \<and> g_fr_task_count s < 8")
      case True
      then show ?thesis using create_ok [of c s] st by (simp add: Some)
    next
      case False
      then have "fr_task_create True config s = Ret (creation_status config (unat (g_fr_task_count s)), Wrote None) s"
        by (auto simp: Some p n usable_stack_iff config_ok_def fr_task_create_def fr_task_create_reserve_def split_beta Let_def not_le)
      then show ?thesis using False st by (simp add: Some)
    qed
  qed
qed

text \<open>
  C36. A task handle is accepted exactly when it is the address of a registered pool slot, for any
  placement of the pool in the address space: misaligned addresses, foreign addresses and slots
  that are not yet in use are rejected, and an accepted handle designates its own slot.
\<close>

theorem handle_validation_exact:
  assumes "pool_placed s" and "g_fr_task_count s \<le> FR_CONFIG_MAX_TASKS"
    and "\<forall>i < unat (g_fr_task_count s). task_id (tcb s (Pool i)) \<noteq> 0"
  shows "(fr_task_handle_is_valid h s \<longleftrightarrow>
           (\<exists>i < unat (g_fr_task_count s). h = lm_task_pool (links s) + sizeof_fr_task * of_nat i))
         \<and> (\<forall>i < unat (g_fr_task_count s).
              task_of_handle (lm_task_pool (links s) + sizeof_fr_task * of_nat i) s = Pool i)"
proof -
  have "i < 8" if "i < unat (g_fr_task_count s)" for i
    using that assms(2) by (simp add: word_le_nat_alt)
  then show ?thesis
    using handle_valid_iff [OF assms(1), of h] assms(2,3) task_of_handle_slot [of _ s] by auto
qed

text \<open>With one task registered, its slot is accepted; the next slot and an address inside it are not.\<close>

theorem handle_validation_exact_witness:
  "\<exists>s'. fr_task_create True (Some example_config) (reset_kernel example_links) = Ret (TASK_OK, Wrote (Some (Pool 0))) s' \<and>
     fr_task_handle_is_valid 0x20000100 s' \<and> task_of_handle 0x20000100 s' = Pool 0 \<and>
     \<not> fr_task_handle_is_valid 0x20000104 s' \<and> \<not> fr_task_handle_is_valid 0x20000138 s'"
proof -
  let ?s = "reset_kernel example_links"
  obtain s' where s': "fr_task_create True (Some example_config) ?s = Ret (TASK_OK, Wrote (Some (Pool 0))) s'"
    "created_from example_config ?s s'"
    using create_ok [OF example_config_ok, of ?s] by (auto simp: reset_kernel_def)
  have f: "g_fr_task_count s' = 1" "lm_task_pool (links s') = 0x20000100" "task_id (tcb s' (Pool 0)) = 1"
    using s'(2) by (simp_all add: created_from_def reset_kernel_def example_links_def created_task_def)
  have pl: "pool_placed s'" by (simp add: pool_placed_def f)
  have cnt: "g_fr_task_count s' \<le> FR_CONFIG_MAX_TASKS" by (simp add: f)
  have ids: "\<forall>i < unat (g_fr_task_count s'). task_id (tcb s' (Pool i)) \<noteq> 0" by (simp add: f)
  note exact = handle_validation_exact [OF pl cnt ids]
  show ?thesis
    using exact [of "0x20000100"] exact [of "0x20000104"] exact [of "0x20000138"] s'(1) by (simp add: f)
qed

text \<open>
  The stack report of a freshly created task is exact: \<open>size - 16\<close> free words, 16 words of peak
  use (the initial context), an intact guard region, and an in-bounds aligned stack pointer, so
  no overflow is reported.
\<close>

lemma fresh_stack_report:
  assumes "config_ok c" and "created_from c s s'"
    and "pool_placed s" and "g_fr_task_count s < FR_CONFIG_MAX_TASKS"
    and "\<forall>i < unat (g_fr_task_count s). task_id (tcb s (Pool i)) \<noteq> 0"
  shows "\<exists>info. fr_task_stack_get_info
            (lm_task_pool (links s) + sizeof_fr_task * g_fr_task_count s) True s' = (Some info, s') \<and>
          si_size_words info = cfg_stack_size_words c \<and>
          si_minimum_free_words info = cfg_stack_size_words c - 16 \<and>
          si_peak_used_words info = 16 \<and> si_guard_intact info \<and> si_saved_sp_aligned info \<and>
          \<not> si_overflow_detected info"
proof -
  let ?n = "unat (g_fr_task_count s)" and ?b = "cfg_stack_memory c"
  let ?h = "lm_task_pool (links s') + 56 * of_nat ?n"
  have v: "fr_task_stack_is_valid c" using assms(1) by (simp add: config_ok_def)
  have n8: "?n < 8" using assms(4) by (simp add: word_less_nat_alt)
  have cnt: "unat (g_fr_task_count s') = Suc ?n"
    using assms(2,4) unat_Suc_word [of "g_fr_task_count s" 8] by (simp add: created_from_def)
  have le8: "g_fr_task_count s' \<le> 8" using cnt n8 by (simp add: word_le_nat_alt)
  have lk: "links s' = links s" using assms(2) by (simp add: created_from_def)
  have ids: "task_id (tcb s' (Pool i)) \<noteq> 0" if "i < unat (g_fr_task_count s')" for i
  proof (cases "i = ?n")
    case True
    have "g_fr_task_count s + 1 \<noteq> 0" using cnt assms(2) by (auto simp: created_from_def)
    with True assms(2) show ?thesis by (simp add: created_from_def created_task_def)
  next
    case False
    with that cnt assms(2,5) show ?thesis by (simp add: created_from_def)
  qed
  have valid: "fr_task_handle_is_valid ?h s'"
    unfolding handle_valid_iff [OF _ le8 ids, of ?h, unfolded pool_placed_def lk]
    using assms(3) cnt handle_valid_iff [OF _ le8 ids, of ?h] lk by (auto simp: pool_placed_def)
  have t: "tcb s' (Pool ?n) = created_task c (g_fr_task_count s)"
    and m: "ram s' = created_ram c (lm_return_trap (links s)) (ram s)"
    using assms(2) by (simp_all add: created_from_def)
  have size: "32 \<le> unat (cfg_stack_size_words c)" using v by (simp add: stack_is_valid_iff)
  have free: "fr_task_stack_minimum_free_words ?b (cfg_stack_size_words c) s' = cfg_stack_size_words c - 16"
    using size by (simp add: fr_task_stack_minimum_free_words_def m created_free_words [OF v] of_nat_diff)
  have guard: "fr_task_stack_guard_intact ?b s'"
    using size by (auto simp: fr_task_stack_guard_intact_def list_all_iff m created_ram_words [OF v])
  have slot: "task_of_handle ?h s' = Pool ?n" using n8 by (rule task_of_handle_slot)
  show ?thesis
    using valid free guard initial_sp_facts(3-5) [OF v] lk
    by (simp add: fr_task_stack_get_info_def split_beta Let_def slot [simplified lk, simplified] t created_task_def)
qed

text \<open>
  C37. The stack report of any registered task is a sound and exact reading of its stack: the
  reported free words are the longest untouched prefix and the rest is the peak use, eight words are set aside
  as the guard in both the usable and the usable free words, the guard is intact exactly when the eight
  lowest words still hold the fill pattern, the saved stack pointer is in bounds exactly when it lies from the
  base to the top of the stack and aligned exactly when it is a multiple of eight, and an overflow is reported
  exactly when a guard word changed or the saved stack pointer left the stack. Nothing changes, and without
  a report to fill in the call returns false.
\<close>

theorem stack_report_exact:
  assumes "fr_task_handle_is_valid h s"
  defines "t \<equiv> tcb s (task_of_handle h s)"
  defines "w \<equiv> \<lambda>i. load32 (ram s) (word_at (stack_base t) i)"
  shows "fr_task_stack_get_info h False s = (None, s) \<and>
   (\<exists>info. fr_task_stack_get_info h True s = (Some info, s) \<and>
     (\<forall>i < unat (si_minimum_free_words info). w i = FR_TASK_STACK_FILL_PATTERN) \<and>
     (unat (si_minimum_free_words info) < unat (stack_size_words t) \<longrightarrow>
        w (unat (si_minimum_free_words info)) \<noteq> FR_TASK_STACK_FILL_PATTERN) \<and>
     unat (si_minimum_free_words info) + unat (si_peak_used_words info) = unat (stack_size_words t) \<and>
     si_size_words info = stack_size_words t \<and> si_guard_words info = 8 \<and>
     (8 \<le> unat (stack_size_words t) \<longrightarrow> unat (si_usable_words info) = unat (stack_size_words t) - 8) \<and>
     unat (si_minimum_usable_free_words info) = unat (si_minimum_free_words info) - 8 \<and>
     si_stack_base info = stack_base t \<and> si_stack_top info = stack_top t \<and> si_saved_sp info = saved_sp t \<and>
     (si_guard_intact info \<longleftrightarrow> (\<forall>i < 8. w i = FR_TASK_STACK_FILL_PATTERN)) \<and>
     (si_saved_sp_in_bounds info \<longleftrightarrow> unat (saved_sp t) \<in> {unat (stack_base t)..unat (stack_top t)}) \<and>
     (si_saved_sp_aligned info \<longleftrightarrow> 8 dvd unat (saved_sp t)) \<and>
     (si_overflow_detected info \<longleftrightarrow>
        (\<exists>i < 8. w i \<noteq> FR_TASK_STACK_FILL_PATTERN) \<or> saved_sp t < stack_base t \<or> stack_top t < saved_sp t))"
proof -
  let ?n = "unat (stack_size_words t)"
  let ?P = "\<lambda>i. w i = FR_TASK_STACK_FILL_PATTERN"
  define f where "f = free_words_loop (ram s) (stack_base t) 0 ?n"
  have f: "f = length (takeWhile ?P [0..<?n])"
    by (simp add: f_def free_words_loop_spec w_def)
  have fn: "f \<le> ?n" unfolding f using length_takeWhile_le [of ?P "[0..<?n]"] by simp
  have uf: "unat (of_nat f :: u32) = f" using fn by (intro unat_of_nat32) (rule le_less_trans [OF _ unat_lt_u32])
  have pre: "?P i" if "i < f" for i
    using that takeWhile_nth [of i ?P "[0..<?n]"] nth_mem [of i "takeWhile ?P [0..<?n]"] fn
    by (auto simp: f dest: set_takeWhileD)
  have stop: "\<not> ?P f" if "f < ?n"
    using that nth_length_takeWhile [of ?P "[0..<?n]"] by (simp add: f)
  have peak: "unat (stack_size_words t - of_nat f) = ?n - f"
    using fn uf by (simp add: unat_sub word_le_nat_alt)
  have g: "fr_task_stack_guard_intact (stack_base t) s \<longleftrightarrow> (\<forall>i < 8. ?P i)"
    by (auto simp: fr_task_stack_guard_intact_def list_all_iff w_def)
  have free: "fr_task_stack_minimum_free_words (stack_base t) (stack_size_words t) s = of_nat f"
    by (simp add: fr_task_stack_minimum_free_words_def f_def)
  have sub8: "8 \<le> unat x \<Longrightarrow> unat (x - 8) = unat x - 8" for x :: u32 by (simp add: unat_sub word_le_nat_alt)
  have f8: "8 \<le> f \<Longrightarrow> unat (of_nat f - 8 :: u32) = f - 8" using sub8 [of "of_nat f"] unfolding uf .
  have "(of_nat f :: u32) > 8 \<longleftrightarrow> f > 8" using uf by (simp add: word_less_nat_alt)
  then have gw: "8 \<le> ?n \<Longrightarrow> unat (stack_size_words t - 8) = ?n - 8"
    "unat (if (of_nat f :: u32) > 8 then of_nat f - 8 else (0 :: u32)) = f - 8"
    using f8 sub8 [of "stack_size_words t"] by simp_all
  have "fr_task_stack_get_info h False s = (None, s)" by (simp add: fr_task_stack_get_info_def)
  then show ?thesis
    using assms(1) fn pre stop
    by (simp add: fr_task_stack_get_info_def split_beta Let_def flip: t_def)
       (auto simp: free uf peak g gw f8 and7_iff word_le_nat_alt word_less_nat_alt not_le)
qed

theorem stack_report_exact_witness:
  "\<exists>s'. fr_task_create True (Some example_config) (reset_kernel example_links) =
       Ret (TASK_OK, Wrote (Some (Pool 0))) s' \<and>
     (\<exists>info. fr_task_stack_get_info 0x20000100 True s' = (Some info, s') \<and> si_saved_sp_aligned info \<and> si_saved_sp_in_bounds info)"
proof -
  let ?s = "reset_kernel example_links"
  obtain s' where s': "fr_task_create True (Some example_config) ?s = Ret (TASK_OK, Wrote (Some (Pool 0))) s'"
    "created_from example_config ?s s'"
    using create_ok [OF example_config_ok, of ?s] by (auto simp: reset_kernel_def)
  have v: "fr_task_handle_is_valid 0x20000100 s'"
    using s'(2) by (simp add: fr_task_handle_is_valid_def Let_def created_from_def reset_kernel_def
        example_links_def created_task_def)
  have t: "8 dvd unat (saved_sp (tcb s' (task_of_handle 0x20000100 s')))"
    "unat (saved_sp (tcb s' (task_of_handle 0x20000100 s'))) \<in>
       {unat (stack_base (tcb s' (task_of_handle 0x20000100 s')))..unat (stack_top (tcb s' (task_of_handle 0x20000100 s')))}"
    using s'(2) by (simp_all add: task_of_handle_def created_from_def created_task_def reset_kernel_def example_links_def
        example_config_def fr_task_calculate_stack_top_def)
  obtain info where "fr_task_stack_get_info 0x20000100 True s' = (Some info, s')" "si_saved_sp_aligned info" "si_saved_sp_in_bounds info"
    using stack_report_exact [OF v] t by blast
  then show ?thesis using s'(1) by blast
qed

end
