(* ===== verification/Inheritance.thy ===== *)
theory Inheritance
  imports Task
begin

text \<open>
  Mutex priority inheritance (the static functions of \<open>kernel/mutex.c\<close> and
  \<open>fr_mutex_waiter_removed_locked\<close>, which the scheduler calls when a mutex wait times out).

  The functions walk the wait-for chain ``task, owner of the mutex it is blocked on, owner of the
  mutex that owner is blocked on, ...'' for at most \<open>task_count\<close> steps and write only effective
  priorities. The abstract view is the relation \<open>waits_for\<close>; the contract is that every registered
  task's effective priority equals the maximum of its base priority and the effective priorities of
  the tasks waiting for it (\<open>inherit_inv\<close>), and the lemmas show that raising along the chain after a
  new wait, and recomputing along the chain after a removed wait, re-establish that equation, also
  when tasks are deadlocked in a cycle.
\<close>


section \<open>Operations\<close>

text \<open>Reading \<open>mutex->magic\<close> and \<open>mutex->owner\<close> through a wait-object pointer.\<close>

definition mutex_magic_ok :: "u32 \<Rightarrow> kernel \<Rightarrow> bool" where
  "mutex_magic_ok a s = (case objects s a of Mutex m \<Rightarrow> mx_magic m = FR_MUTEX_MAGIC | _ \<Rightarrow> False)"

definition mutex_owner :: "u32 \<Rightarrow> kernel \<Rightarrow> task_ptr option" where
  "mutex_owner a s = (case objects s a of Mutex m \<Rightarrow> mx_owner m | _ \<Rightarrow> None)"

definition fr_mutex_compute_effective_priority_locked :: "task_ptr \<Rightarrow> kernel \<Rightarrow> u8" where
  "fr_mutex_compute_effective_priority_locked owner s =
     fold (\<lambda>i effective_priority.
        case fr_task_internal_at i s of
          None \<Rightarrow> effective_priority
        | Some waiter \<Rightarrow>
            let w = tcb s waiter
            in if task_state w \<noteq> STATE_BLOCKED \<or> wait_reason w \<noteq> WAIT_MUTEX \<or>
                  wait_result w \<noteq> RESULT_PENDING \<or> wait_object w = 0 then effective_priority
               else if \<not> mutex_magic_ok (wait_object w) s \<or> mutex_owner (wait_object w) s \<noteq> Some owner
               then effective_priority
               else if priority w > effective_priority then priority w else effective_priority)
       [0..<unat (fr_task_internal_count s)] (base_priority (tcb s owner))"

text \<open>
  The loop bodies of the two chain walks, with \<open>task_count - depth\<close> as the recursion bound.
\<close>

fun inherit_loop :: "nat \<Rightarrow> task_ptr option \<Rightarrow> u8 \<Rightarrow> kernel \<Rightarrow> kernel" where
  "inherit_loop 0 owner donated_priority s = s"
| "inherit_loop (Suc n) None donated_priority s = s"
| "inherit_loop (Suc n) (Some owner) donated_priority s =
     (let s = (if donated_priority > priority (tcb s owner)
               then upd_task owner (\<lambda>t. t\<lparr>priority := donated_priority\<rparr>) s else s);
          t = tcb s owner;
          donated_priority = priority t
      in if task_state t \<noteq> STATE_BLOCKED \<or> wait_reason t \<noteq> WAIT_MUTEX \<or> wait_object t = 0 then s
         else if \<not> mutex_magic_ok (wait_object t) s then s
         else let upstream_owner = mutex_owner (wait_object t) s
              in if upstream_owner = None \<or> upstream_owner = Some owner then s
                 else inherit_loop n upstream_owner donated_priority s)"

definition fr_mutex_inherit_priority_chain_locked :: "task_ptr option \<Rightarrow> u8 \<Rightarrow> kernel \<Rightarrow> kernel" where
  "fr_mutex_inherit_priority_chain_locked owner donated_priority s =
     inherit_loop (unat (fr_task_internal_count s)) owner donated_priority s"

fun recompute_loop :: "nat \<Rightarrow> task_ptr option \<Rightarrow> kernel \<Rightarrow> kernel" where
  "recompute_loop 0 task s = s"
| "recompute_loop (Suc n) None s = s"
| "recompute_loop (Suc n) (Some task) s =
     (let s = upd_task task
                (\<lambda>t. t\<lparr>priority := fr_mutex_compute_effective_priority_locked task s\<rparr>) s;
          t = tcb s task
      in if task_state t \<noteq> STATE_BLOCKED \<or> wait_reason t \<noteq> WAIT_MUTEX \<or> wait_object t = 0 then s
         else if \<not> mutex_magic_ok (wait_object t) s then s
         else let upstream_owner = mutex_owner (wait_object t) s
              in if upstream_owner = None \<or> upstream_owner = Some task then s
                 else recompute_loop n upstream_owner s)"

definition fr_mutex_recompute_priority_chain_locked :: "task_ptr option \<Rightarrow> kernel \<Rightarrow> kernel" where
  "fr_mutex_recompute_priority_chain_locked task s =
     recompute_loop (unat (fr_task_internal_count s)) task s"

definition fr_mutex_waiter_removed_locked :: "u32 \<Rightarrow> kernel \<Rightarrow> kernel" where
  "fr_mutex_waiter_removed_locked wobj s =
     (if wobj = 0 then s
      else if \<not> mutex_magic_ok wobj s \<or> mutex_owner wobj s = None then s
      else fr_mutex_recompute_priority_chain_locked (mutex_owner wobj s) s)"


section \<open>Only effective priorities change\<close>

text \<open>\<open>s'\<close> is \<open>s\<close> up to the effective priorities of the tasks.\<close>

definition with_prio :: "kernel \<Rightarrow> (task_ptr \<Rightarrow> u8) \<Rightarrow> kernel" where
  "with_prio s f = s\<lparr>tcb := (\<lambda>p. (tcb s p)\<lparr>priority := f p\<rparr>)\<rparr>"

definition prio :: "kernel \<Rightarrow> task_ptr \<Rightarrow> u8" where
  "prio s p = priority (tcb s p)"

lemma with_prio_frame [simp]:
  "g_fr_task_count (with_prio s f) = g_fr_task_count s"
  "g_fr_scheduler_current_task (with_prio s f) = g_fr_scheduler_current_task s"
  "g_fr_scheduler_running (with_prio s f) = g_fr_scheduler_running s"
  "g_fr_kernel_tick_count (with_prio s f) = g_fr_kernel_tick_count s"
  "g_fr_trace (with_prio s f) = g_fr_trace s"
  "cpu (with_prio s f) = cpu s"
  "pendsv_pending (with_prio s f) = pendsv_pending s"
  "ram (with_prio s f) = ram s"
  "objects (with_prio s f) = objects s"
  "links (with_prio s f) = links s"
  by (simp_all add: with_prio_def)

lemma tcb_with_prio [simp]: "tcb (with_prio s f) p = (tcb s p)\<lparr>priority := f p\<rparr>"
  by (simp add: with_prio_def)

lemma prio_with_prio [simp]: "prio (with_prio s f) = f"
  by (simp add: prio_def fun_eq_iff)

lemma with_prio_self [simp]: "with_prio s (prio s) = s"
  by (simp add: with_prio_def prio_def)

lemma with_prio_twice [simp]: "with_prio (with_prio s f) g = with_prio s g"
  by (simp add: with_prio_def)

lemma upd_priority: "upd_task p (\<lambda>t. t\<lparr>priority := v\<rparr>) s = with_prio s ((prio s)(p := v))"
  by (simp add: upd_task_def with_prio_def prio_def fun_eq_iff)

lemma mutex_reads_with_prio [simp]:
  "mutex_magic_ok a (with_prio s f) = mutex_magic_ok a s"
  "mutex_owner a (with_prio s f) = mutex_owner a s"
  "fr_task_internal_at i (with_prio s f) = fr_task_internal_at i s"
  "fr_task_internal_count (with_prio s f) = fr_task_internal_count s"
  by (simp_all add: mutex_magic_ok_def mutex_owner_def fr_task_internal_at_def fr_task_internal_count_def)

lemma inherit_loop_with_prio: "\<exists>f. inherit_loop n p d s = with_prio s f"
proof (induction n p d s rule: inherit_loop.induct)
  case (1 owner d s)
  show ?case using with_prio_self [of s] by (metis inherit_loop.simps(1))
next
  case (2 n d s)
  show ?case using with_prio_self [of s] by (metis inherit_loop.simps(2))
next
  case (3 n owner d s)
  let ?s = "if d > priority (tcb s owner) then upd_task owner (\<lambda>t. t\<lparr>priority := d\<rparr>) s else s"
  obtain g where g: "?s = with_prio s g"
    by (metis upd_priority with_prio_self)
  show ?case
    using 3 [OF refl refl refl]
    by (simp only: inherit_loop.simps Let_def g) (metis with_prio_twice)
qed

lemma recompute_loop_with_prio: "\<exists>f. recompute_loop n p s = with_prio s f"
proof (induction n p s rule: recompute_loop.induct)
  case (1 p s)
  show ?case using with_prio_self [of s] by (metis recompute_loop.simps(1))
next
  case (2 n s)
  show ?case using with_prio_self [of s] by (metis recompute_loop.simps(2))
next
  case (3 n task s)
  show ?case
    using 3 [OF refl refl]
    by (simp only: recompute_loop.simps Let_def upd_priority) (metis with_prio_twice)
qed

lemma waiter_removed_with_prio: "\<exists>f. fr_mutex_waiter_removed_locked a s = with_prio s f"
  unfolding fr_mutex_waiter_removed_locked_def fr_mutex_recompute_priority_chain_locked_def
  by (metis recompute_loop_with_prio with_prio_self)


section \<open>The wait-for relation\<close>

definition registered :: "kernel \<Rightarrow> task_ptr set" where
  "registered s = Pool ` {..<unat (g_fr_task_count s)}"

lemma Pool_registered [simp]: "Pool i \<in> registered s \<longleftrightarrow> i < unat (g_fr_task_count s)"
  by (auto simp: registered_def)

lemma Idle_not_registered [simp]: "IdleTask \<notin> registered s"
  by (auto simp: registered_def)

lemma registered_cases:
  assumes "p \<in> registered s"
  obtains i where "p = Pool i" "i < unat (g_fr_task_count s)"
  using assms by (auto simp: registered_def)

lemma registered_cong: "g_fr_task_count s' = g_fr_task_count s \<Longrightarrow> registered s' = registered s"
  by (simp add: registered_def)

lemma registered_frame [simp]:
  "registered (with_prio s f) = registered s"
  "registered (upd_task p g s) = registered s"
  "registered (set_object a ob s) = registered s"
  "registered (fr_trace_record_locked e i x y s) = registered s"
  "registered (fr_port_request_context_switch s) = registered s"
  "registered (fr_critical_exit c s) = registered s"
  "registered (snd (fr_critical_enter s)) = registered s"
  by (simp_all add: registered_def)

lemma finite_registered [simp]: "finite (registered s)"
  by (simp add: registered_def)

lemma card_registered: "card (registered s) = unat (g_fr_task_count s)"
  by (simp add: registered_def card_image inj_on_def)

definition waits_for :: "kernel \<Rightarrow> task_ptr \<Rightarrow> task_ptr \<Rightarrow> bool" where
  "waits_for s w z \<longleftrightarrow> w \<in> registered s \<and> task_state (tcb s w) = STATE_BLOCKED \<and>
     wait_reason (tcb s w) = WAIT_MUTEX \<and> wait_result (tcb s w) = RESULT_PENDING \<and>
     wait_object (tcb s w) \<noteq> 0 \<and> mutex_magic_ok (wait_object (tcb s w)) s \<and>
     mutex_owner (wait_object (tcb s w)) s = Some z"

lemma waits_for_with_prio [simp]: "waits_for (with_prio s f) w z = waits_for s w z"
  by (simp add: waits_for_def)

lemma waits_for_registered: "waits_for s w z \<Longrightarrow> w \<in> registered s"
  by (simp add: waits_for_def)

lemma waits_for_unique: "waits_for s w y \<Longrightarrow> waits_for s w z \<Longrightarrow> y = z"
  by (simp add: waits_for_def)

lemma finite_waiters [simp]: "finite {w. waits_for s w z}"
  by (rule finite_subset [of _ "registered s"]) (auto simp: waits_for_def)

lemma fold_keep_max:
  fixes v :: "'a \<Rightarrow> 'b::linorder"
  assumes "\<And>i e. i \<in> set xs \<Longrightarrow> f i e = (if P i then (if v i > e then v i else e) else e)"
  shows "fold f xs b = Max (insert b (v ` {i \<in> set xs. P i}))"
  using assms
proof (induction xs arbitrary: b)
  case Nil
  then show ?case by simp
next
  case (Cons x xs)
  have IH: "fold f xs b' = Max (insert b' (v ` {i \<in> set xs. P i}))" for b'
    using Cons by simp
  show ?case
  proof (cases "P x")
    case True
    have fx: "f x b = max (v x) b" using Cons.prems [of x] True by (auto simp: max_def)
    have S: "v ` {i \<in> set (x # xs). P i} = insert (v x) (v ` {i \<in> set xs. P i})" using True by auto
    let ?A = "v ` {i \<in> set xs. P i}"
    have fin: "finite ?A" by simp
    show ?thesis
      using fin by (cases "?A = {}") (simp_all only: fold_Cons o_apply fx IH S Max_insert
          finite_insert insert_not_empty Max_singleton not_False_eq_True, auto simp: max.commute max.left_commute max.assoc)
  next
    case False
    then have "f x b = b" using Cons.prems [of x] by simp
    moreover have "{i \<in> set (x # xs). P i} = {i \<in> set xs. P i}" using False by auto
    ultimately show ?thesis by (simp only: fold_Cons o_apply IH)
  qed
qed

text \<open>The recomputed priority is the maximum of the base priority and the waiters' priorities.\<close>

lemma compute_eq:
  "fr_mutex_compute_effective_priority_locked z s =
     Max (insert (base_priority (tcb s z)) (prio s ` {w. waits_for s w z}))"
proof -
  let ?n = "unat (g_fr_task_count s)"
  let ?P = "\<lambda>i. waits_for s (Pool i) z"
  have "fr_mutex_compute_effective_priority_locked z s =
      Max (insert (base_priority (tcb s z)) ((\<lambda>i. prio s (Pool i)) ` {i \<in> set [0..<?n]. ?P i}))"
    unfolding fr_mutex_compute_effective_priority_locked_def fr_task_internal_count_def
    by (rule fold_keep_max) (auto simp: fr_task_internal_at_def waits_for_def Let_def prio_def)
  moreover have "prio s ` {w. waits_for s w z} = (\<lambda>i. prio s (Pool i)) ` {i \<in> set [0..<?n]. ?P i}"
    by (force simp: waits_for_def registered_def)
  ultimately show ?thesis by simp
qed

abbreviation eff :: "kernel \<Rightarrow> task_ptr \<Rightarrow> u8" where
  "eff s z \<equiv> fr_mutex_compute_effective_priority_locked z s"

lemma base_le_eff: "base_priority (tcb s z) \<le> eff s z"
  by (simp add: compute_eq)

lemma waiter_le_eff: "waits_for s w z \<Longrightarrow> prio s w \<le> eff s z"
  by (simp add: compute_eq)

lemma eff_cases: "eff s z = base_priority (tcb s z) \<or> (\<exists>w. waits_for s w z \<and> eff s z = prio s w)"
proof -
  have "eff s z \<in> insert (base_priority (tcb s z)) (prio s ` {w. waits_for s w z})"
    unfolding compute_eq by (rule Max_in) simp_all
  then show ?thesis by auto
qed

lemma eff_le:
  "base_priority (tcb s z) \<le> v \<Longrightarrow> (\<And>w. waits_for s w z \<Longrightarrow> prio s w \<le> v) \<Longrightarrow> eff s z \<le> v"
  by (simp add: compute_eq)

lemma eff_cong:
  assumes "base_priority (tcb s' z) = base_priority (tcb s z)"
    and "\<And>w. waits_for s' w z = waits_for s w z"
    and "\<And>w. waits_for s w z \<Longrightarrow> prio s' w = prio s w"
  shows "eff s' z = eff s z"
proof -
  have "prio s' ` {w. waits_for s' w z} = prio s ` {w. waits_for s w z}"
    using assms(2,3) by (auto simp: image_iff)
  then show ?thesis by (simp add: compute_eq assms(1))
qed

lemma eff_other:
  "\<not> waits_for s x z \<Longrightarrow> eff (with_prio s ((prio s)(x := v))) z = eff s z"
  by (rule eff_cong) auto

lemma eff_raised:
  assumes "waits_for s x z" and "prio s x \<le> v"
  shows "eff (with_prio s ((prio s)(x := v))) z = max (eff s z) v"
proof (rule antisym)
  let ?s = "with_prio s ((prio s)(x := v))"
  show "eff ?s z \<le> max (eff s z) v"
    using base_le_eff [of s z] waiter_le_eff [of s] by (intro eff_le) (auto simp: le_max_iff_disj)
  have "v \<le> eff ?s z" using waiter_le_eff [of ?s x z] assms(1) by simp
  moreover have "eff s z \<le> eff ?s z"
  proof (rule eff_le)
    show "base_priority (tcb s z) \<le> eff ?s z" using base_le_eff [of ?s z] by simp
    fix w assume w: "waits_for s w z"
    show "prio s w \<le> eff ?s z"
      using waiter_le_eff [of ?s w z] w assms(2) by (cases "w = x") auto
  qed
  ultimately show "max (eff s z) v \<le> eff ?s z" by simp
qed

lemma eff_lowered:
  assumes "v \<le> prio s x"
  shows "eff (with_prio s ((prio s)(x := v))) z \<le> eff s z"
  using assms base_le_eff [of s z] waiter_le_eff [of s]
  by (intro eff_le) (auto intro: order_trans)



section \<open>Walking the chain\<close>

text \<open>
  Structural invariant of the mutex waits: a task blocked on a mutex waits for a live mutex object
  that another registered task owns.
\<close>

definition mutex_waits_ok :: "kernel \<Rightarrow> bool" where
  "mutex_waits_ok s \<longleftrightarrow> (\<forall>w \<in> registered s.
     task_state (tcb s w) = STATE_BLOCKED \<and> wait_reason (tcb s w) = WAIT_MUTEX \<longrightarrow>
     (\<exists>z \<in> registered s. z \<noteq> w \<and> waits_for s w z))"

definition inherit_inv :: "kernel \<Rightarrow> bool" where
  "inherit_inv s \<longleftrightarrow> (\<forall>x \<in> registered s. prio s x = eff s x)"

text \<open>The next task of the chain, as both loops read it.\<close>

definition upstream :: "kernel \<Rightarrow> task_ptr \<Rightarrow> task_ptr option" where
  "upstream s x = (if task_state (tcb s x) = STATE_BLOCKED \<and> wait_reason (tcb s x) = WAIT_MUTEX \<and>
       wait_object (tcb s x) \<noteq> 0 \<and> mutex_magic_ok (wait_object (tcb s x)) s \<and>
       mutex_owner (wait_object (tcb s x)) s \<noteq> Some x
     then mutex_owner (wait_object (tcb s x)) s else None)"

lemma upstream_with_prio [simp]: "upstream (with_prio s f) x = upstream s x"
  by (simp add: upstream_def)

lemma mutex_waits_ok_with_prio [simp]: "mutex_waits_ok (with_prio s f) = mutex_waits_ok s"
  by (simp add: mutex_waits_ok_def)

lemma upstream_iff:
  assumes "mutex_waits_ok s" and "x \<in> registered s"
  shows "upstream s x = Some z \<longleftrightarrow> waits_for s x z"
proof
  assume "waits_for s x z"
  moreover from this assms obtain z' where "z' \<noteq> x" "waits_for s x z'"
    unfolding mutex_waits_ok_def waits_for_def by blast
  ultimately have "z \<noteq> x" using waits_for_unique by blast
  with \<open>waits_for s x z\<close> show "upstream s x = Some z" by (simp add: upstream_def waits_for_def)
next
  assume u: "upstream s x = Some z"
  then have "task_state (tcb s x) = STATE_BLOCKED \<and> wait_reason (tcb s x) = WAIT_MUTEX"
    by (simp add: upstream_def split: if_splits)
  with assms obtain z' where z': "waits_for s x z'" unfolding mutex_waits_ok_def by blast
  with u have "z' = z" by (simp add: upstream_def waits_for_def split: if_splits)
  with z' show "waits_for s x z" by simp
qed

lemma waits_for_target:
  assumes "mutex_waits_ok s" and "waits_for s x z"
  shows "z \<in> registered s \<and> z \<noteq> x"
proof -
  obtain z' where "z' \<in> registered s" "z' \<noteq> x" "waits_for s x z'"
    using assms unfolding mutex_waits_ok_def waits_for_def by blast
  with assms(2) show ?thesis using waits_for_unique by blast
qed

lemma inherit_loop_step:
  "inherit_loop (Suc n) (Some x) d s =
     (let s' = with_prio s ((prio s)(x := max d (prio s x)))
      in case upstream s x of None \<Rightarrow> s' | Some z \<Rightarrow> inherit_loop n (Some z) (max d (prio s x)) s')"
proof -
  have s: "(if d > priority (tcb s x) then upd_task x (\<lambda>t. t\<lparr>priority := d\<rparr>) s else s) =
        with_prio s ((prio s)(x := max d (prio s x)))"
  proof (cases "d > prio s x")
    case True
    then show ?thesis by (simp add: upd_priority max_def prio_def)
  next
    case False
    then have "(prio s)(x := max d (prio s x)) = prio s" by (simp add: max_def fun_eq_iff not_less)
    with False show ?thesis by (simp add: prio_def)
  qed
  show ?thesis
    unfolding inherit_loop.simps Let_def s
    by (auto simp: upstream_def split: option.splits)
qed

lemma recompute_loop_step:
  "recompute_loop (Suc n) (Some x) s =
     (let s' = with_prio s ((prio s)(x := eff s x))
      in case upstream s x of None \<Rightarrow> s' | Some z \<Rightarrow> recompute_loop n (Some z) s')"
  unfolding recompute_loop.simps Let_def upd_priority
  by (auto simp: upstream_def split: option.splits)

declare inherit_loop.simps(3) [simp del] recompute_loop.simps(3) [simp del]

lemma inherit_loop_idle:
  assumes "inherit_inv s" and "mutex_waits_ok s" and "x \<in> registered s" and "d \<le> prio s x"
  shows "inherit_loop n (Some x) d s = s"
  using assms(3,4)
proof (induction n arbitrary: x d)
  case 0
  then show ?case by simp
next
  case (Suc n)
  then have v: "max d (prio s x) = prio s x" by (simp add: max_def)
  show ?case
  proof (cases "upstream s x")
    case None
    then show ?thesis by (simp add: inherit_loop_step v)
  next
    case (Some z)
    then have w: "waits_for s x z" using upstream_iff [OF assms(2) Suc.prems(1)] by simp
    have z: "z \<in> registered s" using waits_for_target [OF assms(2) w] by auto
    have "prio s x \<le> prio s z" using waiter_le_eff [OF w] assms(1) z by (simp add: inherit_inv_def)
    then show ?thesis using Some Suc.IH [OF z] by (simp add: inherit_loop_step v)
  qed
qed

text \<open>
  Raising. The equation holds everywhere except that \<open>x\<close> still lacks the donated priority \<open>d\<close>; \<open>D\<close> are
  the tasks already raised to \<open>d\<close>.
\<close>

lemma inherit_loop_establishes:
  assumes "mutex_waits_ok s" and "x \<in> registered s"
    and "\<And>y. y \<in> registered s \<Longrightarrow> y \<noteq> x \<Longrightarrow> prio s y = eff s y"
    and "eff s x = max (prio s x) d"
    and "D \<subseteq> registered s" and "\<And>y. y \<in> D \<Longrightarrow> d \<le> prio s y"
    and "unat (g_fr_task_count s) \<le> n + card D"
  shows "inherit_inv (inherit_loop n (Some x) d s)"
  using assms
proof (induction n arbitrary: x d s D)
  case 0
  have "D = registered s"
    using "0.prems"(5,7) by (intro card_seteq) (simp_all add: card_registered)
  then have "d \<le> prio s x" using "0.prems"(2,6) by blast
  then have "prio s x = eff s x" using "0.prems"(4) by (simp add: max_def)
  then show ?case using "0.prems"(3) by (auto simp: inherit_inv_def)
next
  case (Suc n)
  let ?v = "max d (prio s x)"
  let ?s = "with_prio s ((prio s)(x := ?v))"
  have nx: "\<not> waits_for s x x" using waits_for_target [OF Suc.prems(1)] by blast
  have ex: "prio ?s x = eff ?s x"
    using Suc.prems(4) by (simp add: eff_other [OF nx] max.commute)
  have other: "prio ?s y = eff ?s y" if "y \<in> registered s" "y \<noteq> x" "\<not> waits_for s x y" for y
    using that Suc.prems(3) by (simp add: eff_other)
  show ?case
  proof (cases "upstream s x")
    case None
    then have "\<not> waits_for s x y" for y using upstream_iff [OF Suc.prems(1,2)] by auto
    with ex other have "inherit_inv ?s" by (auto simp: inherit_inv_def)
    then show ?thesis using None by (simp add: inherit_loop_step Let_def)
  next
    case (Some z)
    then have w: "waits_for s x z" using upstream_iff [OF Suc.prems(1,2)] by simp
    have z: "z \<in> registered s" "z \<noteq> x" using waits_for_target [OF Suc.prems(1) w] by auto
    have ez: "eff ?s z = max (prio ?s z) ?v"
      using eff_raised [OF w, of ?v] Suc.prems(3) [OF z] z(2) by simp
    have rest: "prio ?s y = eff ?s y" if "y \<in> registered s" "y \<noteq> z" for y
      using that ex other waits_for_unique [OF w] by (cases "y = x") auto
    have "inherit_inv (inherit_loop n (Some z) ?v ?s)"
    proof (cases "d \<le> prio s x")
      case True
      then have s: "?s = s" and v: "?v = prio s x" by (simp_all add: max_def fun_upd_idem)
      have le: "prio s x \<le> prio s z"
        using waiter_le_eff [OF w] Suc.prems(3) [OF z] by simp
      have ez': "prio s z = eff s z" by (rule Suc.prems(3) [OF z])
      have all: "inherit_inv s"
        unfolding inherit_inv_def
      proof
        fix y assume "y \<in> registered s"
        then show "prio s y = eff s y" using rest ez' unfolding s by (cases "y = z") auto
      qed
      have "inherit_loop n (Some z) (prio s x) s = s"
        by (rule inherit_loop_idle [OF all Suc.prems(1) z(1) le])
      then show ?thesis using all unfolding s v by simp
    next
      case False
      then have v: "?v = d" by simp
      have xD: "x \<notin> D" using Suc.prems(6) False by auto
      have "card (insert x D) = Suc (card D)"
        using xD Suc.prems(5) by (simp add: finite_subset)
      then show ?thesis
        unfolding v
        by (intro Suc.IH [where D = "insert x D"])
           (use Suc.prems z ez rest v in \<open>auto simp: fun_eq_iff\<close>)
    qed
    then show ?thesis using Some by (simp add: inherit_loop_step Let_def)
  qed
qed

text \<open>
  Recomputing. The equation holds everywhere except that \<open>x\<close> may be too high; \<open>D\<close> are the tasks
  already lowered, all of which lead to \<open>x\<close>. A task on a wait-for cycle is never too high, because
  priorities do not decrease along the edges of the relation.
\<close>

lemma recompute_loop_idle:
  assumes "inherit_inv s" and "mutex_waits_ok s" and "x \<in> registered s"
  shows "recompute_loop n (Some x) s = s"
  using assms(3)
proof (induction n arbitrary: x)
  case 0
  then show ?case by simp
next
  case (Suc n)
  then have v: "(prio s)(x := eff s x) = prio s" using assms(1) by (simp add: inherit_inv_def fun_upd_idem)
  show ?case
  proof (cases "upstream s x")
    case None
    then show ?thesis by (simp add: recompute_loop_step v)
  next
    case (Some z)
    then have w: "waits_for s x z" using upstream_iff [OF assms(2) Suc.prems] by simp
    have "z \<in> registered s" using waits_for_target [OF assms(2) w] by auto
    then show ?thesis using Some Suc.IH [of z] by (simp add: recompute_loop_step v)
  qed
qed

lemma prio_mono_along_waits:
  assumes "\<And>y. y \<in> registered s \<Longrightarrow> eff s y \<le> prio s y" and "mutex_waits_ok s"
    and "(waits_for s)\<^sup>*\<^sup>* a b"
  shows "prio s a \<le> prio s b"
  using assms(3)
proof (induction rule: rtranclp_induct)
  case base
  then show ?case by simp
next
  case (step y z)
  then have "prio s y \<le> eff s z" using waiter_le_eff by blast
  also have "\<dots> \<le> prio s z"
    using assms(1) waits_for_target [OF assms(2) step.hyps(2)] by blast
  finally show ?case using step.IH by simp
qed

lemma on_cycle_not_high:
  assumes "\<And>y. y \<in> registered s \<Longrightarrow> eff s y \<le> prio s y" and "mutex_waits_ok s"
    and "(waits_for s)\<^sup>+\<^sup>+ x x"
  shows "prio s x \<le> eff s x"
proof -
  obtain y where "(waits_for s)\<^sup>*\<^sup>* x y" and y: "waits_for s y x"
    using assms(3) by (cases rule: tranclp.cases) (auto intro: that tranclp_into_rtranclp)
  from prio_mono_along_waits [OF assms(1,2) this(1)] have "prio s x \<le> prio s y" .
  also have "\<dots> \<le> eff s x" using y by (rule waiter_le_eff)
  finally show ?thesis .
qed

lemma recompute_loop_establishes:
  assumes "mutex_waits_ok s" and "x \<in> registered s"
    and "\<And>y. y \<in> registered s \<Longrightarrow> y \<noteq> x \<Longrightarrow> prio s y = eff s y" and "eff s x \<le> prio s x"
    and "D \<subseteq> registered s" and "\<And>y. y \<in> D \<Longrightarrow> (waits_for s)\<^sup>+\<^sup>+ y x" and "x \<notin> D"
    and "unat (g_fr_task_count s) \<le> n + card D"
  shows "inherit_inv (recompute_loop n (Some x) s)"
  using assms
proof (induction n arbitrary: x s D)
  case 0
  have "D = registered s"
    using "0.prems"(5,8) by (intro card_seteq) (simp_all add: card_registered)
  then show ?case using "0.prems"(2,7) by blast
next
  case (Suc n)
  let ?s = "with_prio s ((prio s)(x := eff s x))"
  have nx: "\<not> waits_for s x x" using waits_for_target [OF Suc.prems(1)] by blast
  have ex: "prio ?s x = eff ?s x" by (simp add: eff_other [OF nx])
  have other: "prio ?s y = eff ?s y" if "y \<in> registered s" "y \<noteq> x" "\<not> waits_for s x y" for y
    using that Suc.prems(3) by (simp add: eff_other)
  have le: "eff s y \<le> prio s y" if "y \<in> registered s" for y
    using that Suc.prems(3,4) by (cases "y = x") auto
  show ?case
  proof (cases "upstream s x")
    case None
    then have "\<not> waits_for s x y" for y using upstream_iff [OF Suc.prems(1,2)] by auto
    with ex other have "inherit_inv ?s" by (auto simp: inherit_inv_def)
    then show ?thesis using None by (simp add: recompute_loop_step Let_def)
  next
    case (Some z)
    then have w: "waits_for s x z" using upstream_iff [OF Suc.prems(1,2)] by simp
    have z: "z \<in> registered s" "z \<noteq> x" using waits_for_target [OF Suc.prems(1) w] by auto
    have "inherit_inv (recompute_loop n (Some z) ?s)"
    proof (cases "prio s x = eff s x")
      case True
      then have s: "?s = s" by (simp add: fun_upd_idem)
      have all: "inherit_inv s" using Suc.prems(3) True by (auto simp: inherit_inv_def)
      then show ?thesis unfolding s by (simp add: recompute_loop_idle [OF all Suc.prems(1) z(1)])
    next
      case False
      then have acyclic: "\<not> (waits_for s)\<^sup>+\<^sup>+ x x"
        using on_cycle_not_high [OF le Suc.prems(1)] Suc.prems(4) by (auto dest: antisym)
      have zD: "z \<notin> insert x D"
        using acyclic z(2) Suc.prems(6) w by (auto intro: tranclp_into_tranclp2)
      have rest: "prio ?s y = eff ?s y" if "y \<in> registered s" "y \<noteq> z" for y
        using that ex other waits_for_unique [OF w] by (cases "y = x") auto
      have lez: "eff ?s z \<le> prio ?s z"
        using eff_lowered [OF Suc.prems(4), of z] le [OF z(1)] z(2) by (auto intro: order_trans)
      have reach: "(waits_for s)\<^sup>+\<^sup>+ y z" if "y \<in> insert x D" for y
        using that w Suc.prems(6) by (auto intro: tranclp.trancl_into_trancl)
      have wf: "waits_for ?s = waits_for s" by (simp add: fun_eq_iff)
      have "card (insert x D) = Suc (card D)"
        using Suc.prems(5,7) by (simp add: finite_subset)
      then show ?thesis
        by (intro Suc.IH [where D = "insert x D"])
           (use Suc.prems z zD lez rest reach in \<open>auto simp: wf\<close>)
    qed
    then show ?thesis using Some by (simp add: recompute_loop_step Let_def)
  qed
qed

lemma inherit_chain_establishes:
  assumes "mutex_waits_ok s" and "x \<in> registered s"
    and "\<And>y. y \<in> registered s \<Longrightarrow> y \<noteq> x \<Longrightarrow> prio s y = eff s y"
    and "eff s x = max (prio s x) d"
  shows "inherit_inv (fr_mutex_inherit_priority_chain_locked (Some x) d s)"
  unfolding fr_mutex_inherit_priority_chain_locked_def fr_task_internal_count_def
  by (rule inherit_loop_establishes [where D = "{}"]) (use assms in auto)

lemma recompute_chain_establishes:
  assumes "mutex_waits_ok s" and "x \<in> registered s"
    and "\<And>y. y \<in> registered s \<Longrightarrow> y \<noteq> x \<Longrightarrow> prio s y = eff s y" and "eff s x \<le> prio s x"
  shows "inherit_inv (fr_mutex_recompute_priority_chain_locked (Some x) s)"
  unfolding fr_mutex_recompute_priority_chain_locked_def fr_task_internal_count_def
  by (rule recompute_loop_establishes [where D = "{}"]) (use assms in auto)

end
