(* ===== verification/Scheduler.thy ===== *)
theory Scheduler
  imports Inheritance
begin

text \<open>
  The scheduler (\<open>kernel/scheduler.c\<close>): selection of the next task, blocking and waking, expiry of
  timed waits on each tick, the context switch that PendSV performs, and the start of the first
  task.

  A context switch is requested by pending PendSV and happens later, when the exception is taken
  (\<open>fr_scheduler_switch_from_isr\<close>); a call that blocks therefore leaves the caller as the current
  task in state BLOCKED until the switch.
\<close>


section \<open>Stack pointer check\<close>

definition fr_scheduler_saved_sp_valid :: "task_ptr option \<Rightarrow> u32 \<Rightarrow> kernel \<Rightarrow> bool" where
  "fr_scheduler_saved_sp_valid task sp s =
     (case task of
        None \<Rightarrow> False
      | Some p \<Rightarrow>
          if stack_base (tcb s p) = 0 \<or> stack_top (tcb s p) = 0 \<or> sp = 0 then False
          else sp \<ge> stack_base (tcb s p) \<and> sp \<le> stack_top (tcb s p) \<and> sp AND 7 = 0)"


section \<open>Selection\<close>

definition select_highest_step :: "kernel \<Rightarrow> nat \<Rightarrow> task_ptr option \<Rightarrow> task_ptr option" where
  "select_highest_step s i selected =
     (case fr_task_internal_at i s of
        None \<Rightarrow> selected
      | Some task \<Rightarrow>
          if task_state (tcb s task) \<noteq> STATE_READY then selected
          else (case selected of
                  None \<Rightarrow> Some task
                | Some sel \<Rightarrow> if priority (tcb s task) > priority (tcb s sel) then Some task else selected))"

definition fr_scheduler_select_highest_ready :: "kernel \<Rightarrow> task_ptr option" where
  "fr_scheduler_select_highest_ready s =
     fold (select_highest_step s) [0..<unat (fr_task_internal_count s)] None"

text \<open>One round of the round-robin loop; \<open>n\<close> is the task count and \<open>start\<close> the current index.\<close>

definition select_next_step ::
    "kernel \<Rightarrow> task_ptr \<Rightarrow> nat \<Rightarrow> nat \<Rightarrow> nat \<Rightarrow> task_ptr option \<Rightarrow> task_ptr option" where
  "select_next_step s current_task n start offset selected =
     (let index = start + offset;
          index = (if index \<ge> n then index - n else index)
      in case fr_task_internal_at index s of
           None \<Rightarrow> selected
         | Some candidate \<Rightarrow>
             if task_state (tcb s candidate) \<noteq> STATE_READY then selected
             else (case selected of
                     None \<Rightarrow> Some candidate
                   | Some sel \<Rightarrow>
                       if priority (tcb s candidate) > priority (tcb s sel) \<or>
                          (priority (tcb s candidate) = priority (tcb s sel) \<and> sel = current_task)
                       then Some candidate else selected))"

definition fr_scheduler_select_next :: "task_ptr option \<Rightarrow> kernel \<Rightarrow> task_ptr option" where
  "fr_scheduler_select_next current s =
     (case current of
        None \<Rightarrow> None
      | Some IdleTask \<Rightarrow>
          (case fr_scheduler_select_highest_ready s of
             Some ready_task \<Rightarrow> Some ready_task | None \<Rightarrow> Some IdleTask)
      | Some current_task \<Rightarrow>
          if task_state (tcb s current_task) \<noteq> STATE_RUNNING \<and>
             task_state (tcb s current_task) \<noteq> STATE_BLOCKED then None
          else let n = unat (fr_task_internal_count s)
               in case find (\<lambda>i. fr_task_internal_at i s = Some current_task) [0..<n] of
                    None \<Rightarrow> None
                  | Some current_index \<Rightarrow>
                      let selected = (if task_state (tcb s current_task) = STATE_RUNNING
                                      then Some current_task else None);
                          selected = fold (select_next_step s current_task n current_index)
                                       [1..<n] selected
                      in (case selected of Some p \<Rightarrow> Some p | None \<Rightarrow> Some IdleTask))"

definition fr_scheduler_is_running :: "kernel \<Rightarrow> bool" where
  "fr_scheduler_is_running s = g_fr_scheduler_running s"

definition fr_scheduler_current_task :: "kernel \<Rightarrow> task_ptr option" where
  "fr_scheduler_current_task s =
     (let current_task = g_fr_scheduler_current_task s
      in if current_task = Some IdleTask then None else current_task)"

definition fr_scheduler_request_if_needed_locked :: "kernel \<Rightarrow> kernel" where
  "fr_scheduler_request_if_needed_locked s =
     (if \<not> g_fr_scheduler_running s then s
      else let current_task = g_fr_scheduler_current_task s
           in if current_task = None then s
              else let next_task = fr_scheduler_select_next current_task s
                   in if next_task \<noteq> None \<and> next_task \<noteq> current_task
                      then fr_port_request_context_switch s else s)"


section \<open>Blocking and waking\<close>

definition fr_scheduler_block_current_locked ::
    "fr_wait_reason \<Rightarrow> u32 \<Rightarrow> u32 \<Rightarrow> kernel \<Rightarrow> bool outcome" where
  "fr_scheduler_block_current_locked reason wobj timeout_ticks s =
     (let object_wait = (reason = WAIT_SYNC \<or> reason = WAIT_MUTEX \<or> reason = WAIT_QUEUE_SEND \<or>
                         reason = WAIT_QUEUE_RECEIVE \<or> reason = WAIT_EVENT_FLAGS)
      in if (reason \<noteq> WAIT_SLEEP \<and> \<not> object_wait) \<or> (reason = WAIT_SLEEP \<and> wobj \<noteq> 0) \<or>
            (object_wait \<and> wobj = 0) \<or> timeout_ticks = 0 \<or>
            (timeout_ticks > FR_WAIT_MAX_FINITE_TICKS \<and> timeout_ticks \<noteq> FR_WAIT_FOREVER)
         then Ret False s
         else case g_fr_scheduler_current_task s of
                None \<Rightarrow> Ret False s
              | Some current_task \<Rightarrow>
                  if \<not> g_fr_scheduler_running s \<or> current_task = IdleTask \<or>
                     task_state (tcb s current_task) \<noteq> STATE_RUNNING
                  then Ret False s
                  else let s = upd_task current_task (\<lambda>t. t\<lparr>wait_object := wobj, wait_reason := reason,
                                 wait_result := RESULT_PENDING\<rparr>) s;
                           s = (if timeout_ticks = FR_WAIT_FOREVER
                                then upd_task current_task (\<lambda>t. t\<lparr>wait_has_deadline := False,
                                       wait_deadline := 0\<rparr>) s
                                else upd_task current_task (\<lambda>t. t\<lparr>wait_has_deadline := True,
                                       wait_deadline := fr_tick_now s + timeout_ticks\<rparr>) s);
                           s = upd_task current_task (\<lambda>t. t\<lparr>task_state := STATE_BLOCKED\<rparr>) s
                       in FR_ASSERT (wait_reason (tcb s current_task) \<noteq> WAIT_NONE)
                            ''current_task->wait_reason != FR_WAIT_REASON_NONE''
                            ''kernel/scheduler.c'' 416 s (\<lambda>s.
                          FR_ASSERT (wait_result (tcb s current_task) = RESULT_PENDING)
                            ''current_task->wait_result == FR_WAIT_RESULT_PENDING''
                            ''kernel/scheduler.c'' 417 s (\<lambda>s.
                          FR_ASSERT (task_state (tcb s current_task) = STATE_BLOCKED)
                            ''current_task->state == FR_TASK_STATE_BLOCKED''
                            ''kernel/scheduler.c'' 418 s (\<lambda>s.
                          let s = fr_trace_record_locked EVENT_TASK_BLOCK (task_id (tcb s current_task))
                                    (wait_reason_code reason) timeout_ticks s;
                              s = fr_port_request_context_switch s
                          in Ret True s))))"

definition fr_scheduler_unblock_task_locked ::
    "task_ptr option \<Rightarrow> fr_wait_result \<Rightarrow> kernel \<Rightarrow> bool outcome" where
  "fr_scheduler_unblock_task_locked task_opt result s =
     (case task_opt of
        None \<Rightarrow> Ret False s
      | Some task \<Rightarrow>
          if task_state (tcb s task) \<noteq> STATE_BLOCKED \<or> wait_reason (tcb s task) = WAIT_NONE \<or>
             (result \<noteq> RESULT_TIMEOUT \<and> result \<noteq> RESULT_SIGNALED)
          then Ret False s
          else let completed_reason = wait_reason (tcb s task);
                   completed_deadline = wait_deadline (tcb s task);
                   s = (if result = RESULT_TIMEOUT
                        then fr_trace_record_locked EVENT_TASK_TIMEOUT (task_id (tcb s task))
                               (wait_reason_code completed_reason) completed_deadline s
                        else s);
                   s = upd_task task (\<lambda>t. t\<lparr>wait_result := result, wait_reason := WAIT_NONE,
                         wait_object := 0, wait_has_deadline := False, wait_deadline := 0,
                         wait_flags_mask := 0, wait_flags_all := False,
                         wait_flags_clear_on_exit := False\<rparr>) s;
                   s = (if Some task = g_fr_scheduler_current_task s
                        then upd_task task (\<lambda>t. t\<lparr>task_state := STATE_RUNNING\<rparr>) s
                        else upd_task task (\<lambda>t. t\<lparr>task_state := STATE_READY\<rparr>) s)
               in FR_ASSERT (wait_reason (tcb s task) = WAIT_NONE)
                    ''task->wait_reason == FR_WAIT_REASON_NONE'' ''kernel/scheduler.c'' 466 s (\<lambda>s.
                  FR_ASSERT (wait_object (tcb s task) = 0)
                    ''task->wait_object == NULL'' ''kernel/scheduler.c'' 467 s (\<lambda>s.
                  FR_ASSERT (\<not> wait_has_deadline (tcb s task))
                    ''!task->wait_has_deadline'' ''kernel/scheduler.c'' 468 s (\<lambda>s.
                  FR_ASSERT (wait_deadline (tcb s task) = 0)
                    ''task->wait_deadline == 0u'' ''kernel/scheduler.c'' 469 s (\<lambda>s.
                  FR_ASSERT (task_state (tcb s task) = STATE_RUNNING \<or> task_state (tcb s task) = STATE_READY)
                    ''(task->state == FR_TASK_STATE_RUNNING) || (task->state == FR_TASK_STATE_READY)''
                    ''kernel/scheduler.c'' 470 s (\<lambda>s.
                  Ret True (fr_trace_record_locked EVENT_TASK_UNBLOCK (task_id (tcb s task))
                    (wait_reason_code completed_reason) (wait_result_code result) s)))))))"

definition select_waiter_step :: "fr_wait_reason \<Rightarrow> u32 \<Rightarrow> kernel \<Rightarrow> nat \<Rightarrow> task_ptr option \<Rightarrow> task_ptr option" where
  "select_waiter_step reason wobj s i selected =
     (case fr_task_internal_at i s of
        None \<Rightarrow> selected
      | Some task \<Rightarrow>
          let t = tcb s task
          in if task_state t \<noteq> STATE_BLOCKED \<or> wait_reason t \<noteq> reason \<or>
                wait_result t \<noteq> RESULT_PENDING \<or> wait_object t \<noteq> wobj then selected
             else (case selected of
                     None \<Rightarrow> Some task
                   | Some sel \<Rightarrow> if priority t > priority (tcb s sel) then Some task else selected))"

definition fr_scheduler_select_waiter_locked ::
    "fr_wait_reason \<Rightarrow> u32 \<Rightarrow> kernel \<Rightarrow> task_ptr option" where
  "fr_scheduler_select_waiter_locked reason wobj s =
     (if wobj = 0 \<or> (reason \<noteq> WAIT_SYNC \<and> reason \<noteq> WAIT_MUTEX \<and> reason \<noteq> WAIT_QUEUE_SEND \<and>
                      reason \<noteq> WAIT_QUEUE_RECEIVE) then None
      else fold (select_waiter_step reason wobj s) [0..<unat (fr_task_internal_count s)] None)"


section \<open>Ticks\<close>

text \<open>The body of the expiry loop for one registry index.\<close>

definition expire_step :: "u32 \<Rightarrow> nat \<Rightarrow> kernel \<Rightarrow> unit outcome" where
  "expire_step now i s =
     (case fr_task_internal_at i s of
        None \<Rightarrow> Ret () s
      | Some task \<Rightarrow>
          if task_state (tcb s task) \<noteq> STATE_BLOCKED \<or> \<not> wait_has_deadline (tcb s task) then Ret () s
          else if \<not> fr_tick_deadline_reached now (wait_deadline (tcb s task)) then Ret () s
          else let deadline = wait_deadline (tcb s task);
                   expired_reason = wait_reason (tcb s task);
                   expired_object = wait_object (tcb s task)
               in and_then (fr_scheduler_unblock_task_locked (Some task) RESULT_TIMEOUT s)
                    (\<lambda>ok s. if \<not> ok then Ret () s
                       else let s = (if expired_reason = WAIT_MUTEX \<and> expired_object \<noteq> 0
                                     then fr_mutex_waiter_removed_locked expired_object s else s)
                            in Ret () (s\<lparr>g_fr_scheduler_timeout_count := g_fr_scheduler_timeout_count s + 1,
                                 g_fr_scheduler_last_timeout_task_id := task_id (tcb s task),
                                 g_fr_scheduler_last_timeout_tick := now,
                                 g_fr_scheduler_last_timeout_deadline := deadline\<rparr>)))"

fun expire_loop :: "u32 \<Rightarrow> nat list \<Rightarrow> kernel \<Rightarrow> unit outcome" where
  "expire_loop now [] s = Ret () s"
| "expire_loop now (i # is) s = and_then (expire_step now i s) (\<lambda>_ s. expire_loop now is s)"

definition fr_scheduler_expire_timeouts :: "u32 \<Rightarrow> kernel \<Rightarrow> unit outcome" where
  "fr_scheduler_expire_timeouts now s =
     expire_loop now [0..<unat (fr_task_internal_count s)] s"

definition fr_scheduler_tick_isr :: "kernel \<Rightarrow> unit outcome" where
  "fr_scheduler_tick_isr s =
     (if \<not> g_fr_scheduler_running s then Ret () s
      else and_then (fr_scheduler_expire_timeouts (fr_tick_now s) s)
        (\<lambda>_ s. let current_task = g_fr_scheduler_current_task s
               in if current_task = None then Ret () s
                  else let next_task = fr_scheduler_select_next current_task s
                       in if next_task \<noteq> None \<and> next_task \<noteq> current_task
                          then Ret () (fr_port_request_context_switch s) else Ret () s))"

definition SysTick_Handler :: "kernel \<Rightarrow> unit outcome" where
  "SysTick_Handler s = fr_scheduler_tick_isr (fr_kernel_tick_isr s)"


section \<open>Context switch, yield, sleep\<close>

definition fr_scheduler_current_saved_sp :: "kernel \<Rightarrow> u32" where
  "fr_scheduler_current_saved_sp s =
     (case g_fr_scheduler_current_task s of Some p \<Rightarrow> saved_sp (tcb s p) | None \<Rightarrow> 0)"

definition fr_scheduler_switch_from_isr :: "u32 \<Rightarrow> kernel \<Rightarrow> u32 outcome" where
  "fr_scheduler_switch_from_isr current_saved_sp s =
     (if current_saved_sp = 0 then Ret 0 s
      else let (critical_state, s) = fr_critical_enter s
           in case g_fr_scheduler_current_task s of
                None \<Rightarrow> Ret 0 (fr_critical_exit critical_state s)
              | Some current_task \<Rightarrow>
                  if \<not> g_fr_scheduler_running s \<or>
                     (task_state (tcb s current_task) \<noteq> STATE_RUNNING \<and>
                      task_state (tcb s current_task) \<noteq> STATE_BLOCKED)
                  then Ret 0 (fr_critical_exit critical_state s)
                  else FR_ASSERT (fr_scheduler_saved_sp_valid (Some current_task) current_saved_sp s)
                    ''fr_scheduler_saved_sp_valid(current_task, current_saved_sp)''
                    ''kernel/scheduler.c'' 319 s (\<lambda>s.
                    let s = upd_task current_task (\<lambda>t. t\<lparr>saved_sp := current_saved_sp\<rparr>) s
                    in case fr_scheduler_select_next (Some current_task) s of
                         None \<Rightarrow> Ret 0 (fr_critical_exit critical_state s)
                       | Some next_task \<Rightarrow>
                           FR_ASSERT (fr_scheduler_saved_sp_valid (Some next_task) (saved_sp (tcb s next_task)) s)
                             ''fr_scheduler_saved_sp_valid(next_task, next_task->saved_sp)''
                             ''kernel/scheduler.c'' 330 s (\<lambda>s.
                             let s = (if next_task \<noteq> current_task
                                      then let s = (if task_state (tcb s current_task) = STATE_RUNNING
                                                    then upd_task current_task (\<lambda>t. t\<lparr>task_state := STATE_READY\<rparr>) s
                                                    else s);
                                               s = upd_task next_task (\<lambda>t. t\<lparr>task_state := STATE_RUNNING\<rparr>) s;
                                               s = s\<lparr>g_fr_scheduler_current_task := Some next_task,
                                                     g_fr_scheduler_context_switch_count :=
                                                       g_fr_scheduler_context_switch_count s + 1\<rparr>
                                           in fr_trace_record_locked EVENT_CONTEXT_SWITCH (task_id (tcb s next_task))
                                                (task_id (tcb s current_task)) (task_id (tcb s next_task)) s
                                      else s)
                             in Ret (saved_sp (tcb s next_task)) (fr_critical_exit critical_state s))))"

text \<open>
  PendSV: taking the exception clears its pending bit; the handler pushes R4 to R11 below the process
  stack pointer, lets the scheduler choose, and pops the registers of the chosen task. \<open>None\<close> is the
  undefined instruction that the handler executes when the scheduler returns \<open>NULL\<close>.
\<close>

definition PendSV_Handler :: "u32 list \<Rightarrow> kernel \<Rightarrow> u32 list option outcome" where
  "PendSV_Handler r4_r11 s =
     (let s = s\<lparr>pendsv_pending := False\<rparr>;
          r0 = cpu_psp (cpu s) - 32;
          s = s\<lparr>ram := store_words (ram s) r0 r4_r11\<rparr>
      in and_then (fr_scheduler_switch_from_isr r0 s)
           (\<lambda>r0 s. if r0 = 0 then Ret None s
                   else Ret (Some (map (\<lambda>k. load32 (ram s) (word_at r0 k)) [0..<8]))
                          (s\<lparr>cpu := (cpu s)\<lparr>cpu_psp := r0 + 32\<rparr>\<rparr>)))"

text \<open>The \<open>svc\<close> of \<open>fr_port_yield\<close> pends PendSV (\<open>SVC_Handler\<close>, yield request).\<close>

definition fr_task_yield :: "kernel \<Rightarrow> kernel" where
  "fr_task_yield s =
     (let (critical_state, s) = fr_critical_enter s;
          current_task = g_fr_scheduler_current_task s;
          should_yield =
            (if g_fr_scheduler_running s \<and> current_task \<noteq> None \<and> current_task \<noteq> Some IdleTask
             then let next_task = fr_scheduler_select_next current_task s
                  in next_task \<noteq> None \<and> next_task \<noteq> current_task
             else False);
          s = fr_critical_exit critical_state s
      in if should_yield then fr_port_request_context_switch s else s)"

text \<open>
  The first half of \<open>fr_task_sleep\<close> runs up to the end of the critical section; when it has blocked
  the caller, the second half runs once the task is scheduled again and reads the wait result.
\<close>

definition fr_task_sleep :: "u32 \<Rightarrow> kernel \<Rightarrow> bool call outcome" where
  "fr_task_sleep delay_ticks s =
     (if delay_ticks = 0 \<or> delay_ticks > FR_TASK_SLEEP_MAX_TICKS then Ret (Returned False) s
      else if cpu_ipsr (cpu s) \<noteq> 0 \<or> cpu_primask (cpu s) AND 1 \<noteq> 0 \<or> cpu_faultmask (cpu s) AND 1 \<noteq> 0
      then Ret (Returned False) s
      else let (critical_state, s) = fr_critical_enter s
           in case g_fr_scheduler_current_task s of
                None \<Rightarrow> Ret (Returned False) (fr_critical_exit critical_state s)
              | Some current_task \<Rightarrow>
                  if critical_state \<noteq> 0 \<or> \<not> g_fr_scheduler_running s \<or> current_task = IdleTask \<or>
                     task_state (tcb s current_task) \<noteq> STATE_RUNNING
                  then Ret (Returned False) (fr_critical_exit critical_state s)
                  else and_then (fr_scheduler_block_current_locked WAIT_SLEEP 0 delay_ticks s)
                    (\<lambda>blocked s. Ret (if blocked then Suspended else Returned False)
                                   (fr_critical_exit critical_state s)))"

definition fr_task_sleep_resume :: "task_ptr \<Rightarrow> kernel \<Rightarrow> bool" where
  "fr_task_sleep_resume current_task s = (wait_result (tcb s current_task) = RESULT_TIMEOUT)"


section \<open>Starting\<close>

definition fr_scheduler_initialize_idle :: "kernel \<Rightarrow> unit outcome" where
  "fr_scheduler_initialize_idle s =
     (let base = lm_idle_stack (links s);
          top_of_stack = base + 4 * FR_CONFIG_IDLE_STACK_WORDS;
          s = upd_task IdleTask (\<lambda>t. t\<lparr>stack_base := base, stack_top := top_of_stack,
                stack_size_words := FR_CONFIG_IDLE_STACK_WORDS, entry := lm_idle_entry (links s),
                argument := 0, task_id := 0, priority := 0, base_priority := 0\<rparr>) s;
          (sp, s) = fr_port_task_stack_init (stack_top (tcb s IdleTask)) (entry (tcb s IdleTask))
                      (argument (tcb s IdleTask)) s;
          s = upd_task IdleTask (\<lambda>t. t\<lparr>saved_sp := sp\<rparr>) s
      in FR_ASSERT (fr_scheduler_saved_sp_valid (Some IdleTask) (saved_sp (tcb s IdleTask)) s)
           ''fr_scheduler_saved_sp_valid(idle, idle->saved_sp)'' ''kernel/scheduler.c'' 94 s (\<lambda>s.
         Ret () (upd_task IdleTask (\<lambda>t. t\<lparr>wait_deadline := 0, wait_object := 0, wait_reason := WAIT_NONE,
           wait_result := RESULT_PENDING, wait_has_deadline := False, wait_flags_mask := 0,
           wait_flags_result := 0, wait_flags_all := False, wait_flags_clear_on_exit := False,
           task_state := STATE_READY\<rparr>) s)))"

text \<open>
  \<open>fr_port_start_first_task\<close> raises the SVC that loads the first task's context: R4 to R11 come from its
  stack, PSP moves past them, CONTROL selects PSP, and BASEPRI gets the value saved by the
  caller's critical section. The first component holds the loaded registers; without a saved stack pointer
  (\<open>cbz r0\<close>) the handler traps and it is \<open>None\<close>.
\<close>

definition svc_start_first :: "u32 \<Rightarrow> kernel \<Rightarrow> u32 list option \<times> kernel" where
  "svc_start_first basepri_to_restore s =
     (let r0 = fr_scheduler_current_saved_sp s
      in if r0 = 0 then (None, s)
         else (Some (map (\<lambda>k. load32 (ram s) (word_at r0 k)) [0..<8]),
               s\<lparr>cpu := (cpu s)\<lparr>cpu_psp := r0 + 32, cpu_control := cpu_control (cpu s) OR 2,
                               cpu_basepri := basepri_to_restore\<rparr>\<rparr>))"

definition fr_port_start_first_task :: "u32 \<Rightarrow> kernel \<Rightarrow> u32 list option \<times> kernel" where
  "fr_port_start_first_task basepri_to_restore s = svc_start_first basepri_to_restore s"

text \<open>\<open>None\<close> means that the call does not return: the processor runs the first task.\<close>

definition fr_scheduler_start :: "kernel \<Rightarrow> fr_scheduler_status option outcome" where
  "fr_scheduler_start s =
     (let (critical_state, s) = fr_critical_enter s
      in if g_fr_scheduler_running s
         then Ret (Some SCHEDULER_ERROR_ALREADY_RUNNING) (fr_critical_exit critical_state s)
         else and_then (fr_scheduler_initialize_idle s) (\<lambda>_ s.
           let first_task = (case fr_scheduler_select_highest_ready s of
                               Some p \<Rightarrow> p | None \<Rightarrow> IdleTask)
           in FR_ASSERT (Some first_task \<noteq> None) ''first_task != NULL'' ''kernel/scheduler.c'' 205 s (\<lambda>s.
              FR_ASSERT (fr_scheduler_saved_sp_valid (Some first_task) (saved_sp (tcb s first_task)) s)
                ''fr_scheduler_saved_sp_valid(first_task, first_task->saved_sp)''
                ''kernel/scheduler.c'' 206 s (\<lambda>s.
              let s = fr_port_scheduler_init s;
                  s = upd_task first_task (\<lambda>t. t\<lparr>task_state := STATE_RUNNING\<rparr>) s;
                  s = s\<lparr>g_fr_scheduler_current_task := Some first_task,
                        g_fr_scheduler_context_switch_count := 0, g_fr_scheduler_running := True,
                        g_fr_scheduler_timeout_count := 0, g_fr_scheduler_last_timeout_task_id := 0,
                        g_fr_scheduler_last_timeout_tick := 0, g_fr_scheduler_last_timeout_deadline := 0\<rparr>;
                  s = fr_trace_record_locked EVENT_SCHEDULER_START (task_id (tcb s first_task))
                        (fr_task_internal_count s) (ucast (priority (tcb s first_task))) s
              in Ret None (snd (fr_port_start_first_task critical_state s))))))"


section \<open>Selection, abstractly\<close>

text \<open>A registry scan over slot indices is a scan over the pool slots.\<close>

definition scan_at :: "(kernel \<Rightarrow> nat \<Rightarrow> task_ptr option \<Rightarrow> task_ptr option) \<Rightarrow>
    kernel \<Rightarrow> task_ptr \<Rightarrow> task_ptr option \<Rightarrow> task_ptr option" where
  "scan_at step s p selected = (case p of Pool i \<Rightarrow> step s i selected | IdleTask \<Rightarrow> selected)"

definition registry :: "kernel \<Rightarrow> task_ptr list" where
  "registry s = map Pool [0..<unat (g_fr_task_count s)]"

lemma set_registry [simp]: "set (registry s) = registered s"
  by (simp add: registry_def registered_def atLeast0LessThan)

lemma fold_scan_at: "fold (step s) is sel = fold (scan_at step s) (map Pool is) sel"
  by (induction "is" arbitrary: sel) (simp_all add: scan_at_def)

definition ready :: "kernel \<Rightarrow> task_ptr \<Rightarrow> bool" where
  "ready s p \<longleftrightarrow> p \<in> registered s \<and> task_state (tcb s p) = STATE_READY"

definition waiting :: "fr_wait_reason \<Rightarrow> u32 \<Rightarrow> kernel \<Rightarrow> task_ptr \<Rightarrow> bool" where
  "waiting reason wobj s p \<longleftrightarrow> p \<in> registered s \<and> task_state (tcb s p) = STATE_BLOCKED \<and>
     wait_reason (tcb s p) = reason \<and> wait_result (tcb s p) = RESULT_PENDING \<and>
     wait_object (tcb s p) = wobj"

text \<open>The tie-breaking order of \<open>fr_scheduler_select_next\<close>: among equal priorities the current task is last.\<close>

definition turn_key :: "task_ptr \<Rightarrow> kernel \<Rightarrow> task_ptr \<Rightarrow> nat" where
  "turn_key c s p = 2 * unat (priority (tcb s p)) + (if p = c then 0 else 1)"

interpretation highest_scan: priority_scan ready prio "scan_at select_highest_step"
  by unfold_locales
    (auto simp: scan_at_def select_highest_step_def ready_def prio_def fr_task_internal_at_def
       split: task_ptr.splits option.splits)

interpretation waiter_scan: priority_scan "waiting reason wobj" prio "scan_at (select_waiter_step reason wobj)"
  for reason wobj
  by unfold_locales
    (auto simp: scan_at_def select_waiter_step_def waiting_def prio_def fr_task_internal_at_def Let_def
       split: task_ptr.splits option.splits)

text \<open>One round of the round-robin loop, at the slot it looks at.\<close>

definition next_at :: "task_ptr \<Rightarrow> kernel \<Rightarrow> nat \<Rightarrow> task_ptr option \<Rightarrow> task_ptr option" where
  "next_at c s i selected = select_next_step s c (Suc i) 0 i selected"

interpretation next_scan: priority_scan ready "turn_key c" "scan_at (next_at c)" for c
  by unfold_locales
    (auto simp: scan_at_def next_at_def select_next_step_def ready_def turn_key_def
       fr_task_internal_at_def Let_def word_less_nat_alt word_unat_eq_iff
       split: task_ptr.splits option.splits)

lemma select_next_step_at:
  "select_next_step s c n start off = next_at c s (if start + off \<ge> n then start + off - n else start + off)"
  by (simp add: fun_eq_iff next_at_def select_next_step_def Let_def)

text \<open>The slots in the order of the round-robin loop: after \<open>k\<close>, wrapping around, without \<open>k\<close>.\<close>

definition turn_order :: "kernel \<Rightarrow> nat \<Rightarrow> task_ptr list" where
  "turn_order s k = map (\<lambda>off. Pool ((k + off) mod unat (g_fr_task_count s))) [1..<unat (g_fr_task_count s)]"

lemma set_turn_order:
  assumes "k < unat (g_fr_task_count s)"
  shows "set (turn_order s k) = registered s - {Pool k}"
proof -
  let ?n = "unat (g_fr_task_count s)"
  have "\<exists>off. 1 \<le> off \<and> off < ?n \<and> i = (k + off) mod ?n" if "i < ?n" "i \<noteq> k" for i
  proof (cases "k < i")
    case True
    with that show ?thesis by (intro exI [of _ "i - k"]) auto
  next
    case False
    with that assms show ?thesis by (intro exI [of _ "?n + i - k"]) auto
  qed
  moreover have "(k + off) mod ?n \<noteq> k" if "1 \<le> off" "off < ?n" for off
    using that assms by (cases "k + off < ?n") (auto simp: mod_if)
  ultimately show ?thesis
    using assms by (auto simp: turn_order_def registered_def image_iff) (metis One_nat_def atLeastLessThan_iff)
qed

lemma distinct_turn_order:
  assumes "k < unat (g_fr_task_count s)"
  shows "distinct (turn_order s k)"
proof -
  let ?n = "unat (g_fr_task_count s)"
  have "card (set (turn_order s k)) = ?n - 1"
    using assms by (simp add: set_turn_order card_Diff_singleton card_registered)
  then show ?thesis by (intro card_distinct) (simp add: turn_order_def)
qed

lemma find_current:
  assumes "k < unat (g_fr_task_count s)"
  shows "find (\<lambda>i. fr_task_internal_at i s = Some (Pool k)) [0..<unat (g_fr_task_count s)] = Some k"
  unfolding find_Some_iff
  using assms by (intro exI [of _ k]) (auto simp: fr_task_internal_at_def)

lemma select_next_fold:
  assumes "k < unat (g_fr_task_count s)"
    and "task_state (tcb s (Pool k)) = STATE_RUNNING \<or> task_state (tcb s (Pool k)) = STATE_BLOCKED"
  shows "fr_scheduler_select_next (Some (Pool k)) s =
     (case fold (scan_at (next_at (Pool k)) s) (turn_order s k)
             (if task_state (tcb s (Pool k)) = STATE_RUNNING then Some (Pool k) else None)
      of Some p \<Rightarrow> Some p | None \<Rightarrow> Some IdleTask)"
proof -
  let ?n = "unat (g_fr_task_count s)"
  have "fold (select_next_step s (Pool k) ?n k) [1..<?n] sel =
        fold (scan_at (next_at (Pool k)) s) (turn_order s k) sel" for sel
    unfolding turn_order_def fold_map
    by (rule fold_cong) (use assms(1) in \<open>auto simp: scan_at_def select_next_step_at mod_if fun_eq_iff\<close>)
  then show ?thesis
    using assms(2) find_current [OF assms(1)]
    by (auto simp: fr_scheduler_select_next_def fr_task_internal_count_def Let_def)
qed


lemma select_next_idle:
  "fr_scheduler_select_next (Some IdleTask) s =
     (case fr_scheduler_select_highest_ready s of Some p \<Rightarrow> Some p | None \<Rightarrow> Some IdleTask)"
  by (simp add: fr_scheduler_select_next_def)

lemma select_highest_fold:
  "fr_scheduler_select_highest_ready s = fold (scan_at select_highest_step s) (registry s) None"
  by (simp add: fr_scheduler_select_highest_ready_def fr_task_internal_count_def registry_def fold_scan_at)

lemma select_highest_None [simp]:
  "fr_scheduler_select_highest_ready s = None \<longleftrightarrow> (\<forall>p. \<not> ready s p)"
  by (auto simp: select_highest_fold highest_scan.scan_None_iff ready_def)

lemma select_highest_Some:
  assumes "fr_scheduler_select_highest_ready s = Some p"
  shows "ready s p" "\<And>q. ready s q \<Longrightarrow> prio s q \<le> prio s p"
  using highest_scan.scan_best [OF assms [unfolded select_highest_fold]]
  by (auto simp: ready_def)

lemma select_waiter_fold:
  assumes "wobj \<noteq> 0" and "reason \<in> {WAIT_SYNC, WAIT_MUTEX, WAIT_QUEUE_SEND, WAIT_QUEUE_RECEIVE}"
  shows "fr_scheduler_select_waiter_locked reason wobj s =
    fold (scan_at (select_waiter_step reason wobj) s) (registry s) None"
  using assms
  by (auto simp: fr_scheduler_select_waiter_locked_def fr_task_internal_count_def registry_def
      fold_scan_at [of "select_waiter_step reason wobj"])

lemma select_waiter_None:
  assumes "wobj \<noteq> 0" and "reason \<in> {WAIT_SYNC, WAIT_MUTEX, WAIT_QUEUE_SEND, WAIT_QUEUE_RECEIVE}"
  shows "fr_scheduler_select_waiter_locked reason wobj s = None \<longleftrightarrow> (\<forall>p. \<not> waiting reason wobj s p)"
  by (auto simp: select_waiter_fold [OF assms] waiter_scan.scan_None_iff waiting_def)

lemma select_waiter_Some:
  assumes "fr_scheduler_select_waiter_locked reason wobj s = Some p"
  shows "waiting reason wobj s p" "\<And>q. waiting reason wobj s q \<Longrightarrow> prio s q \<le> prio s p" "wobj \<noteq> 0"
proof -
  have ok: "wobj \<noteq> 0" "reason \<in> {WAIT_SYNC, WAIT_MUTEX, WAIT_QUEUE_SEND, WAIT_QUEUE_RECEIVE}"
    using assms by (auto simp: fr_scheduler_select_waiter_locked_def split: if_splits)
  note best = waiter_scan.scan_best [OF assms [unfolded select_waiter_fold [OF ok]]]
  show "waiting reason wobj s p" by (rule best(2))
  show "\<And>q. waiting reason wobj s q \<Longrightarrow> prio s q \<le> prio s p"
    using best(3) by (auto simp: waiting_def)
  show "wobj \<noteq> 0" by (rule ok(1))
qed

lemma turn_key_le: "turn_key c s q \<le> turn_key c s p \<Longrightarrow> prio s q \<le> prio s p"
  by (auto simp: turn_key_def prio_def word_le_nat_alt split: if_splits)

lemma turn_key_current: "p \<noteq> c \<Longrightarrow> turn_key c s p \<le> turn_key c s c \<longleftrightarrow> prio s p < prio s c"
  by (auto simp: turn_key_def prio_def word_less_nat_alt)

lemma turn_key_less: "turn_key c s q < turn_key c s p \<Longrightarrow> q \<noteq> c \<Longrightarrow> prio s q < prio s p"
  by (auto simp: turn_key_def prio_def word_less_nat_alt split: if_splits)

text \<open>A running task keeps the processor exactly when every ready task has a lower priority.\<close>

lemma select_next_running:
  assumes "Pool k \<in> registered s" and "task_state (tcb s (Pool k)) = STATE_RUNNING"
    and "fr_scheduler_select_next (Some (Pool k)) s = Some p"
  shows "p = Pool k \<or> ready s p" "\<And>q. ready s q \<Longrightarrow> prio s q \<le> prio s p"
    "p = Pool k \<longleftrightarrow> (\<forall>q. ready s q \<longrightarrow> prio s q < prio s (Pool k))"
    "prio s (Pool k) \<le> prio s p"
proof -
  let ?c = "Pool k" and ?xs = "turn_order s k"
  have k: "k < unat (g_fr_task_count s)" using assms(1) by simp
  have nr: "\<not> ready s ?c" using assms(2) by (simp add: ready_def)
  have f: "fold (scan_at (next_at ?c) s) ?xs (Some ?c) = Some p"
    using assms next_scan.scan_Some_not_None [of ?c s ?xs ?c]
    by (auto simp: select_next_fold [OF k] split: option.splits)
  note best = next_scan.scan_from_Some [OF f]
  have set: "q \<in> set ?xs" if "ready s q" for q
    using that nr by (auto simp: set_turn_order [OF k] ready_def)
  have le: "turn_key ?c s q \<le> turn_key ?c s p" if "ready s q" for q
    using best set that by blast
  show p: "p = ?c \<or> ready s p" using best by blast
  show "prio s q \<le> prio s p" if "ready s q" for q
    using turn_key_le [OF le [OF that]] .
  show "prio s ?c \<le> prio s p" using best turn_key_le [of ?c s ?c p] by blast
  show "p = ?c \<longleftrightarrow> (\<forall>q. ready s q \<longrightarrow> prio s q < prio s ?c)"
  proof
    assume "p = ?c"
    then show "\<forall>q. ready s q \<longrightarrow> prio s q < prio s ?c"
      using le nr turn_key_current [of _ ?c s] by metis
  next
    assume "\<forall>q. ready s q \<longrightarrow> prio s q < prio s ?c"
    then show "p = ?c" using p \<open>prio s ?c \<le> prio s p\<close> by (meson leD)
  qed
qed

lemma select_next_blocked:
  assumes "Pool k \<in> registered s" and "task_state (tcb s (Pool k)) = STATE_BLOCKED"
    and "fr_scheduler_select_next (Some (Pool k)) s = Some p"
  shows "p = IdleTask \<and> (\<forall>q. \<not> ready s q) \<or> ready s p \<and> (\<forall>q. ready s q \<longrightarrow> prio s q \<le> prio s p)"
proof -
  let ?c = "Pool k" and ?xs = "turn_order s k"
  have k: "k < unat (g_fr_task_count s)" using assms(1) by simp
  have nr: "\<not> ready s ?c" using assms(2) by (simp add: ready_def)
  have set: "q \<in> set ?xs" if "ready s q" for q
    using that nr by (auto simp: set_turn_order [OF k] ready_def)
  show ?thesis
  proof (cases "fold (scan_at (next_at ?c) s) ?xs None")
    case None
    then have "p = IdleTask" using assms by (auto simp: select_next_fold [OF k])
    with None set show ?thesis by (auto simp: next_scan.scan_None_iff)
  next
    case (Some z)
    then have "p = z" using assms by (auto simp: select_next_fold [OF k])
    with next_scan.scan_best [OF Some] set turn_key_le show ?thesis by blast
  qed
qed

lemma select_next_total:
  assumes "c = IdleTask \<or> c \<in> registered s \<and>
    (task_state (tcb s c) = STATE_RUNNING \<or> task_state (tcb s c) = STATE_BLOCKED)"
  obtains p where "fr_scheduler_select_next (Some c) s = Some p" "p = c \<or> p = IdleTask \<or> ready s p"
proof (cases c)
  case IdleTask
  then show ?thesis
    using that select_highest_Some(1) [of s]
    by (cases "fr_scheduler_select_highest_ready s") (auto simp: select_next_idle)
next
  case (Pool k)
  then have k: "k < unat (g_fr_task_count s)" using assms by auto
  then have "fr_scheduler_select_next (Some c) s \<noteq> None"
    using assms Pool by (auto simp: select_next_fold split: option.splits)
  then obtain p where "fr_scheduler_select_next (Some c) s = Some p" by blast
  with assms Pool select_next_running(1) select_next_blocked show ?thesis
    by (intro that [of p]) (auto, blast+)
qed


text \<open>
  Among the ready tasks of the highest priority the loop takes the first one after the current task
  in cyclic registry order.
\<close>

lemma select_next_first:
  assumes "Pool k \<in> registered s"
    and "task_state (tcb s (Pool k)) = STATE_RUNNING \<or> task_state (tcb s (Pool k)) = STATE_BLOCKED"
    and "fr_scheduler_select_next (Some (Pool k)) s = Some z"
    and "turn_order s k = us @ z # vs" and "q \<in> set us" and "ready s q"
  shows "prio s q < prio s z"
proof -
  let ?c = "Pool k"
  have k: "k < unat (g_fr_task_count s)" using assms(1) by simp
  have dist: "distinct (us @ z # vs)" using distinct_turn_order [OF k] by (simp only: assms(4))
  have set: "set (us @ z # vs) = registered s - {?c}" using set_turn_order [OF k] by (simp only: assms(4))
  have z: "z \<notin> set us" using dist by simp
  have "q \<in> registered s - {?c}" "z \<in> registered s - {?c}"
    using assms(5) unfolding set [symmetric] by simp_all
  then have qc: "q \<noteq> ?c" "z \<noteq> ?c" "z \<noteq> IdleTask" by auto
  let ?sel = "if task_state (tcb s ?c) = STATE_RUNNING then Some ?c else None"
  have "fold (scan_at (next_at ?c) s) (us @ z # vs) ?sel = Some z"
    using assms(3) qc(3) unfolding select_next_fold [OF k assms(2)] assms(4)
    by (cases "fold (scan_at (next_at ?c) s) (us @ z # vs) ?sel") simp_all
  from next_scan.scan_first_from [OF this z _ assms(5,6)] qc
  have "turn_key ?c s q < turn_key ?c s z" by auto
  then show ?thesis by (rule turn_key_less [OF _ qc(1)])
qed


section \<open>Blocking and waking, abstractly\<close>

text \<open>What the two operations make of a control block.\<close>

definition sleep_task :: "fr_wait_reason \<Rightarrow> u32 \<Rightarrow> u32 \<Rightarrow> u32 \<Rightarrow> fr_task \<Rightarrow> fr_task" where
  "sleep_task reason wobj ticks now t = t\<lparr>wait_object := wobj, wait_reason := reason,
     wait_result := RESULT_PENDING, wait_has_deadline := (ticks \<noteq> FR_WAIT_FOREVER),
     wait_deadline := (if ticks = FR_WAIT_FOREVER then 0 else now + ticks),
     task_state := STATE_BLOCKED\<rparr>"

definition wake_task :: "fr_wait_result \<Rightarrow> bool \<Rightarrow> fr_task \<Rightarrow> fr_task" where
  "wake_task result is_current t = t\<lparr>wait_result := result, wait_reason := WAIT_NONE, wait_object := 0,
     wait_has_deadline := False, wait_deadline := 0, wait_flags_mask := 0, wait_flags_all := False,
     wait_flags_clear_on_exit := False,
     task_state := (if is_current then STATE_RUNNING else STATE_READY)\<rparr>"

definition suspended :: "task_ptr \<Rightarrow> fr_wait_reason \<Rightarrow> u32 \<Rightarrow> u32 \<Rightarrow> kernel \<Rightarrow> kernel" where
  "suspended p reason wobj ticks s = fr_port_request_context_switch
     (fr_trace_record_locked EVENT_TASK_BLOCK (task_id (tcb s p)) (wait_reason_code reason) ticks
        (upd_task p (sleep_task reason wobj ticks (g_fr_kernel_tick_count s)) s))"

definition woken :: "task_ptr \<Rightarrow> fr_wait_result \<Rightarrow> kernel \<Rightarrow> kernel" where
  "woken p result s =
     (let s' = (if result = RESULT_TIMEOUT
                then fr_trace_record_locked EVENT_TASK_TIMEOUT (task_id (tcb s p))
                       (wait_reason_code (wait_reason (tcb s p))) (wait_deadline (tcb s p)) s else s)
      in fr_trace_record_locked EVENT_TASK_UNBLOCK (task_id (tcb s p))
           (wait_reason_code (wait_reason (tcb s p))) (wait_result_code result)
           (upd_task p (wake_task result (g_fr_scheduler_current_task s = Some p)) s'))"

lemma sleep_task_fields [simp]:
  "task_state (sleep_task r a n w t) = STATE_BLOCKED"
  "wait_reason (sleep_task r a n w t) = r"
  "wait_object (sleep_task r a n w t) = a"
  "wait_result (sleep_task r a n w t) = RESULT_PENDING"
  "wait_has_deadline (sleep_task r a n w t) = (n \<noteq> FR_WAIT_FOREVER)"
  "wait_deadline (sleep_task r a n w t) = (if n = FR_WAIT_FOREVER then 0 else w + n)"
  "wait_flags_mask (sleep_task r a n w t) = wait_flags_mask t"
  "wait_flags_all (sleep_task r a n w t) = wait_flags_all t"
  "wait_flags_clear_on_exit (sleep_task r a n w t) = wait_flags_clear_on_exit t"
  "wait_flags_result (sleep_task r a n w t) = wait_flags_result t"
  "priority (sleep_task r a n w t) = priority t"
  "base_priority (sleep_task r a n w t) = base_priority t"
  "task_id (sleep_task r a n w t) = task_id t"
  "saved_sp (sleep_task r a n w t) = saved_sp t"
  "stack_base (sleep_task r a n w t) = stack_base t"
  "stack_top (sleep_task r a n w t) = stack_top t"
  "stack_size_words (sleep_task r a n w t) = stack_size_words t"
  by (simp_all add: sleep_task_def)

lemma wake_task_fields [simp]:
  "task_state (wake_task r c t) = (if c then STATE_RUNNING else STATE_READY)"
  "wait_reason (wake_task r c t) = WAIT_NONE"
  "wait_object (wake_task r c t) = 0"
  "wait_result (wake_task r c t) = r"
  "\<not> wait_has_deadline (wake_task r c t)"
  "wait_deadline (wake_task r c t) = 0"
  "wait_flags_mask (wake_task r c t) = 0"
  "\<not> wait_flags_all (wake_task r c t)"
  "\<not> wait_flags_clear_on_exit (wake_task r c t)"
  "wait_flags_result (wake_task r c t) = wait_flags_result t"
  "priority (wake_task r c t) = priority t"
  "base_priority (wake_task r c t) = base_priority t"
  "task_id (wake_task r c t) = task_id t"
  "saved_sp (wake_task r c t) = saved_sp t"
  "stack_base (wake_task r c t) = stack_base t"
  "stack_top (wake_task r c t) = stack_top t"
  "stack_size_words (wake_task r c t) = stack_size_words t"
  by (simp_all add: wake_task_def)

lemma suspended_frame [simp]:
  "tcb (suspended p r a n s) = (tcb s)(p := sleep_task r a n (g_fr_kernel_tick_count s) (tcb s p))"
  "g_fr_task_count (suspended p r a n s) = g_fr_task_count s"
  "registered (suspended p r a n s) = registered s"
  "g_fr_scheduler_current_task (suspended p r a n s) = g_fr_scheduler_current_task s"
  "g_fr_scheduler_running (suspended p r a n s) = g_fr_scheduler_running s"
  "g_fr_kernel_tick_count (suspended p r a n s) = g_fr_kernel_tick_count s"
  "cpu (suspended p r a n s) = cpu s"
  "ram (suspended p r a n s) = ram s"
  "objects (suspended p r a n s) = objects s"
  "links (suspended p r a n s) = links s"
  "pendsv_pending (suspended p r a n s)"
  by (simp_all add: suspended_def tcb_upd_task fun_eq_iff)

lemma woken_frame [simp]:
  "tcb (woken p r s) = (tcb s)(p := wake_task r (g_fr_scheduler_current_task s = Some p) (tcb s p))"
  "g_fr_task_count (woken p r s) = g_fr_task_count s"
  "registered (woken p r s) = registered s"
  "g_fr_scheduler_current_task (woken p r s) = g_fr_scheduler_current_task s"
  "g_fr_scheduler_running (woken p r s) = g_fr_scheduler_running s"
  "g_fr_kernel_tick_count (woken p r s) = g_fr_kernel_tick_count s"
  "cpu (woken p r s) = cpu s"
  "ram (woken p r s) = ram s"
  "objects (woken p r s) = objects s"
  "links (woken p r s) = links s"
  "pendsv_pending (woken p r s) = pendsv_pending s"
  by (simp_all add: woken_def Let_def tcb_upd_task fun_eq_iff)

text \<open>When blocking is allowed, and what the arguments of a wait must satisfy.\<close>

definition wait_args_ok :: "fr_wait_reason \<Rightarrow> u32 \<Rightarrow> u32 \<Rightarrow> bool" where
  "wait_args_ok reason wobj ticks \<longleftrightarrow> reason \<noteq> WAIT_NONE \<and> (reason = WAIT_SLEEP \<longleftrightarrow> wobj = 0) \<and>
     ticks \<noteq> 0 \<and> (ticks \<le> FR_WAIT_MAX_FINITE_TICKS \<or> ticks = FR_WAIT_FOREVER)"

definition can_block :: "task_ptr \<Rightarrow> kernel \<Rightarrow> bool" where
  "can_block p s \<longleftrightarrow> g_fr_scheduler_running s \<and> g_fr_scheduler_current_task s = Some p \<and>
     p \<noteq> IdleTask \<and> task_state (tcb s p) = STATE_RUNNING"

lemma block_closed:
  "fr_scheduler_block_current_locked reason wobj ticks s =
     (case g_fr_scheduler_current_task s of
        Some p \<Rightarrow> if wait_args_ok reason wobj ticks \<and> can_block p s
                  then Ret True (suspended p reason wobj ticks s) else Ret False s
      | None \<Rightarrow> Ret False s)"
proof -
  have upd: "upd_task p (\<lambda>t. t\<lparr>task_state := STATE_BLOCKED\<rparr>)
      (if ticks = FR_WAIT_FOREVER
       then upd_task p (\<lambda>t. t\<lparr>wait_has_deadline := False, wait_deadline := 0\<rparr>)
              (upd_task p (\<lambda>t. t\<lparr>wait_object := wobj, wait_reason := reason, wait_result := RESULT_PENDING\<rparr>) s)
       else upd_task p (\<lambda>t. t\<lparr>wait_has_deadline := True, wait_deadline := fr_tick_now
                (upd_task p (\<lambda>t. t\<lparr>wait_object := wobj, wait_reason := reason, wait_result := RESULT_PENDING\<rparr>) s)
                 + ticks\<rparr>)
              (upd_task p (\<lambda>t. t\<lparr>wait_object := wobj, wait_reason := reason, wait_result := RESULT_PENDING\<rparr>) s)) =
      upd_task p (sleep_task reason wobj ticks (g_fr_kernel_tick_count s)) s" for p
    by (simp add: upd_task_def sleep_task_def fr_tick_now_def)
  show ?thesis
    unfolding fr_scheduler_block_current_locked_def Let_def upd
    by (cases reason) (auto simp: wait_args_ok_def can_block_def suspended_def not_less split: option.splits)
qed

lemma unblock_closed:
  "fr_scheduler_unblock_task_locked (Some p) result s =
     (if task_state (tcb s p) = STATE_BLOCKED \<and> wait_reason (tcb s p) \<noteq> WAIT_NONE \<and> result \<noteq> RESULT_PENDING
      then Ret True (woken p result s) else Ret False s)"
proof (cases "task_state (tcb s p) = STATE_BLOCKED \<and> wait_reason (tcb s p) \<noteq> WAIT_NONE \<and> result \<noteq> RESULT_PENDING")
  case False
  then show ?thesis by (cases result) (auto simp: fr_scheduler_unblock_task_locked_def)
next
  case True
  define s1 where "s1 = (if result = RESULT_TIMEOUT
        then fr_trace_record_locked EVENT_TASK_TIMEOUT (task_id (tcb s p))
               (wait_reason_code (wait_reason (tcb s p))) (wait_deadline (tcb s p)) s else s)"
  have s1: "tcb s1 = tcb s" "g_fr_scheduler_current_task s1 = g_fr_scheduler_current_task s"
    by (simp_all add: s1_def)
  have r: "result = RESULT_TIMEOUT \<or> result = RESULT_SIGNALED" using True by (cases result) auto
  let ?u = "upd_task p (\<lambda>t. t\<lparr>wait_result := result, wait_reason := WAIT_NONE,
         wait_object := 0, wait_has_deadline := False, wait_deadline := 0,
         wait_flags_mask := 0, wait_flags_all := False, wait_flags_clear_on_exit := False\<rparr>) s1"
  have upd: "(if Some p = g_fr_scheduler_current_task ?u
     then upd_task p (\<lambda>t. t\<lparr>task_state := STATE_RUNNING\<rparr>) ?u
     else upd_task p (\<lambda>t. t\<lparr>task_state := STATE_READY\<rparr>) ?u) =
     upd_task p (wake_task result (g_fr_scheduler_current_task s = Some p)) s1"
    by (simp add: upd_task_def wake_task_def s1 eq_commute [of "Some p"])
  show ?thesis
    unfolding fr_scheduler_unblock_task_locked_def option.case Let_def
    unfolding s1_def [symmetric] upd
    using True r by (simp add: woken_def Let_def s1_def [symmetric] s1)
qed

lemma unblock_waiting:
  assumes "waiting reason wobj s p" and "reason \<noteq> WAIT_NONE" and "result \<noteq> RESULT_PENDING"
  shows "fr_scheduler_unblock_task_locked (Some p) result s = Ret True (woken p result s)"
  using assms by (simp add: unblock_closed waiting_def)

lemma request_if_needed_cases:
  "fr_scheduler_request_if_needed_locked s = s \<or>
   fr_scheduler_request_if_needed_locked s = fr_port_request_context_switch s"
  by (simp add: fr_scheduler_request_if_needed_locked_def Let_def)

lemma request_if_needed_frame [simp]:
  "tcb (fr_scheduler_request_if_needed_locked s) = tcb s"
  "g_fr_task_count (fr_scheduler_request_if_needed_locked s) = g_fr_task_count s"
  "registered (fr_scheduler_request_if_needed_locked s) = registered s"
  "g_fr_scheduler_current_task (fr_scheduler_request_if_needed_locked s) = g_fr_scheduler_current_task s"
  "g_fr_scheduler_running (fr_scheduler_request_if_needed_locked s) = g_fr_scheduler_running s"
  "g_fr_kernel_tick_count (fr_scheduler_request_if_needed_locked s) = g_fr_kernel_tick_count s"
  "cpu (fr_scheduler_request_if_needed_locked s) = cpu s"
  "ram (fr_scheduler_request_if_needed_locked s) = ram s"
  "objects (fr_scheduler_request_if_needed_locked s) = objects s"
  "links (fr_scheduler_request_if_needed_locked s) = links s"
  "pendsv_pending s \<Longrightarrow> pendsv_pending (fr_scheduler_request_if_needed_locked s)"
  using request_if_needed_cases [of s] by auto

end
