(* ===== verification/Diagnostics.thy ===== *)
theory Diagnostics
  imports Scheduler
begin

text \<open>
  The kernel's own consistency scan (\<open>kernel/diagnostics.c\<close>): \<open>fr_kernel_check_invariants\<close> walks the
  registry inside one critical section, fills a report and returns whether no violation was noted.
  The predicates on one control block (\<open>fr_kernel_wait_state_valid\<close>,
  \<open>fr_kernel_stack_geometry_valid\<close>, \<open>fr_kernel_saved_sp_valid\<close>) are also the task part of the kernel
  invariant of theory \<open>Kernel_Invariant\<close>.
\<close>


section \<open>Operations\<close>

record fr_kernel_invariant_report =
  kr_task_count :: u32
  kr_created_tasks :: u32
  kr_ready_tasks :: u32
  kr_running_tasks :: u32
  kr_blocked_tasks :: u32
  kr_suspended_tasks :: u32
  kr_current_task_id :: u32
  kr_violation_mask :: u32
  kr_first_bad_task_id :: u32
  kr_scheduler_running :: bool

definition FR_KERNEL_INVARIANT_TASK_COUNT :: u32 where "FR_KERNEL_INVARIANT_TASK_COUNT = 1"
definition FR_KERNEL_INVARIANT_TASK_POINTER :: u32 where "FR_KERNEL_INVARIANT_TASK_POINTER = 2"
definition FR_KERNEL_INVARIANT_TASK_ID :: u32 where "FR_KERNEL_INVARIANT_TASK_ID = 4"
definition FR_KERNEL_INVARIANT_TASK_PRIORITY :: u32 where "FR_KERNEL_INVARIANT_TASK_PRIORITY = 8"
definition FR_KERNEL_INVARIANT_TASK_STATE :: u32 where "FR_KERNEL_INVARIANT_TASK_STATE = 16"
definition FR_KERNEL_INVARIANT_STACK_GEOMETRY :: u32 where "FR_KERNEL_INVARIANT_STACK_GEOMETRY = 32"
definition FR_KERNEL_INVARIANT_SAVED_SP :: u32 where "FR_KERNEL_INVARIANT_SAVED_SP = 64"
definition FR_KERNEL_INVARIANT_WAIT_STATE :: u32 where "FR_KERNEL_INVARIANT_WAIT_STATE = 128"
definition FR_KERNEL_INVARIANT_RUNNING_COUNT :: u32 where "FR_KERNEL_INVARIANT_RUNNING_COUNT = 256"
definition FR_KERNEL_INVARIANT_CURRENT_TASK :: u32 where "FR_KERNEL_INVARIANT_CURRENT_TASK = 512"
definition FR_KERNEL_INVARIANT_NO_TASK_ID :: u32 where "FR_KERNEL_INVARIANT_NO_TASK_ID = UINT32_MAX"

lemmas violation_defs =
  FR_KERNEL_INVARIANT_TASK_COUNT_def FR_KERNEL_INVARIANT_TASK_POINTER_def
  FR_KERNEL_INVARIANT_TASK_ID_def FR_KERNEL_INVARIANT_TASK_PRIORITY_def
  FR_KERNEL_INVARIANT_TASK_STATE_def FR_KERNEL_INVARIANT_STACK_GEOMETRY_def
  FR_KERNEL_INVARIANT_SAVED_SP_def FR_KERNEL_INVARIANT_WAIT_STATE_def
  FR_KERNEL_INVARIANT_RUNNING_COUNT_def FR_KERNEL_INVARIANT_CURRENT_TASK_def

definition fr_kernel_note_violation ::
    "u32 \<Rightarrow> u32 \<Rightarrow> fr_kernel_invariant_report \<Rightarrow> fr_kernel_invariant_report" where
  "fr_kernel_note_violation violation tid report =
     (let report = report\<lparr>kr_violation_mask := kr_violation_mask report OR violation\<rparr>
      in if kr_first_bad_task_id report = FR_KERNEL_INVARIANT_NO_TASK_ID
         then report\<lparr>kr_first_bad_task_id := tid\<rparr> else report)"

definition fr_kernel_wait_reason_uses_object :: "fr_wait_reason \<Rightarrow> bool" where
  "fr_kernel_wait_reason_uses_object reason \<longleftrightarrow>
     reason = WAIT_SYNC \<or> reason = WAIT_MUTEX \<or> reason = WAIT_QUEUE_SEND \<or>
     reason = WAIT_QUEUE_RECEIVE \<or> reason = WAIT_EVENT_FLAGS"

definition fr_kernel_wait_state_valid :: "fr_task \<Rightarrow> bool" where
  "fr_kernel_wait_state_valid task =
     (if task_state task = STATE_BLOCKED
      then if wait_reason task = WAIT_NONE \<or> wait_result task \<noteq> RESULT_PENDING then False
           else if wait_reason task = WAIT_SLEEP \<and> wait_object task \<noteq> 0 then False
           else if wait_reason task \<noteq> WAIT_SLEEP \<and>
                   fr_kernel_wait_reason_uses_object (wait_reason task) \<and> wait_object task = 0 then False
           else if wait_reason task \<noteq> WAIT_SLEEP \<and>
                   \<not> fr_kernel_wait_reason_uses_object (wait_reason task) then False
           else if wait_reason task = WAIT_EVENT_FLAGS
           then wait_flags_mask task \<noteq> 0
           else \<not> (wait_flags_mask task \<noteq> 0 \<or> wait_flags_all task \<or> wait_flags_clear_on_exit task)
      else wait_reason task = WAIT_NONE \<and> wait_object task = 0 \<and> \<not> wait_has_deadline task \<and>
           wait_deadline task = 0 \<and> wait_flags_mask task = 0 \<and> \<not> wait_flags_all task \<and>
           \<not> wait_flags_clear_on_exit task)"

definition fr_kernel_stack_geometry_valid :: "fr_task \<Rightarrow> bool" where
  "fr_kernel_stack_geometry_valid task =
     (if stack_base task = 0 \<or> stack_top task = 0 \<or>
         stack_size_words task < FR_CONFIG_MIN_TASK_STACK_WORDS \<or> stack_size_words task AND 1 \<noteq> 0
      then False
      else if stack_size_words task > UINT32_MAX div 4 then False
      else let stack_size_bytes = stack_size_words task * 4
           in if stack_base task AND 7 \<noteq> 0 \<or> stack_top task AND 7 \<noteq> 0 \<or>
                 stack_base task > UINT32_MAX - stack_size_bytes then False
              else stack_top task = stack_base task + stack_size_bytes)"

definition fr_kernel_saved_sp_valid :: "fr_task \<Rightarrow> bool" where
  "fr_kernel_saved_sp_valid task =
     (if saved_sp task = 0 then False
      else saved_sp task \<ge> stack_base task \<and> saved_sp task \<le> stack_top task \<and> saved_sp task AND 7 = 0)"

text \<open>The body of the scan for one registry index; the first component is \<open>current_task_found\<close>.\<close>

definition check_step ::
    "kernel \<Rightarrow> bool \<Rightarrow> task_ptr option \<Rightarrow> nat \<Rightarrow>
     bool \<times> fr_kernel_invariant_report \<Rightarrow> bool \<times> fr_kernel_invariant_report" where
  "check_step s scheduler_running current_task i st =
     (let (found, r) = st; expected_id = of_nat i + 1 :: u32
      in case fr_task_internal_at i s of
           None \<Rightarrow> (found, fr_kernel_note_violation FR_KERNEL_INVARIANT_TASK_POINTER expected_id r)
         | Some task \<Rightarrow>
             let t = tcb s task;
                 (found, r) = (if Some task = current_task
                               then (True, r\<lparr>kr_current_task_id := task_id t\<rparr>) else (found, r));
                 r = (if task_id t \<noteq> expected_id
                      then fr_kernel_note_violation FR_KERNEL_INVARIANT_TASK_ID (task_id t) r else r);
                 r = (if priority t > FR_CONFIG_MAX_TASK_PRIORITY \<or>
                         base_priority t > FR_CONFIG_MAX_TASK_PRIORITY \<or> priority t < base_priority t
                      then fr_kernel_note_violation FR_KERNEL_INVARIANT_TASK_PRIORITY (task_id t) r else r);
                 r = (if \<not> fr_kernel_stack_geometry_valid t
                      then fr_kernel_note_violation FR_KERNEL_INVARIANT_STACK_GEOMETRY (task_id t) r
                      else if \<not> fr_kernel_saved_sp_valid t
                      then fr_kernel_note_violation FR_KERNEL_INVARIANT_SAVED_SP (task_id t) r else r);
                 r = (if \<not> fr_kernel_wait_state_valid t
                      then fr_kernel_note_violation FR_KERNEL_INVARIANT_WAIT_STATE (task_id t) r else r);
                 r = (case task_state t of
                        STATE_CREATED \<Rightarrow>
                          let r = r\<lparr>kr_created_tasks := kr_created_tasks r + 1\<rparr>
                          in if scheduler_running
                             then fr_kernel_note_violation FR_KERNEL_INVARIANT_TASK_STATE (task_id t) r else r
                      | STATE_READY \<Rightarrow> r\<lparr>kr_ready_tasks := kr_ready_tasks r + 1\<rparr>
                      | STATE_RUNNING \<Rightarrow> r\<lparr>kr_running_tasks := kr_running_tasks r + 1\<rparr>
                      | STATE_BLOCKED \<Rightarrow> r\<lparr>kr_blocked_tasks := kr_blocked_tasks r + 1\<rparr>
                      | STATE_SUSPENDED \<Rightarrow> r\<lparr>kr_suspended_tasks := kr_suspended_tasks r + 1\<rparr>
                      | STATE_INVALID \<Rightarrow>
                          fr_kernel_note_violation FR_KERNEL_INVARIANT_TASK_STATE (task_id t) r)
             in (found, r))"

text \<open>The checks after the scan: at most one RUNNING task, and the current task.\<close>

definition check_conclude ::
    "kernel \<Rightarrow> bool \<Rightarrow> task_ptr option \<Rightarrow> bool \<Rightarrow> fr_kernel_invariant_report \<Rightarrow> fr_kernel_invariant_report" where
  "check_conclude s scheduler_running current_task found r =
     (let r = (if kr_running_tasks r > 1
               then fr_kernel_note_violation FR_KERNEL_INVARIANT_RUNNING_COUNT
                      FR_KERNEL_INVARIANT_NO_TASK_ID r else r)
      in if scheduler_running
         then case current_task of
                Some c \<Rightarrow>
                  if \<not> found \<or> task_state (tcb s c) \<noteq> STATE_RUNNING \<or> kr_running_tasks r \<noteq> 1
                  then fr_kernel_note_violation FR_KERNEL_INVARIANT_CURRENT_TASK (kr_current_task_id r) r
                  else r
              | None \<Rightarrow>
                  if kr_running_tasks r \<noteq> 0
                  then fr_kernel_note_violation FR_KERNEL_INVARIANT_CURRENT_TASK
                         FR_KERNEL_INVARIANT_NO_TASK_ID r
                  else r
         else if current_task \<noteq> None
         then fr_kernel_note_violation FR_KERNEL_INVARIANT_CURRENT_TASK (kr_current_task_id r) r
         else r)"

definition empty_report :: fr_kernel_invariant_report where
  "empty_report = \<lparr>kr_task_count = 0, kr_created_tasks = 0, kr_ready_tasks = 0, kr_running_tasks = 0,
     kr_blocked_tasks = 0, kr_suspended_tasks = 0, kr_current_task_id = 0, kr_violation_mask = 0,
     kr_first_bad_task_id = FR_KERNEL_INVARIANT_NO_TASK_ID, kr_scheduler_running = False\<rparr>"

definition fr_kernel_check_invariants :: "bool \<Rightarrow> kernel \<Rightarrow> bool \<times> fr_kernel_invariant_report option \<times> kernel" where
  "fr_kernel_check_invariants out_valid s =
     (if \<not> out_valid then (False, None, s)
      else let (critical_state, s) = fr_critical_enter s;
          task_count = fr_task_internal_count s;
          scheduler_running = fr_scheduler_is_running s;
          current_task = fr_scheduler_current_task s;
          r = empty_report\<lparr>kr_task_count := task_count, kr_scheduler_running := scheduler_running\<rparr>;
          (scan_count, r) =
            (if task_count > FR_CONFIG_MAX_TASKS
             then (FR_CONFIG_MAX_TASKS, fr_kernel_note_violation FR_KERNEL_INVARIANT_TASK_COUNT
                                          FR_KERNEL_INVARIANT_NO_TASK_ID r)
             else (task_count, r));
          (found, r) = fold (check_step s scheduler_running current_task) [0..<unat scan_count] (False, r);
          r = check_conclude s scheduler_running current_task found r;
          valid = (kr_violation_mask r = 0)
      in (valid, Some r, fr_critical_exit critical_state s))"


section \<open>The scan is exact\<close>

lemma note_violation_fields [simp]:
  "kr_running_tasks (fr_kernel_note_violation v i r) = kr_running_tasks r"
  "kr_ready_tasks (fr_kernel_note_violation v i r) = kr_ready_tasks r"
  "kr_blocked_tasks (fr_kernel_note_violation v i r) = kr_blocked_tasks r"
  "kr_created_tasks (fr_kernel_note_violation v i r) = kr_created_tasks r"
  "kr_suspended_tasks (fr_kernel_note_violation v i r) = kr_suspended_tasks r"
  "kr_current_task_id (fr_kernel_note_violation v i r) = kr_current_task_id r"
  "kr_violation_mask (fr_kernel_note_violation v i r) = kr_violation_mask r OR v"
  by (simp_all add: fr_kernel_note_violation_def Let_def)

lemma or_eq_0_word: "(x :: u32) OR y = 0 \<longleftrightarrow> x = 0 \<and> y = 0"
  by (auto simp: bit_eq_iff bit_simps)

text \<open>What the scan requires of the registered task at index \<open>i\<close>.\<close>

definition slot_ok :: "kernel \<Rightarrow> bool \<Rightarrow> nat \<Rightarrow> bool" where
  "slot_ok s scheduler_running i \<longleftrightarrow>
     (let t = tcb s (Pool i)
      in task_id t = of_nat i + 1 \<and> priority t \<le> 31 \<and> base_priority t \<le> 31 \<and>
         base_priority t \<le> priority t \<and> fr_kernel_stack_geometry_valid t \<and>
         fr_kernel_saved_sp_valid t \<and> fr_kernel_wait_state_valid t \<and> task_state t \<noteq> STATE_INVALID \<and>
         (task_state t = STATE_CREATED \<longrightarrow> \<not> scheduler_running))"

definition in_state :: "kernel \<Rightarrow> fr_task_state \<Rightarrow> nat list \<Rightarrow> nat" where
  "in_state s st is = length (filter (\<lambda>i. task_state (tcb s (Pool i)) = st) is)"

lemma check_step_effect:
  assumes "i < unat (g_fr_task_count s)"
  shows "kr_violation_mask (snd (check_step s run c i (f, r))) = 0 \<longleftrightarrow>
           kr_violation_mask r = 0 \<and> slot_ok s run i"
    and "fst (check_step s run c i (f, r)) \<longleftrightarrow> f \<or> c = Some (Pool i)"
    and "kr_running_tasks (snd (check_step s run c i (f, r))) =
           kr_running_tasks r + of_nat (in_state s STATE_RUNNING [i])"
    and "kr_ready_tasks (snd (check_step s run c i (f, r))) =
           kr_ready_tasks r + of_nat (in_state s STATE_READY [i])"
    and "kr_blocked_tasks (snd (check_step s run c i (f, r))) =
           kr_blocked_tasks r + of_nat (in_state s STATE_BLOCKED [i])"
proof -
  have at: "fr_task_internal_at i s = Some (Pool i)" using assms by (simp add: fr_task_internal_at_def)
  show "kr_violation_mask (snd (check_step s run c i (f, r))) = 0 \<longleftrightarrow>
           kr_violation_mask r = 0 \<and> slot_ok s run i"
    by (cases "task_state (tcb s (Pool i))")
       (auto simp: check_step_def at Let_def slot_ok_def violation_defs or_eq_0_word not_less)
  show "fst (check_step s run c i (f, r)) \<longleftrightarrow> f \<or> c = Some (Pool i)"
    by (auto simp: check_step_def at Let_def)
  show "kr_running_tasks (snd (check_step s run c i (f, r))) =
           kr_running_tasks r + of_nat (in_state s STATE_RUNNING [i])"
    by (cases "task_state (tcb s (Pool i))") (simp_all add: check_step_def at Let_def in_state_def)
  show "kr_ready_tasks (snd (check_step s run c i (f, r))) =
           kr_ready_tasks r + of_nat (in_state s STATE_READY [i])"
    by (cases "task_state (tcb s (Pool i))") (simp_all add: check_step_def at Let_def in_state_def)
  show "kr_blocked_tasks (snd (check_step s run c i (f, r))) =
           kr_blocked_tasks r + of_nat (in_state s STATE_BLOCKED [i])"
    by (cases "task_state (tcb s (Pool i))") (simp_all add: check_step_def at Let_def in_state_def)
qed

lemma in_state_Cons: "in_state s st (i # is) = in_state s st [i] + in_state s st is"
  by (simp add: in_state_def)

lemma check_fold:
  assumes "\<forall>i \<in> set is. i < unat (g_fr_task_count s)"
    and "fold (check_step s run c) is (f, r) = (f', r')"
  shows "(kr_violation_mask r' = 0 \<longleftrightarrow> kr_violation_mask r = 0 \<and> (\<forall>i \<in> set is. slot_ok s run i)) \<and>
     (f' \<longleftrightarrow> f \<or> (\<exists>i \<in> set is. c = Some (Pool i))) \<and>
     kr_running_tasks r' = kr_running_tasks r + of_nat (in_state s STATE_RUNNING is) \<and>
     kr_ready_tasks r' = kr_ready_tasks r + of_nat (in_state s STATE_READY is) \<and>
     kr_blocked_tasks r' = kr_blocked_tasks r + of_nat (in_state s STATE_BLOCKED is)"
  using assms
proof (induction "is" arbitrary: f r)
  case Nil
  then show ?case by (simp add: in_state_def)
next
  case (Cons i "is")
  obtain g q where st: "check_step s run c i (f, r) = (g, q)" by force
  have i: "i < unat (g_fr_task_count s)" using Cons.prems(1) by simp
  have "fold (check_step s run c) is (g, q) = (f', r')" using Cons.prems(2) st by simp
  note IH = Cons.IH [OF _ this]
  note eff = check_step_effect [OF i, of run c f r, unfolded st fst_conv snd_conv]
  have "is": "\<forall>i \<in> set is. i < unat (g_fr_task_count s)" using Cons.prems(1) by simp
  show ?case
    using IH [OF "is"] eff by (auto simp: in_state_Cons [of s _ i "is"])
qed

definition running_tasks :: "kernel \<Rightarrow> task_ptr set" where
  "running_tasks s = {p \<in> registered s. task_state (tcb s p) = STATE_RUNNING}"

lemma in_state_card:
  "in_state s st [0..<unat (g_fr_task_count s)] = card {p \<in> registered s. task_state (tcb s p) = st}"
proof -
  let ?is = "filter (\<lambda>i. task_state (tcb s (Pool i)) = st) [0..<unat (g_fr_task_count s)]"
  have "{p \<in> registered s. task_state (tcb s p) = st} = Pool ` set ?is"
    by (auto simp: registered_def)
  moreover have "card (Pool ` set ?is) = card (set ?is)"
    by (rule card_image) (simp add: inj_on_def)
  moreover have "card (set ?is) = length ?is" by (rule distinct_card) simp
  ultimately show ?thesis by (simp add: in_state_def)
qed

lemma finite_running_tasks [simp]: "finite (running_tasks s)"
  by (simp add: running_tasks_def)

lemma card_running_le: "card (running_tasks s) \<le> unat (g_fr_task_count s)"
  unfolding card_registered [symmetric] running_tasks_def by (rule card_mono) auto

lemma running_tasks_singleton:
  "running_tasks s = {c} \<longleftrightarrow> c \<in> registered s \<and> task_state (tcb s c) = STATE_RUNNING \<and> card (running_tasks s) = 1"
  (is "?L \<longleftrightarrow> ?R")
proof
  assume ?L
  then have "c \<in> running_tasks s" "card (running_tasks s) = 1" by simp_all
  then show ?R by (simp add: running_tasks_def)
next
  assume R: ?R
  then have "c \<in> running_tasks s" by (simp add: running_tasks_def)
  with R show ?L by (auto simp: card_1_singleton_iff)
qed

text \<open>The state that the scan accepts, in terms of the registered tasks.\<close>

definition scan_accepts :: "kernel \<Rightarrow> bool" where
  "scan_accepts s \<longleftrightarrow> unat (g_fr_task_count s) \<le> 8 \<and>
     (\<forall>i < unat (g_fr_task_count s). slot_ok s (g_fr_scheduler_running s) i) \<and>
     (if g_fr_scheduler_running s
      then running_tasks s = set_option (fr_scheduler_current_task s)
      else fr_scheduler_current_task s = None \<and> card (running_tasks s) \<le> 1)"

lemma current_in_critical:
  "fr_scheduler_current_task (snd (fr_critical_enter s)) = fr_scheduler_current_task s"
  by (simp add: fr_scheduler_current_task_def)

lemma check_conclude_mask:
  "kr_violation_mask (check_conclude s run c f r) = 0 \<longleftrightarrow>
     kr_violation_mask r = 0 \<and> \<not> kr_running_tasks r > 1 \<and>
     (if run then (case c of
          Some p \<Rightarrow> f \<and> task_state (tcb s p) = STATE_RUNNING \<and> kr_running_tasks r = 1
        | None \<Rightarrow> kr_running_tasks r = 0)
      else c = None)"
  by (auto simp: check_conclude_def Let_def or_eq_0_word violation_defs split: option.splits)

lemma check_conclude_cong:
  "check_conclude (snd (fr_critical_enter s)) = check_conclude s"
  by (intro ext) (simp only: check_conclude_def critical_enter_frame)

lemma check_result:
  "fst (fr_kernel_check_invariants True s) \<longleftrightarrow> scan_accepts s"
proof -
  let ?n = "unat (g_fr_task_count s)" and ?run = "g_fr_scheduler_running s"
  let ?cs = "snd (fr_critical_enter s)" and ?c = "fr_scheduler_current_task s"
  let ?r0 = "empty_report\<lparr>kr_task_count := g_fr_task_count s, kr_scheduler_running := ?run\<rparr>"
  define m where "m = (if g_fr_task_count s > 8 then 8 else ?n)"
  define r1 where "r1 = (if g_fr_task_count s > 8 then fr_kernel_note_violation
      FR_KERNEL_INVARIANT_TASK_COUNT FR_KERNEL_INVARIANT_NO_TASK_ID ?r0 else ?r0)"
  obtain f r where fold: "fold (check_step ?cs ?run ?c) [0..<m] (False, r1) = (f, r)" by force
  have at: "\<forall>i \<in> set [0..<m]. i < unat (g_fr_task_count ?cs)"
    by (auto simp: m_def word_less_nat_alt)
  note ck = check_fold [OF at fold]
  have slots: "slot_ok ?cs ?run i = slot_ok s ?run i" for i by (simp add: slot_ok_def)
  have r1: "kr_violation_mask r1 = 0 \<longleftrightarrow> ?n \<le> 8" "kr_running_tasks r1 = 0"
    by (simp_all add: r1_def empty_report_def violation_defs word_less_nat_alt)
  have result: "fst (fr_kernel_check_invariants True s) \<longleftrightarrow> kr_violation_mask (check_conclude s ?run ?c f r) = 0"
    using fold unfolding m_def r1_def
    by (cases "g_fr_task_count s > 8")
       (simp_all add: fr_kernel_check_invariants_def split_beta Let_def fr_task_internal_count_def
         fr_scheduler_is_running_def current_in_critical check_conclude_cong)
  show ?thesis
  proof (cases "?n \<le> 8")
    case False
    then show ?thesis using result ck r1 by (simp add: check_conclude_mask scan_accepts_def)
  next
    case True
    then have m: "m = ?n" by (simp add: m_def word_less_nat_alt)
    have R: "kr_running_tasks r = of_nat (card (running_tasks s))"
      using ck r1 in_state_card [of ?cs STATE_RUNNING] by (simp add: m running_tasks_def registered_def)
    have le: "card (running_tasks s) \<le> 8" using card_running_le [of s] True by simp
    have R1: "kr_running_tasks r = 1 \<longleftrightarrow> card (running_tasks s) = 1"
      and R0: "kr_running_tasks r = 0 \<longleftrightarrow> running_tasks s = {}"
      and Rle: "kr_running_tasks r > 1 \<longleftrightarrow> card (running_tasks s) > 1"
      using le unfolding R by (simp_all add: word_unat_eq_iff word_less_nat_alt unat_of_nat32)
    have "kr_violation_mask r = 0 \<longleftrightarrow> (\<forall>i < ?n. slot_ok s ?run i)" and "f \<longleftrightarrow> (\<exists>c \<in> registered s. ?c = Some c)"
      using ck r1 True by (auto simp: slots m registered_def)
    then show ?thesis
      unfolding result check_conclude_mask R1 R0 Rle scan_accepts_def
      using True running_tasks_singleton [of s] by (auto split: option.splits)
  qed
qed

lemma check_keeps_state: "snd (snd (fr_kernel_check_invariants True s)) = s"
  by (simp add: fr_kernel_check_invariants_def split_beta Let_def)

lemma check_reports: "\<exists>report. fst (snd (fr_kernel_check_invariants True s)) = Some report"
  by (simp add: fr_kernel_check_invariants_def split_beta Let_def)



section \<open>Properties\<close>

text \<open>
  C40. The self-check is exact and passive: \<open>fr_kernel_check_invariants\<close> returns true exactly when at
  most eight tasks are registered, every registered task has the id of its slot, a base priority
  below its effective one and both within the range, a consistent stack and stack pointer and a
  wait state that fits its scheduling state, no task is half created while the scheduler runs, and
  the RUNNING tasks are exactly the current one (none while the idle task runs). It leaves the
  kernel state unchanged, and without a report to fill in it returns false at once.
\<close>

theorem kernel_check_exact:
  "(fst (fr_kernel_check_invariants True s) \<longleftrightarrow> scan_accepts s) \<and>
   snd (snd (fr_kernel_check_invariants True s)) = s \<and> fr_kernel_check_invariants False s = (False, None, s)"
  using check_result check_keeps_state by (simp add: fr_kernel_check_invariants_def)

end
