(* ===== verification/Kernel_Invariant.thy ===== *)
theory Kernel_Invariant
  imports Diagnostics
begin

text \<open>
  The invariant of the kernel state between critical sections, and its preservation by the pieces
  that the services are built of: waking a task, suspending the current one, writing a kernel object
  and walking a priority-inheritance chain.

  \<open>kernel_ok\<close> has a structural part, \<open>base_ok\<close>, that does not mention effective priorities (tasks,
  scheduler, objects and waits fit together), and the inheritance part \<open>inherit_ok\<close>.
\<close>


section \<open>The invariant\<close>

text \<open>One registered task. A task under creation has no saved stack pointer yet.\<close>

definition task_ok :: "nat \<Rightarrow> fr_task \<Rightarrow> bool" where
  "task_ok i t \<longleftrightarrow> task_id t = of_nat i + 1 \<and> base_priority t \<le> 31 \<and>
     fr_kernel_stack_geometry_valid t \<and> fr_kernel_wait_state_valid t \<and>
     task_state t \<in> {STATE_CREATED, STATE_READY, STATE_RUNNING, STATE_BLOCKED} \<and>
     (task_state t \<noteq> STATE_CREATED \<longrightarrow> fr_kernel_saved_sp_valid t)"

text \<open>
  The scheduler. Only the current task is RUNNING; a current task that has just blocked stays current
  until the pending PendSV exception switches away from it.
\<close>

definition sched_ok :: "kernel \<Rightarrow> bool" where
  "sched_ok s \<longleftrightarrow>
     (if g_fr_scheduler_running s
      then \<exists>c. g_fr_scheduler_current_task s = Some c \<and> (c = IdleTask \<or> c \<in> registered s) \<and>
             (task_state (tcb s c) = STATE_RUNNING \<or>
              c \<noteq> IdleTask \<and> task_state (tcb s c) = STATE_BLOCKED \<and> pendsv_pending s) \<and>
             (\<forall>p \<in> registered s. p \<noteq> c \<longrightarrow> task_state (tcb s p) \<noteq> STATE_RUNNING) \<and>
             fr_kernel_saved_sp_valid (tcb s IdleTask) \<and> stack_base (tcb s IdleTask) \<noteq> 0 \<and>
             stack_top (tcb s IdleTask) \<noteq> 0
      else g_fr_scheduler_current_task s = None \<and>
           (\<forall>p \<in> registered s. task_state (tcb s p) \<in> {STATE_CREATED, STATE_READY}))"

definition sem_tokens :: "kobj \<Rightarrow> u32 option" where
  "sem_tokens ob = (case ob of BinarySemaphore b \<Rightarrow> Some (bs_available b)
     | CountingSemaphore c \<Rightarrow> Some (cs_count c) | _ \<Rightarrow> None)"

definition flags_met :: "u32 \<Rightarrow> u32 \<Rightarrow> bool \<Rightarrow> bool" where
  "flags_met bits flags_mask all \<longleftrightarrow>
     (if all then bits AND flags_mask = flags_mask else bits AND flags_mask \<noteq> 0)"

fun object_ok :: "task_ptr set \<Rightarrow> kobj \<Rightarrow> bool" where
  "object_ok R NoObject \<longleftrightarrow> True"
| "object_ok R (BinarySemaphore b) \<longleftrightarrow> bs_magic b = FR_BINARY_SEMAPHORE_MAGIC \<and> bs_available b \<le> 1"
| "object_ok R (CountingSemaphore c) \<longleftrightarrow> cs_magic c = FR_COUNTING_SEMAPHORE_MAGIC \<and>
     cs_max_count c \<noteq> 0 \<and> cs_count c \<le> cs_max_count c"
| "object_ok R (Mutex m) \<longleftrightarrow> mx_magic m = FR_MUTEX_MAGIC \<and> set_option (mx_owner m) \<subseteq> R"
| "object_ok R (Queue q) \<longleftrightarrow> q_magic q = FR_QUEUE_MAGIC \<and> q_storage q \<noteq> 0 \<and> q_capacity q \<noteq> 0 \<and>
     q_item_size q \<noteq> 0 \<and> q_capacity q \<le> UINT32_MAX div q_item_size q \<and> q_head q < q_capacity q \<and>
     q_count q \<le> q_capacity q \<and>
     unat (q_tail q) = (unat (q_head q) + unat (q_count q)) mod unat (q_capacity q)"
| "object_ok R (EventFlags f) \<longleftrightarrow> ef_magic f = FR_EVENT_FLAGS_MAGIC"

text \<open>
  A blocked task waits for an object of the right kind whose state justifies the wait: a semaphore
  without tokens, a mutex owned by another task, event bits that do not meet its condition.
\<close>

definition wait_ok :: "(u32 \<Rightarrow> kobj) \<Rightarrow> fr_task \<Rightarrow> bool" where
  "wait_ok obs t \<longleftrightarrow>
     (case wait_reason t of
        WAIT_SYNC \<Rightarrow> sem_tokens (obs (wait_object t)) = Some 0
      | WAIT_QUEUE_SEND \<Rightarrow> (\<exists>q. obs (wait_object t) = Queue q)
      | WAIT_QUEUE_RECEIVE \<Rightarrow> (\<exists>q. obs (wait_object t) = Queue q)
      | WAIT_EVENT_FLAGS \<Rightarrow> (\<exists>f. obs (wait_object t) = EventFlags f \<and>
            \<not> flags_met (ef_bits f) (wait_flags_mask t) (wait_flags_all t))
      | _ \<Rightarrow> True)"

definition waits_ok :: "kernel \<Rightarrow> bool" where
  "waits_ok s \<longleftrightarrow> (\<forall>p \<in> registered s. task_state (tcb s p) = STATE_BLOCKED \<longrightarrow> wait_ok (objects s) (tcb s p))"

text \<open>Pool slots that are not registered yet are as the startup code left them.\<close>

definition slots_free :: "kernel \<Rightarrow> bool" where
  "slots_free s \<longleftrightarrow> (\<forall>i. unat (g_fr_task_count s) \<le> i \<longrightarrow>
     task_state (tcb s (Pool i)) = STATE_INVALID \<and> fr_kernel_wait_state_valid (tcb s (Pool i)))"

definition base_ok :: "kernel \<Rightarrow> bool" where
  "base_ok s \<longleftrightarrow> unat (g_fr_task_count s) \<le> 8 \<and>
     (\<forall>i < unat (g_fr_task_count s). task_ok i (tcb s (Pool i))) \<and> sched_ok s \<and>
     (\<forall>a. object_ok (registered s) (objects s a)) \<and> waits_ok s \<and> mutex_waits_ok s \<and> slots_free s"

definition prios_le :: "kernel \<Rightarrow> bool" where
  "prios_le s \<longleftrightarrow> (\<forall>p \<in> registered s. prio s p \<le> 31)"

definition inherit_ok :: "kernel \<Rightarrow> bool" where
  "inherit_ok s \<longleftrightarrow> inherit_inv s \<and> prios_le s"

definition kernel_ok :: "kernel \<Rightarrow> bool" where
  "kernel_ok s \<longleftrightarrow> base_ok s \<and> inherit_ok s"

lemma base_okD:
  assumes "base_ok s"
  shows "unat (g_fr_task_count s) \<le> 8" "\<And>i. i < unat (g_fr_task_count s) \<Longrightarrow> task_ok i (tcb s (Pool i))"
    "sched_ok s" "\<And>a. object_ok (registered s) (objects s a)" "waits_ok s" "mutex_waits_ok s" "slots_free s"
  using assms by (auto simp: base_ok_def)

lemma kernel_okD: "kernel_ok s \<Longrightarrow> base_ok s" "kernel_ok s \<Longrightarrow> inherit_ok s"
  by (auto simp: kernel_ok_def)


section \<open>What the invariant depends on\<close>

definition same_kernel :: "kernel \<Rightarrow> kernel \<Rightarrow> bool" where
  "same_kernel s s' \<longleftrightarrow> tcb s' = tcb s \<and> g_fr_task_count s' = g_fr_task_count s \<and>
     g_fr_scheduler_current_task s' = g_fr_scheduler_current_task s \<and>
     g_fr_scheduler_running s' = g_fr_scheduler_running s \<and> objects s' = objects s \<and>
     (pendsv_pending s \<longrightarrow> pendsv_pending s')"

lemma same_kernel_refl [simp]: "same_kernel s s"
  by (simp add: same_kernel_def)

lemma same_kernel_ops [simp]:
  "same_kernel s (snd (fr_critical_enter s))"
  "same_kernel s (fr_critical_exit c s)"
  "same_kernel s (fr_port_request_context_switch s)"
  "same_kernel s (fr_scheduler_request_if_needed_locked s)"
  "same_kernel s (fr_trace_record_locked e i x y s)"
  by (simp_all add: same_kernel_def)

lemma same_kernel_waits:
  assumes "same_kernel s s'"
  shows "registered s' = registered s" "waits_for s' = waits_for s" "prio s' = prio s" "eff s' x = eff s x"
proof -
  show R: "registered s' = registered s" using assms by (simp add: same_kernel_def registered_def)
  show W: "waits_for s' = waits_for s"
    using assms R by (auto simp: same_kernel_def waits_for_def fun_eq_iff mutex_magic_ok_def mutex_owner_def)
  show P: "prio s' = prio s" using assms by (simp add: same_kernel_def prio_def fun_eq_iff)
  show "eff s' x = eff s x"
    by (rule eff_cong) (use assms in \<open>simp_all add: W P same_kernel_def\<close>)
qed

lemma sched_ok_same: "same_kernel s s' \<Longrightarrow> sched_ok s \<Longrightarrow> sched_ok s'"
  using same_kernel_waits(1) [of s s']
  unfolding sched_ok_def same_kernel_def by (cases "g_fr_scheduler_running s") auto

lemma base_ok_same: "same_kernel s s' \<Longrightarrow> base_ok s \<Longrightarrow> base_ok s'"
  using same_kernel_waits [of s s'] sched_ok_same [of s s']
  by (simp add: same_kernel_def base_ok_def waits_ok_def mutex_waits_ok_def slots_free_def)

lemma inherit_ok_same: "same_kernel s s' \<Longrightarrow> inherit_ok s \<Longrightarrow> inherit_ok s'"
  using same_kernel_waits [of s s'] unfolding inherit_ok_def inherit_inv_def prios_le_def by auto

lemma kernel_ok_same: "same_kernel s s' \<Longrightarrow> kernel_ok s \<Longrightarrow> kernel_ok s'"
  unfolding kernel_ok_def using base_ok_same inherit_ok_same by blast

text \<open>The stack fields of a control block are written only at creation and by the context switch.\<close>

lemma stack_valid_updates [simp]:
  "fr_kernel_stack_geometry_valid (t\<lparr>priority := v\<rparr>) = fr_kernel_stack_geometry_valid t"
  "fr_kernel_stack_geometry_valid (wake_task r c t) = fr_kernel_stack_geometry_valid t"
  "fr_kernel_stack_geometry_valid (sleep_task q a n w t) = fr_kernel_stack_geometry_valid t"
  "fr_kernel_stack_geometry_valid (t\<lparr>task_state := st\<rparr>) = fr_kernel_stack_geometry_valid t"
  "fr_kernel_stack_geometry_valid (t\<lparr>saved_sp := sp\<rparr>) = fr_kernel_stack_geometry_valid t"
  by (simp_all add: fr_kernel_stack_geometry_valid_def)

lemma saved_sp_valid_updates [simp]:
  "fr_kernel_saved_sp_valid (t\<lparr>priority := v\<rparr>) = fr_kernel_saved_sp_valid t"
  "fr_kernel_saved_sp_valid (wake_task r c t) = fr_kernel_saved_sp_valid t"
  "fr_kernel_saved_sp_valid (sleep_task q a n w t) = fr_kernel_saved_sp_valid t"
  "fr_kernel_saved_sp_valid (t\<lparr>task_state := st\<rparr>) = fr_kernel_saved_sp_valid t"
  by (simp_all add: fr_kernel_saved_sp_valid_def)

lemma wait_state_valid_updates [simp]:
  "fr_kernel_wait_state_valid (t\<lparr>priority := v\<rparr>) = fr_kernel_wait_state_valid t"
  "fr_kernel_wait_state_valid (t\<lparr>saved_sp := sp\<rparr>) = fr_kernel_wait_state_valid t"
  "fr_kernel_wait_state_valid (wake_task r c t)"
  by (simp_all add: fr_kernel_wait_state_valid_def)

lemma task_ok_priority [simp]: "task_ok i (t\<lparr>priority := v\<rparr>) = task_ok i t"
  by (simp add: task_ok_def)

lemma wait_ok_priority [simp]: "wait_ok obs (t\<lparr>priority := v\<rparr>) = wait_ok obs t"
  by (cases "wait_reason t") (simp_all add: wait_ok_def)

lemma sched_ok_with_prio [simp]: "sched_ok (with_prio s f) = sched_ok s"
  by (simp add: sched_ok_def)

lemma sched_ok_set_object [simp]: "sched_ok (set_object a ob s) = sched_ok s"
  by (simp add: sched_ok_def)

lemma base_ok_with_prio [simp]: "base_ok (with_prio s f) = base_ok s"
  by (simp add: base_ok_def waits_ok_def slots_free_def)


section \<open>Waking a task\<close>

lemma registered_index: "p \<in> registered s \<longleftrightarrow> (\<exists>i < unat (g_fr_task_count s). p = Pool i)"
  by (auto simp: registered_def)

lemma task_ok_registered:
  assumes "base_ok s" and "p \<in> registered s"
  shows "\<exists>i. p = Pool i \<and> task_ok i (tcb s p)"
  using assms by (auto simp: registered_index base_ok_def)

lemma blocked_task:
  assumes "base_ok s" and "p \<in> registered s" and "task_state (tcb s p) = STATE_BLOCKED"
  shows "wait_reason (tcb s p) \<noteq> WAIT_NONE" "wait_result (tcb s p) = RESULT_PENDING"
    "waiting (wait_reason (tcb s p)) (wait_object (tcb s p)) s p"
  using task_ok_registered [OF assms(1,2)] assms(2,3)
  by (auto simp: task_ok_def fr_kernel_wait_state_valid_def waiting_def split: if_splits)

lemma blocked_is_live:
  assumes "base_ok s" and "p \<in> registered s" and "task_state (tcb s p) = STATE_BLOCKED"
  shows "g_fr_scheduler_running s"
  using base_okD(3) [OF assms(1)] assms(2,3) by (force simp: sched_ok_def split: if_splits)

lemma waits_for_woken: "waits_for (woken p r s) w z \<longleftrightarrow> waits_for s w z \<and> w \<noteq> p"
  by (auto simp: waits_for_def mutex_magic_ok_def mutex_owner_def)

lemma task_ok_wake: "task_ok i t \<Longrightarrow> task_state t = STATE_BLOCKED \<Longrightarrow> task_ok i (wake_task r c t)"
  by (auto simp: task_ok_def)

lemma base_ok_woken:
  assumes "base_ok s" and "p \<in> registered s" and "task_state (tcb s p) = STATE_BLOCKED"
  shows "base_ok (woken p r s)"
proof -
  have run: "g_fr_scheduler_running s" by (rule blocked_is_live [OF assms])
  have "task_ok i (tcb (woken p r s) (Pool i))" if "i < unat (g_fr_task_count s)" for i
    using that assms base_okD(2) [OF assms(1) that] by (auto intro: task_ok_wake)
  moreover have "sched_ok (woken p r s)"
    using base_okD(3) [OF assms(1)] run assms(2) by (auto simp: sched_ok_def)
  moreover have "waits_ok (woken p r s)"
    using base_okD(5) [OF assms(1)] by (simp add: waits_ok_def)
  moreover have "mutex_waits_ok (woken p r s)"
    using base_okD(6) [OF assms(1)] by (auto simp: mutex_waits_ok_def waits_for_woken)
  moreover have "slots_free (woken p r s)"
    using base_okD(7) [OF assms(1)] assms(2) by (auto simp: slots_free_def)
  ultimately show ?thesis using base_okD(1,4) [OF assms(1)] by (simp add: base_ok_def)
qed

lemma prio_woken [simp]: "prio (woken p r s) = prio s"
  by (simp add: prio_def fun_eq_iff)

text \<open>Waking a task that waits for no mutex leaves every inherited priority right.\<close>

lemma inherit_ok_woken:
  assumes "inherit_ok s" and "wait_reason (tcb s p) \<noteq> WAIT_MUTEX"
  shows "inherit_ok (woken p r s)"
proof -
  have W: "waits_for (woken p r s) w z \<longleftrightarrow> waits_for s w z" for w z
    using assms(2) unfolding waits_for_woken by (auto simp: waits_for_def)
  have "eff (woken p r s) x = eff s x" for x
    by (rule eff_cong) (simp_all add: W)
  then show ?thesis
    using assms(1) unfolding inherit_ok_def inherit_inv_def prios_le_def by auto
qed

lemma kernel_ok_woken:
  assumes "kernel_ok s" and "p \<in> registered s" and "task_state (tcb s p) = STATE_BLOCKED"
    and "wait_reason (tcb s p) \<noteq> WAIT_MUTEX"
  shows "kernel_ok (woken p r s)"
  using assms by (simp add: kernel_ok_def base_ok_woken inherit_ok_woken)


section \<open>Suspending the current task\<close>

lemma can_block_registered:
  assumes "base_ok s" and "can_block p s"
  shows "p \<in> registered s" "task_state (tcb s p) = STATE_RUNNING"
  using base_okD(3) [OF assms(1)] assms(2) by (auto simp: can_block_def sched_ok_def)

lemma running_task_waits_for_nothing:
  assumes "base_ok s" and "can_block p s"
  shows "\<not> waits_for s p z"
  using can_block_registered [OF assms] by (simp add: waits_for_def)

lemma waits_for_suspended:
  "waits_for (suspended p r a n s) w z \<longleftrightarrow>
     (if w = p then p \<in> registered s \<and> r = WAIT_MUTEX \<and> a \<noteq> 0 \<and> mutex_magic_ok a s \<and> mutex_owner a s = Some z
      else waits_for s w z)"
  by (auto simp: waits_for_def mutex_magic_ok_def mutex_owner_def)

lemma prio_suspended [simp]: "prio (suspended p r a n s) = prio s"
  by (simp add: prio_def fun_eq_iff)

text \<open>
  The event-flag fields that must be in place before a task blocks: a condition exactly for a wait on
  event flags.
\<close>

definition flag_fields_ok :: "fr_wait_reason \<Rightarrow> fr_task \<Rightarrow> bool" where
  "flag_fields_ok r t \<longleftrightarrow> (if r = WAIT_EVENT_FLAGS then wait_flags_mask t \<noteq> 0
     else wait_flags_mask t = 0 \<and> \<not> wait_flags_all t \<and> \<not> wait_flags_clear_on_exit t)"

lemma running_flag_fields:
  assumes "base_ok s" and "can_block p s" and "r \<noteq> WAIT_EVENT_FLAGS"
  shows "flag_fields_ok r (tcb s p)"
  using task_ok_registered [OF assms(1) can_block_registered(1) [OF assms(1,2)]]
    can_block_registered(2) [OF assms(1,2)] assms(3)
  by (auto simp: task_ok_def fr_kernel_wait_state_valid_def flag_fields_ok_def)

lemma task_ok_sleep:
  assumes "task_ok i t" and "task_state t = STATE_RUNNING" and "wait_args_ok r a n" and "flag_fields_ok r t"
  shows "task_ok i (sleep_task r a n w t)"
  using assms
  by (cases r) (auto simp: task_ok_def fr_kernel_wait_state_valid_def flag_fields_ok_def wait_args_ok_def
      fr_kernel_wait_reason_uses_object_def)


lemma base_ok_suspended:
  assumes "base_ok s" and "can_block p s" and "wait_args_ok r a n" and "flag_fields_ok r (tcb s p)"
    and "wait_ok (objects s) (sleep_task r a n (g_fr_kernel_tick_count s) (tcb s p))"
    and "r = WAIT_MUTEX \<Longrightarrow> \<exists>z \<in> registered s. z \<noteq> p \<and> mutex_magic_ok a s \<and> mutex_owner a s = Some z"
  shows "base_ok (suspended p r a n s)"
proof -
  note p = can_block_registered [OF assms(1,2)]
  have "task_ok i (tcb (suspended p r a n s) (Pool i))" if "i < unat (g_fr_task_count s)" for i
    using that assms(3,4) p base_okD(2) [OF assms(1) that] by (auto intro: task_ok_sleep)
  moreover have "sched_ok (suspended p r a n s)"
    using base_okD(3) [OF assms(1)] assms(2) p by (auto simp: sched_ok_def can_block_def)
  moreover have "waits_ok (suspended p r a n s)"
    using base_okD(5) [OF assms(1)] assms(5) by (simp add: waits_ok_def)
  moreover have "mutex_waits_ok (suspended p r a n s)"
    using base_okD(6) [OF assms(1)] assms(3,6) p
    by (auto simp: mutex_waits_ok_def waits_for_suspended wait_args_ok_def)
  moreover have "slots_free (suspended p r a n s)"
    using base_okD(7) [OF assms(1)] p(1) by (auto simp: slots_free_def)
  ultimately show ?thesis using base_okD(1,4) [OF assms(1)] by (simp add: base_ok_def)
qed

lemma inherit_okI:
  assumes "inherit_ok s" and "registered s' = registered s" and "prio s' = prio s"
    and "\<And>x. x \<in> registered s \<Longrightarrow> eff s' x = eff s x"
  shows "inherit_ok s'"
  using assms unfolding inherit_ok_def inherit_inv_def prios_le_def by auto

lemma inherit_ok_suspended:
  assumes "base_ok s" and "inherit_ok s" and "can_block p s" and "r \<noteq> WAIT_MUTEX"
  shows "inherit_ok (suspended p r a n s)"
proof (rule inherit_okI [OF assms(2)])
  show "eff (suspended p r a n s) x = eff s x" for x
    by (rule eff_cong) (use assms running_task_waits_for_nothing [OF assms(1,3)] in
        \<open>auto simp: waits_for_suspended\<close>)
qed simp_all

lemma kernel_ok_suspended:
  assumes "kernel_ok s" and "can_block p s" and "wait_args_ok r a n" and "flag_fields_ok r (tcb s p)"
    and "wait_ok (objects s) (sleep_task r a n (g_fr_kernel_tick_count s) (tcb s p))" and "r \<noteq> WAIT_MUTEX"
  shows "kernel_ok (suspended p r a n s)"
  using assms by (auto simp: kernel_ok_def intro: base_ok_suspended inherit_ok_suspended)


section \<open>Priority chains\<close>

lemma inherit_loop_le:
  assumes "mutex_waits_ok s" and "x \<in> registered s" and "prios_le s" and "d \<le> 31"
  shows "prios_le (inherit_loop n (Some x) d s)"
  using assms
proof (induction n arbitrary: x d s)
  case 0
  then show ?case by simp
next
  case (Suc n)
  let ?s = "with_prio s ((prio s)(x := max d (prio s x)))"
  have m: "max d (prio s x) \<le> 31" using Suc.prems(2-4) by (simp add: prios_le_def)
  have le: "prios_le ?s" using Suc.prems(3) m by (simp add: prios_le_def)
  show ?case
  proof (cases "upstream s x")
    case None
    with le show ?thesis by (simp add: inherit_loop_step Let_def)
  next
    case (Some z)
    then have "z \<in> registered s"
      using upstream_iff [OF Suc.prems(1,2)] waits_for_target [OF Suc.prems(1)] by simp
    then have "prios_le (inherit_loop n (Some z) (max d (prio s x)) ?s)"
      using le m Suc.prems(1) by (intro Suc.IH) simp_all
    with Some show ?thesis by (simp add: inherit_loop_step Let_def)
  qed
qed

lemma eff_le_31:
  assumes "base_ok s" and "prios_le s" and "x \<in> registered s"
  shows "eff s x \<le> 31"
  using task_ok_registered [OF assms(1,3)] assms(2)
  by (intro eff_le) (auto simp: task_ok_def prios_le_def waits_for_registered)

lemma recompute_loop_le:
  assumes "base_ok s" and "x \<in> registered s" and "prios_le s"
  shows "prios_le (recompute_loop n (Some x) s)"
  using assms
proof (induction n arbitrary: x s)
  case 0
  then show ?case by simp
next
  case (Suc n)
  let ?s = "with_prio s ((prio s)(x := eff s x))"
  have le: "prios_le ?s"
    using Suc.prems(3) eff_le_31 [OF Suc.prems(1,3,2)] by (simp add: prios_le_def)
  note mw = base_okD(6) [OF Suc.prems(1)]
  show ?case
  proof (cases "upstream s x")
    case None
    with le show ?thesis by (simp add: recompute_loop_step Let_def)
  next
    case (Some z)
    then have "z \<in> registered s" using upstream_iff [OF mw Suc.prems(2)] waits_for_target [OF mw] by simp
    then have "prios_le (recompute_loop n (Some z) ?s)"
      using le Suc.prems(1) by (intro Suc.IH) simp_all
    with Some show ?thesis by (simp add: recompute_loop_step Let_def)
  qed
qed

text \<open>A new mutex wait: the owner is the only task whose equation changes, by the new waiter.\<close>

lemma inherit_ok_mutex_wait:
  assumes "base_ok s" and "inherit_ok s" and "can_block p s" and "wait_args_ok WAIT_MUTEX a n"
    and "z \<in> registered s" and "z \<noteq> p" and "mutex_magic_ok a s" and "mutex_owner a s = Some z"
  shows "kernel_ok (fr_mutex_inherit_priority_chain_locked (Some z) (prio s p)
           (suspended p WAIT_MUTEX a n s))"
proof -
  let ?s = "suspended p WAIT_MUTEX a n s"
  have base: "base_ok ?s"
    using assms(3-8) running_flag_fields [OF assms(1,3)]
    by (intro base_ok_suspended [OF assms(1)]) (auto simp: wait_ok_def)
  note mw = base_okD(6) [OF base]
  note p = can_block_registered [OF assms(1,3)]
  have a0: "a \<noteq> 0" using assms(4) by (simp add: wait_args_ok_def)
  have W: "waits_for ?s w y \<longleftrightarrow> (if w = p then y = z else waits_for s w y)" for w y
    using p a0 assms(7,8) by (auto simp: waits_for_suspended)
  have np: "\<not> waits_for s p y" for y by (rule running_task_waits_for_nothing [OF assms(1,3)])
  have other: "prio ?s y = eff ?s y" if "y \<in> registered s" "y \<noteq> z" for y
  proof -
    have "eff ?s y = eff s y" by (rule eff_cong) (use that np in \<open>auto simp: W\<close>)
    then show ?thesis using assms(2) that by (simp add: inherit_ok_def inherit_inv_def)
  qed
  have ez: "eff s z = prio s z" using assms(2,5) by (simp add: inherit_ok_def inherit_inv_def)
  have "eff ?s z = max (prio ?s z) (prio s p)"
  proof (rule antisym)
    show "eff ?s z \<le> max (prio ?s z) (prio s p)"
      unfolding prio_suspended ez [symmetric]
      by (rule eff_le) (use base_le_eff [of s z] waiter_le_eff [of s _ z] assms(6) in
          \<open>auto simp: W le_max_iff_disj split: if_splits\<close>)
    have "prio s p \<le> eff ?s z" using waiter_le_eff [of ?s p z] by (simp add: W)
    moreover have "eff s z \<le> eff ?s z"
    proof (rule eff_le)
      show "base_priority (tcb s z) \<le> eff ?s z" using base_le_eff [of ?s z] assms(6) by simp
      show "prio s w \<le> eff ?s z" if "waits_for s w z" for w
        using that np waiter_le_eff [of ?s w z] by (auto simp: W)
    qed
    ultimately show "max (prio ?s z) (prio s p) \<le> eff ?s z" by (simp add: ez)
  qed
  then have inv: "inherit_inv (fr_mutex_inherit_priority_chain_locked (Some z) (prio s p) ?s)"
    using other assms(5) by (intro inherit_chain_establishes [OF mw]) simp_all
  have le: "prios_le (fr_mutex_inherit_priority_chain_locked (Some z) (prio s p) ?s)"
    unfolding fr_mutex_inherit_priority_chain_locked_def
    using assms(2,5) p by (intro inherit_loop_le [OF mw]) (auto simp: inherit_ok_def prios_le_def)
  obtain f where f: "fr_mutex_inherit_priority_chain_locked (Some z) (prio s p) ?s = with_prio ?s f"
    unfolding fr_mutex_inherit_priority_chain_locked_def using inherit_loop_with_prio by blast
  show ?thesis using inv le base by (simp add: kernel_ok_def inherit_ok_def f)
qed


text \<open>A mutex wait that ends without a transfer: the owner may keep too high a priority until recomputed.\<close>

lemma recompute_kernel_ok:
  assumes "base_ok s" and "z \<in> registered s" and "prios_le s"
    and "\<And>y. y \<in> registered s \<Longrightarrow> y \<noteq> z \<Longrightarrow> prio s y = eff s y" and "eff s z \<le> prio s z"
  shows "kernel_ok (fr_mutex_recompute_priority_chain_locked (Some z) s)"
proof -
  obtain f where f: "fr_mutex_recompute_priority_chain_locked (Some z) s = with_prio s f"
    unfolding fr_mutex_recompute_priority_chain_locked_def using recompute_loop_with_prio by blast
  have "inherit_inv (fr_mutex_recompute_priority_chain_locked (Some z) s)"
    by (rule recompute_chain_establishes [OF base_okD(6) [OF assms(1)] assms(2,4,5)])
  moreover have "prios_le (fr_mutex_recompute_priority_chain_locked (Some z) s)"
    unfolding fr_mutex_recompute_priority_chain_locked_def by (rule recompute_loop_le [OF assms(1-3)])
  ultimately show ?thesis using assms(1) by (simp add: kernel_ok_def inherit_ok_def f)
qed

lemma inherit_ok_eff: "inherit_ok s \<Longrightarrow> x \<in> registered s \<Longrightarrow> eff s x = prio s x"
  by (simp add: inherit_ok_def inherit_inv_def)

lemma kernel_ok_mutex_timeout:
  assumes "kernel_ok s" and "p \<in> registered s" and "task_state (tcb s p) = STATE_BLOCKED"
    and "wait_reason (tcb s p) = WAIT_MUTEX"
  shows "kernel_ok (fr_mutex_waiter_removed_locked (wait_object (tcb s p)) (woken p r s))"
proof -
  let ?a = "wait_object (tcb s p)" and ?s = "woken p r s"
  note base = kernel_okD(1) [OF assms(1)] and inh = kernel_okD(2) [OF assms(1)]
  obtain z where z: "z \<in> registered s" "z \<noteq> p" "waits_for s p z"
    using base_okD(6) [OF base] assms(2-4) unfolding mutex_waits_ok_def by blast
  then have own: "mutex_owner ?a ?s = Some z" "mutex_magic_ok ?a ?s" "?a \<noteq> 0"
    by (auto simp: waits_for_def mutex_owner_def mutex_magic_ok_def)
  have "prio ?s y = eff ?s y" if "y \<in> registered s" "y \<noteq> z" for y
  proof -
    have "eff ?s y = eff s y"
      by (rule eff_cong) (use that waits_for_unique [OF z(3)] in \<open>auto simp: waits_for_woken\<close>)
    then show ?thesis using inherit_ok_eff [OF inh that(1)] by simp
  qed
  moreover have "eff ?s z \<le> prio ?s z"
    unfolding prio_woken inherit_ok_eff [OF inh z(1), symmetric]
    by (rule eff_le) (use base_le_eff [of s z] waiter_le_eff [of s _ z] in \<open>auto simp: waits_for_woken\<close>)
  ultimately have "kernel_ok (fr_mutex_recompute_priority_chain_locked (Some z) ?s)"
    using z(1) inh base_ok_woken [OF base assms(2,3)]
    by (intro recompute_kernel_ok) (auto simp: inherit_ok_def prios_le_def)
  then show ?thesis by (simp add: fr_mutex_waiter_removed_locked_def own)
qed


section \<open>Writing a kernel object\<close>

lemma waits_for_set_object:
  assumes "\<And>m. objects s a \<noteq> Mutex m" and "\<And>m. ob \<noteq> Mutex m"
  shows "waits_for (set_object a ob s) w z \<longleftrightarrow> waits_for s w z"
  using assms by (auto simp: waits_for_def mutex_magic_ok_def mutex_owner_def split: kobj.splits)

text \<open>An object that is no mutex may change as long as the tasks that wait for it still have to.\<close>

lemma kernel_ok_set_object:
  assumes "kernel_ok s" and "object_ok (registered s) ob"
    and "\<And>m. objects s a \<noteq> Mutex m" and "\<And>m. ob \<noteq> Mutex m"
    and "\<And>p. p \<in> registered s \<Longrightarrow> task_state (tcb s p) = STATE_BLOCKED \<Longrightarrow> wait_object (tcb s p) = a \<Longrightarrow>
            wait_ok ((objects s)(a := ob)) (tcb s p)"
  shows "kernel_ok (set_object a ob s)"
proof -
  note base = kernel_okD(1) [OF assms(1)] and inh = kernel_okD(2) [OF assms(1)]
  have W: "waits_for (set_object a ob s) = waits_for s"
    using waits_for_set_object [OF assms(3,4)] by (simp add: fun_eq_iff)
  have "waits_ok (set_object a ob s)"
    unfolding waits_ok_def
  proof (intro ballI impI)
    fix p assume "p \<in> registered (set_object a ob s)" and "task_state (tcb (set_object a ob s) p) = STATE_BLOCKED"
    then have p: "p \<in> registered s" "task_state (tcb s p) = STATE_BLOCKED" by simp_all
    show "wait_ok (objects (set_object a ob s)) (tcb (set_object a ob s) p)"
    proof (cases "wait_object (tcb s p) = a")
      case True
      then show ?thesis using assms(5) [OF p] by simp
    next
      case False
      then show ?thesis using base_okD(5) [OF base] p by (auto simp: waits_ok_def wait_ok_def split: fr_wait_reason.splits)
    qed
  qed
  moreover have "mutex_waits_ok (set_object a ob s)"
    using base_okD(6) [OF base] by (simp add: mutex_waits_ok_def W)
  ultimately have "base_ok (set_object a ob s)"
    using base_okD(1-4,7) [OF base] assms(2) by (simp add: base_ok_def slots_free_def)
  moreover have "inherit_ok (set_object a ob s)"
    by (rule inherit_okI [OF inh]) (auto simp: prio_def fun_eq_iff W intro: eff_cong)
  ultimately show ?thesis by (simp add: kernel_ok_def)
qed


lemma prio_set_object [simp]: "prio (set_object a ob s) = prio s"
  by (simp add: prio_def fun_eq_iff)

lemma woken_set_object: "woken p r (set_object a ob s) = set_object a ob (woken p r s)"
  by (simp add: woken_def set_object_def upd_task_def fr_trace_record_locked_def fr_tick_now_def Let_def)

lemma wait_ok_mutex_write:
  "obs a = Mutex m \<Longrightarrow> wait_ok (obs(a := Mutex m')) t = wait_ok obs t"
  by (auto simp: wait_ok_def sem_tokens_def split: fr_wait_reason.splits)

lemma base_ok_mutex_write:
  assumes "base_ok s" and "objects s a = Mutex m" and "object_ok (registered s) (Mutex m')"
    and "mutex_waits_ok (set_object a (Mutex m') s)"
  shows "base_ok (set_object a (Mutex m') s)"
  using base_okD [OF assms(1)] assms(3,4)
  by (simp add: base_ok_def waits_ok_def slots_free_def wait_ok_mutex_write [of "objects s", OF assms(2)])

lemma waits_for_mutex_write:
  assumes "objects s a = Mutex m" and "mx_magic m = FR_MUTEX_MAGIC" and "mx_magic m' = FR_MUTEX_MAGIC"
  shows "waits_for (set_object a (Mutex m') s) w z \<longleftrightarrow>
    (if w \<in> registered s \<and> waiting WAIT_MUTEX a s w \<and> a \<noteq> 0 then mx_owner m' = Some z else waits_for s w z)"
  using assms by (auto simp: waits_for_def waiting_def mutex_magic_ok_def mutex_owner_def)

lemma waiting_mutex:
  assumes "base_ok s" and "waiting WAIT_MUTEX a s p" and "objects s a = Mutex m"
  shows "\<exists>z \<in> registered s. z \<noteq> p \<and> mx_owner m = Some z \<and> waits_for s p z"
  using base_okD(6) [OF assms(1)] assms(2,3)
  by (auto simp: mutex_waits_ok_def waiting_def waits_for_def mutex_owner_def)

text \<open>Writing the owner of a mutex that nobody waits for.\<close>

lemma kernel_ok_mutex_owner:
  assumes "kernel_ok s" and "objects s a = Mutex m" and "\<And>p. \<not> waiting WAIT_MUTEX a s p"
    and "set_option ow \<subseteq> registered s"
  shows "kernel_ok (set_object a (Mutex (m\<lparr>mx_owner := ow\<rparr>)) s)"
proof -
  note base = kernel_okD(1) [OF assms(1)] and inh = kernel_okD(2) [OF assms(1)]
  have m: "mx_magic m = FR_MUTEX_MAGIC" using base_okD(4) [OF base, of a] assms(2) by simp
  have W: "waits_for (set_object a (Mutex (m\<lparr>mx_owner := ow\<rparr>)) s) = waits_for s"
    using waits_for_mutex_write [OF assms(2), of "m\<lparr>mx_owner := ow\<rparr>"] m assms(3) by (simp add: fun_eq_iff)
  have "base_ok (set_object a (Mutex (m\<lparr>mx_owner := ow\<rparr>)) s)"
    using base_okD(6) [OF base] assms(4) m
    by (intro base_ok_mutex_write [OF base assms(2)]) (simp_all add: mutex_waits_ok_def W)
  moreover have "inherit_ok (set_object a (Mutex (m\<lparr>mx_owner := ow\<rparr>)) s)"
    by (rule inherit_okI [OF inh]) (auto simp: W intro: eff_cong)
  ultimately show ?thesis by (simp add: kernel_ok_def)
qed

text \<open>
  Handing a mutex from its owner \<open>c\<close> to the most urgent waiter \<open>w\<close>: the other waiters now wait for
  \<open>w\<close>, which already has their priority, and \<open>c\<close> is recomputed.
\<close>

lemma kernel_ok_mutex_transfer:
  assumes "kernel_ok s" and "objects s a = Mutex m" and "mx_owner m = Some c"
    and "waiting WAIT_MUTEX a s w" and "\<And>q. waiting WAIT_MUTEX a s q \<Longrightarrow> prio s q \<le> prio s w"
  shows "kernel_ok (fr_mutex_recompute_priority_chain_locked (Some c)
           (woken w RESULT_SIGNALED (set_object a (Mutex (m\<lparr>mx_owner := Some w\<rparr>)) s)))"
proof -
  let ?s1 = "set_object a (Mutex (m\<lparr>mx_owner := Some w\<rparr>)) s"
  let ?s = "woken w RESULT_SIGNALED ?s1"
  note base = kernel_okD(1) [OF assms(1)] and inh = kernel_okD(2) [OF assms(1)]
  have m: "mx_magic m = FR_MUTEX_MAGIC" using base_okD(4) [OF base, of a] assms(2) by simp
  obtain c: "c \<in> registered s" "c \<noteq> w" "waits_for s w c"
    using waiting_mutex [OF base assms(4,2)] assms(3) by auto
  have w: "w \<in> registered s" "task_state (tcb s w) = STATE_BLOCKED" "wait_object (tcb s w) = a" "a \<noteq> 0"
    using assms(4) c(3) by (auto simp: waiting_def waits_for_def)
  have old: "waits_for s q c" if "waiting WAIT_MUTEX a s q" for q
    using waiting_mutex [OF base that assms(2)] assms(3) by auto
  have W: "waits_for ?s q y \<longleftrightarrow> q \<noteq> w \<and> (if waiting WAIT_MUTEX a s q then y = w else waits_for s q y)" for q y
    using waits_for_mutex_write [OF assms(2) m, of "m\<lparr>mx_owner := Some w\<rparr>"] m w(4)
    by (auto simp: waits_for_woken waiting_def)
  have keep: "waits_for s q y" if "waits_for ?s q y" "y \<noteq> w" for q y
    using that by (simp add: W split: if_splits)
  have swap: "?s = set_object a (Mutex (m\<lparr>mx_owner := Some w\<rparr>)) (woken w RESULT_SIGNALED s)"
    by (rule woken_set_object)
  have base': "base_ok ?s"
    unfolding swap
  proof (rule base_ok_mutex_write)
    show "mutex_waits_ok (set_object a (Mutex (m\<lparr>mx_owner := Some w\<rparr>)) (woken w RESULT_SIGNALED s))"
      unfolding mutex_waits_ok_def swap [symmetric]
    proof (intro ballI impI)
      fix q assume "q \<in> registered ?s"
        "task_state (tcb ?s q) = STATE_BLOCKED \<and> wait_reason (tcb ?s q) = WAIT_MUTEX"
      then have "q \<noteq> w" "\<exists>z \<in> registered s. z \<noteq> q \<and> waits_for s q z"
        using base_okD(6) [OF base] by (auto simp: mutex_waits_ok_def split: if_splits)
      then show "\<exists>z \<in> registered ?s. z \<noteq> q \<and> waits_for ?s q z"
        using w(1) by (cases "waiting WAIT_MUTEX a s q") (auto simp: W)
    qed
  qed (use assms(2) m w base_ok_woken [OF base w(1,2)] in auto)
  have "prio ?s y = eff ?s y" if y: "y \<in> registered s" "y \<noteq> c" for y
  proof (cases "y = w")
    case False
    have "eff ?s y = eff s y"
      by (rule eff_cong)
        (use False y old waits_for_unique [of s] c(3) in \<open>auto simp: W split: if_splits\<close>)
    then show ?thesis using inherit_ok_eff [OF inh y(1)] by simp
  next
    case True
    have "eff ?s w \<le> prio s w"
      using base_le_eff [of s w] waiter_le_eff [of s _ w] assms(5) inherit_ok_eff [OF inh w(1)]
      by (intro eff_le) (auto simp: W split: if_splits)
    moreover have "eff s w \<le> eff ?s w"
    proof (rule eff_le)
      show "base_priority (tcb s w) \<le> eff ?s w" using base_le_eff [of ?s w] by simp
      show "prio s q \<le> eff ?s w" if "waits_for s q w" for q
        using that old waits_for_unique [of s q w c] c(2) waiter_le_eff [of ?s q w]
          waits_for_target [OF base_okD(6) [OF base] that] by (auto simp: W)
    qed
    ultimately show ?thesis using True inherit_ok_eff [OF inh w(1)] by simp
  qed
  moreover have "eff ?s c \<le> prio ?s c"
    unfolding prio_woken prio_set_object inherit_ok_eff [OF inh c(1), symmetric]
    by (rule eff_le) (use base_le_eff [of s c] waiter_le_eff [of s _ c] keep [of _ c] c(2) in auto)
  ultimately show ?thesis
    using base' c(1) inh by (intro recompute_kernel_ok) (auto simp: inherit_ok_def prios_le_def)
qed

end
