(* ===== verification/Scheduler_Steps.thy ===== *)
theory Scheduler_Steps
  imports Kernel_Invariant
begin

text \<open>
  The scheduler's entry points preserve the kernel invariant and never run into one of their
  assertions: the tick (with the expiry of timed waits), the context switch, sleeping and yielding.
\<close>


section \<open>Expiry of timed waits\<close>

definition expires :: "u32 \<Rightarrow> fr_task \<Rightarrow> bool" where
  "expires now t \<longleftrightarrow> task_state t = STATE_BLOCKED \<and> wait_has_deadline t \<and>
     fr_tick_deadline_reached now (wait_deadline t)"

text \<open>Everything but the control blocks, the trace and the timeout statistics is the same.\<close>

definition outside_same :: "kernel \<Rightarrow> kernel \<Rightarrow> bool" where
  "outside_same s s' \<longleftrightarrow> g_fr_task_count s' = g_fr_task_count s \<and>
     g_fr_scheduler_current_task s' = g_fr_scheduler_current_task s \<and>
     g_fr_scheduler_running s' = g_fr_scheduler_running s \<and>
     g_fr_kernel_tick_count s' = g_fr_kernel_tick_count s \<and> objects s' = objects s \<and>
     ram s' = ram s \<and> cpu s' = cpu s \<and> links s' = links s \<and> pendsv_pending s' = pendsv_pending s"

text \<open>The tasks of \<open>ps\<close> whose deadline has passed are woken; nothing else but effective priorities changes.\<close>

definition expired_in :: "u32 \<Rightarrow> task_ptr set \<Rightarrow> kernel \<Rightarrow> kernel \<Rightarrow> bool" where
  "expired_in now ps s s' \<longleftrightarrow> outside_same s s' \<and>
     (\<forall>p. tcb s' p = (if p \<in> ps \<and> expires now (tcb s p)
                      then wake_task RESULT_TIMEOUT (g_fr_scheduler_current_task s = Some p) (tcb s p)
                      else tcb s p)\<lparr>priority := prio s' p\<rparr>)"

lemma expires_priority [simp]: "expires now (t\<lparr>priority := v\<rparr>) = expires now t"
  by (simp add: expires_def)

lemma expires_woken [simp]: "\<not> expires now (wake_task r c t)"
  by (simp add: expires_def)

lemma priority_self [simp]: "(tcb s p)\<lparr>priority := prio s p\<rparr> = tcb s p"
  by (simp add: prio_def)

lemma wake_task_priority: "wake_task r c (t\<lparr>priority := v\<rparr>) = (wake_task r c t)\<lparr>priority := v\<rparr>"
  by (simp add: wake_task_def)

lemma expired_in_none: "expired_in now {} s s"
  by (simp add: expired_in_def outside_same_def)

lemma expired_in_step:
  assumes "expired_in now ps s s1" and "expired_in now {p} s1 s2" and "p \<notin> ps"
  shows "expired_in now (insert p ps) s s2"
  unfolding expired_in_def
proof (intro conjI allI)
  show "outside_same s s2" using assms(1,2) by (auto simp: expired_in_def outside_same_def)
  fix q
  have cur: "g_fr_scheduler_current_task s1 = g_fr_scheduler_current_task s"
    using assms(1) by (simp add: expired_in_def outside_same_def)
  have 1: "tcb s1 q = (if q \<in> ps \<and> expires now (tcb s q)
      then wake_task RESULT_TIMEOUT (g_fr_scheduler_current_task s = Some q) (tcb s q)
      else tcb s q)\<lparr>priority := prio s1 q\<rparr>"
    using assms(1) by (simp add: expired_in_def)
  have 2: "tcb s2 q = (if q = p \<and> expires now (tcb s1 q)
      then wake_task RESULT_TIMEOUT (g_fr_scheduler_current_task s = Some q) (tcb s1 q)
      else tcb s1 q)\<lparr>priority := prio s2 q\<rparr>"
    using assms(2) [unfolded expired_in_def, THEN conjunct2, rule_format, of q] unfolding cur by auto
  show "tcb s2 q = (if q \<in> insert p ps \<and> expires now (tcb s q)
      then wake_task RESULT_TIMEOUT (g_fr_scheduler_current_task s = Some q) (tcb s q)
      else tcb s q)\<lparr>priority := prio s2 q\<rparr>"
    using assms(3) unfolding 2 1 by (auto simp: wake_task_priority)
qed

lemma outside_same_with_prio: "outside_same s (with_prio s f)"
  by (simp add: outside_same_def)

lemma expire_step_ok:
  assumes "kernel_ok s" and "i < unat (g_fr_task_count s)"
  obtains s' where "expire_step now i s = Ret () s'" "kernel_ok s'" "expired_in now {Pool i} s s'"
proof -
  let ?p = "Pool i" and ?t = "tcb s (Pool i)"
  have at: "fr_task_internal_at i s = Some ?p" using assms(2) by (simp add: fr_task_internal_at_def)
  have p: "?p \<in> registered s" using assms(2) by simp
  show thesis
  proof (cases "expires now ?t")
    case False
    then have "expire_step now i s = Ret () s" by (auto simp: expire_step_def at expires_def)
    moreover have "expired_in now {?p} s s"
      using False by (auto simp: expired_in_def outside_same_def)
    ultimately show thesis using assms(1) that by blast
  next
    case True
    then have b: "task_state ?t = STATE_BLOCKED" by (simp add: expires_def)
    let ?s1 = "woken ?p RESULT_TIMEOUT s"
    note bt = blocked_task [OF kernel_okD(1) [OF assms(1)] p b]
    define s2 where "s2 = (if wait_reason ?t = WAIT_MUTEX \<and> wait_object ?t \<noteq> 0
        then fr_mutex_waiter_removed_locked (wait_object ?t) ?s1 else ?s1)"
    define s3 where "s3 = s2\<lparr>g_fr_scheduler_timeout_count := g_fr_scheduler_timeout_count s2 + 1,
        g_fr_scheduler_last_timeout_task_id := task_id (tcb s2 ?p),
        g_fr_scheduler_last_timeout_tick := now,
        g_fr_scheduler_last_timeout_deadline := wait_deadline ?t\<rparr>"
    have step: "expire_step now i s = Ret () s3"
      using True bt unfolding expire_step_def at s3_def s2_def
      by (simp add: expires_def unblock_closed Let_def)
    have ob: "wait_reason ?t = WAIT_MUTEX \<Longrightarrow> wait_object ?t \<noteq> 0"
      using base_okD(2) [OF kernel_okD(1) [OF assms(1)] assms(2)] b
      by (auto simp: task_ok_def fr_kernel_wait_state_valid_def fr_kernel_wait_reason_uses_object_def
          split: if_splits)
    have "kernel_ok s2"
      unfolding s2_def using kernel_ok_mutex_timeout [OF assms(1) p b] kernel_ok_woken [OF assms(1) p b] ob
      by auto
    moreover have same: "same_kernel s2 s3" by (simp add: same_kernel_def s3_def)
    ultimately have ok: "kernel_ok s3" using kernel_ok_same by blast
    obtain f where f: "s2 = with_prio ?s1 f"
      unfolding s2_def using waiter_removed_with_prio with_prio_self by metis
    have "prio s3 = f" by (simp add: prio_def s3_def f fun_eq_iff)
    then have "expired_in now {?p} s s3"
      using True by (auto simp: expired_in_def outside_same_def s3_def f)
    then show thesis using step ok that by blast
  qed
qed

lemma expire_loop_ok:
  assumes "kernel_ok s" and "distinct is" and "\<And>i. i \<in> set is \<Longrightarrow> i < unat (g_fr_task_count s)"
  shows "\<exists>s'. expire_loop now is s = Ret () s' \<and> kernel_ok s' \<and> expired_in now (Pool ` set is) s s'"
proof -
  have "\<exists>s'. expire_loop now is s1 = Ret () s' \<and> kernel_ok s' \<and> expired_in now (ps \<union> Pool ` set is) s s'"
    if "kernel_ok s1" "expired_in now ps s s1" "ps \<inter> Pool ` set is = {}" for ps s1
    using that assms(2,3)
  proof (induction "is" arbitrary: ps s1)
    case Nil
    then show ?case by simp
  next
    case (Cons i "is")
    have n: "g_fr_task_count s1 = g_fr_task_count s"
      using Cons.prems(2) by (simp add: expired_in_def outside_same_def)
    have i: "i < unat (g_fr_task_count s1)" unfolding n by (rule Cons.prems(5)) simp
    obtain s2 where s2: "expire_step now i s1 = Ret () s2" "kernel_ok s2" "expired_in now {Pool i} s1 s2"
      using expire_step_ok [OF Cons.prems(1) i] by blast
    have "expired_in now (insert (Pool i) ps) s s2"
      using expired_in_step [OF Cons.prems(2) s2(3)] Cons.prems(3) by auto
    moreover have "insert (Pool i) ps \<inter> Pool ` set is = {}" using Cons.prems(3,4) by auto
    ultimately have "\<exists>s'. expire_loop now is s2 = Ret () s' \<and> kernel_ok s' \<and>
        expired_in now (insert (Pool i) ps \<union> Pool ` set is) s s'"
      using Cons.prems(4,5) by (intro Cons.IH [OF s2(2)]) auto
    then show ?case using s2(1) by auto
  qed
  from this [OF assms(1) expired_in_none] show ?thesis by simp
qed

lemma expire_timeouts_ok:
  assumes "kernel_ok s"
  obtains s' where "fr_scheduler_expire_timeouts now s = Ret () s'" "kernel_ok s'"
    "expired_in now (registered s) s s'"
proof -
  have "\<exists>s'. expire_loop now [0..<unat (g_fr_task_count s)] s = Ret () s' \<and> kernel_ok s' \<and>
      expired_in now (Pool ` set [0..<unat (g_fr_task_count s)]) s s'"
    by (rule expire_loop_ok [OF assms]) auto
  then show thesis
    using that by (auto simp: fr_scheduler_expire_timeouts_def fr_task_internal_count_def registered_def
        atLeast0LessThan)
qed


section \<open>The tick\<close>

lemma current_task_cases:
  assumes "sched_ok s" and "g_fr_scheduler_running s"
  obtains c where "g_fr_scheduler_current_task s = Some c" "c = IdleTask \<or> c \<in> registered s"
    "task_state (tcb s c) = STATE_RUNNING \<or> task_state (tcb s c) = STATE_BLOCKED"
  using assms by (auto simp: sched_ok_def)

lemma tick_ok:
  assumes "kernel_ok s" and "g_fr_scheduler_running s"
  obtains s1 s' where "SysTick_Handler s = Ret () s'" "kernel_ok s'"
    "expired_in (g_fr_kernel_tick_count s + 1) (registered s)
       (s\<lparr>g_fr_kernel_tick_count := g_fr_kernel_tick_count s + 1\<rparr>) s1"
    "s' = (if fr_scheduler_select_next (g_fr_scheduler_current_task s) s1 \<noteq> g_fr_scheduler_current_task s
           then fr_port_request_context_switch s1 else s1)"
proof -
  let ?s0 = "s\<lparr>g_fr_kernel_tick_count := g_fr_kernel_tick_count s + 1\<rparr>"
  have "same_kernel s ?s0" by (simp add: same_kernel_def)
  then have ok0: "kernel_ok ?s0" using assms(1) kernel_ok_same by blast
  obtain s1 where s1: "fr_scheduler_expire_timeouts (g_fr_kernel_tick_count s + 1) ?s0 = Ret () s1"
    "kernel_ok s1" "expired_in (g_fr_kernel_tick_count s + 1) (registered ?s0) ?s0 s1"
    using expire_timeouts_ok [OF ok0] by blast
  have fr: "g_fr_scheduler_running s1" "g_fr_scheduler_current_task s1 = g_fr_scheduler_current_task s"
    using s1(3) assms(2) by (simp_all add: expired_in_def outside_same_def)
  obtain c where c: "g_fr_scheduler_current_task s1 = Some c"
    "c = IdleTask \<or> c \<in> registered s1"
    "task_state (tcb s1 c) = STATE_RUNNING \<or> task_state (tcb s1 c) = STATE_BLOCKED"
    using current_task_cases [OF base_okD(3) [OF kernel_okD(1) [OF s1(2)]] fr(1)] by blast
  obtain p where p: "fr_scheduler_select_next (Some c) s1 = Some p"
    using select_next_total [of c s1] c by metis
  let ?s' = "if fr_scheduler_select_next (g_fr_scheduler_current_task s) s1 \<noteq> g_fr_scheduler_current_task s
           then fr_port_request_context_switch s1 else s1"
  have run: "SysTick_Handler s = Ret () ?s'"
    using s1(1) assms(2) c p fr
    by (simp add: SysTick_Handler_def fr_kernel_tick_isr_def fr_scheduler_tick_isr_def fr_tick_now_def)
  have ok: "kernel_ok ?s'" using kernel_ok_same [OF _ s1(2)] s1(2) by simp
  have R: "registered ?s0 = registered s" by (simp add: registered_def)
  show thesis by (rule that [OF run ok s1(3) [unfolded R] refl])
qed


section \<open>The context switch\<close>

text \<open>Changes of saved stack pointers and of READY and RUNNING leave waits and priorities alone.\<close>

lemma kernel_ok_run_change:
  assumes "kernel_ok s" and "g_fr_task_count s' = g_fr_task_count s" and "objects s' = objects s"
    and t: "\<And>q. tcb s' q = (tcb s q)\<lparr>saved_sp := sp q, task_state := st q\<rparr>"
    and "\<And>q. q \<in> registered s \<Longrightarrow> st q = STATE_BLOCKED \<longleftrightarrow> task_state (tcb s q) = STATE_BLOCKED"
    and "\<And>i. i < unat (g_fr_task_count s) \<Longrightarrow> task_ok i (tcb s' (Pool i))" and "sched_ok s'"
    and "slots_free s'"
  shows "kernel_ok s'"
proof -
  note base = kernel_okD(1) [OF assms(1)]
  have R: "registered s' = registered s" by (rule registered_cong) (rule assms(2))
  have P: "prio s' = prio s" by (simp add: prio_def t fun_eq_iff)
  have W: "waits_for s' w z = waits_for s w z" for w z
    using assms(5) [of w] by (auto simp: waits_for_def R t mutex_magic_ok_def mutex_owner_def assms(3))
  have wt: "wait_ok obs (tcb s' q) = wait_ok obs (tcb s q)" for q obs
    by (cases "wait_reason (tcb s q)") (simp_all add: wait_ok_def t)
  have "waits_ok s'"
    using base_okD(5) [OF base] assms(5) by (auto simp: waits_ok_def R wt assms(3)) (auto simp: t)
  moreover have "mutex_waits_ok s'"
    using base_okD(6) [OF base] assms(5) by (auto simp: mutex_waits_ok_def R W t)
  ultimately have "base_ok s'"
    using base_okD(1,4) [OF base] assms(2,3,6-8) by (simp add: base_ok_def R)
  moreover have "inherit_ok s'"
    using R P by (intro inherit_okI [OF kernel_okD(2) [OF assms(1)]]) (auto simp: W P t intro: eff_cong)
  ultimately show ?thesis by (simp add: kernel_ok_def)
qed

lemma saved_sp_valid_eq:
  "stack_base (tcb s p) \<noteq> 0 \<Longrightarrow> stack_top (tcb s p) \<noteq> 0 \<Longrightarrow>
   fr_scheduler_saved_sp_valid (Some p) sp s = fr_kernel_saved_sp_valid ((tcb s p)\<lparr>saved_sp := sp\<rparr>)"
  by (simp add: fr_scheduler_saved_sp_valid_def fr_kernel_saved_sp_valid_def)

lemma saved_sp_valid_cong:
  "tcb u = tcb s \<Longrightarrow> fr_scheduler_saved_sp_valid x y u = fr_scheduler_saved_sp_valid x y s"
  by (simp only: fr_scheduler_saved_sp_valid_def)

lemma geometry_nonnull:
  "fr_kernel_stack_geometry_valid t \<Longrightarrow> stack_base t \<noteq> 0 \<and> stack_top t \<noteq> 0"
  by (simp add: fr_kernel_stack_geometry_valid_def split: if_splits)

text \<open>The state after switching from \<open>c\<close>, whose stack pointer is \<open>sp\<close>, to \<open>p\<close>.\<close>

definition switched_tcb :: "task_ptr \<Rightarrow> task_ptr \<Rightarrow> u32 \<Rightarrow> kernel \<Rightarrow> task_ptr \<Rightarrow> fr_task" where
  "switched_tcb c p sp s = (\<lambda>q. (tcb s q)
     \<lparr>saved_sp := (if q = c then sp else saved_sp (tcb s q)),
      task_state := (if p = c then task_state (tcb s q)
                     else if q = p then STATE_RUNNING
                     else if q = c \<and> task_state (tcb s c) = STATE_RUNNING then STATE_READY
                     else task_state (tcb s q))\<rparr>)"

definition switched_ok :: "task_ptr \<Rightarrow> task_ptr \<Rightarrow> u32 \<Rightarrow> kernel \<Rightarrow> kernel \<Rightarrow> bool" where
  "switched_ok c p sp s s' \<longleftrightarrow> tcb s' = switched_tcb c p sp s \<and>
     g_fr_scheduler_current_task s' = Some p \<and>
     g_fr_scheduler_context_switch_count s' =
       g_fr_scheduler_context_switch_count s + (if p = c then 0 else 1) \<and>
     g_fr_task_count s' = g_fr_task_count s \<and> g_fr_scheduler_running s' = g_fr_scheduler_running s \<and>
     g_fr_kernel_tick_count s' = g_fr_kernel_tick_count s \<and> objects s' = objects s \<and>
     cpu s' = cpu s \<and> ram s' = ram s \<and> links s' = links s \<and> pendsv_pending s' = pendsv_pending s"

lemma switched_tcb_cong: "tcb u = tcb s \<Longrightarrow> switched_tcb c p sp u = switched_tcb c p sp s"
  by (simp only: switched_tcb_def)

lemma switch_count_frame [simp]:
  "g_fr_scheduler_context_switch_count (upd_task p f s) = g_fr_scheduler_context_switch_count s"
  "g_fr_scheduler_context_switch_count (fr_critical_exit b s) = g_fr_scheduler_context_switch_count s"
  "g_fr_scheduler_context_switch_count (snd (fr_critical_enter s)) = g_fr_scheduler_context_switch_count s"
  "g_fr_scheduler_context_switch_count (fr_trace_record_locked e i x y s) = g_fr_scheduler_context_switch_count s"
  by (simp_all add: upd_task_def fr_critical_exit_def fr_critical_enter_def fr_trace_record_locked_def Let_def)

lemma select_next_saved_sp:
  assumes "\<And>q. \<exists>sp. tcb s' q = (tcb s q)\<lparr>saved_sp := sp\<rparr>" and "g_fr_task_count s' = g_fr_task_count s"
  shows "fr_scheduler_select_next c s' = fr_scheduler_select_next c s"
proof -
  have f: "task_state (tcb s' q) = task_state (tcb s q)" "priority (tcb s' q) = priority (tcb s q)" for q
    using assms(1) [of q] by auto
  have at: "fr_task_internal_at i s' = fr_task_internal_at i s" for i
    by (simp add: fr_task_internal_at_def assms(2))
  have n: "fr_task_internal_count s' = fr_task_internal_count s"
    by (simp add: fr_task_internal_count_def assms(2))
  have "select_highest_step s' = select_highest_step s" "select_next_step s' = select_next_step s"
    by (intro ext, simp only: select_highest_step_def select_next_step_def at f)+
  then show ?thesis
    by (simp only: fr_scheduler_select_next_def fr_scheduler_select_highest_ready_def at f n)
qed


lemma switch_closed:
  assumes "g_fr_scheduler_running u" and "g_fr_scheduler_current_task u = Some c"
    and "task_state (tcb u c) = STATE_RUNNING \<or> task_state (tcb u c) = STATE_BLOCKED"
    and "fr_scheduler_saved_sp_valid (Some c) sp u" and "fr_scheduler_select_next (Some c) u = Some p"
    and "p \<noteq> c \<Longrightarrow> fr_scheduler_saved_sp_valid (Some p) (saved_sp (tcb u p)) u"
  obtains s' where "fr_scheduler_switch_from_isr sp u = Ret (saved_sp (tcb s' p)) s'" "switched_ok c p sp u s'"
proof -
  let ?cs = "snd (fr_critical_enter u)"
  define s1 where "s1 = upd_task c (\<lambda>t. t\<lparr>saved_sp := sp\<rparr>) ?cs"
  have s1: "tcb s1 = (tcb u)(c := (tcb u c)\<lparr>saved_sp := sp\<rparr>)" "g_fr_task_count s1 = g_fr_task_count u"
    by (simp_all add: s1_def tcb_upd_task fun_eq_iff)
  have next_task: "fr_scheduler_select_next (Some c) s1 = Some p"
    unfolding assms(5) [symmetric]
  proof (rule select_next_saved_sp)
    show "\<exists>v. tcb s1 q = (tcb u q)\<lparr>saved_sp := v\<rparr>" for q
      by (cases "q = c") (auto simp: s1(1) intro: exI [of _ "saved_sp (tcb u q)"])
  qed (rule s1(2))
  have spv: "fr_scheduler_saved_sp_valid (Some c) sp ?cs" "sp \<noteq> 0"
    using assms(4) by (auto simp: fr_scheduler_saved_sp_valid_def split: if_splits)
  have valid: "fr_scheduler_saved_sp_valid (Some p) (saved_sp (tcb s1 p)) s1"
    using assms(4,6) by (cases "p = c") (auto simp: fr_scheduler_saved_sp_valid_def s1(1) split: if_splits)
  define s2 where "s2 = (if p \<noteq> c
     then let s = (if task_state (tcb s1 c) = STATE_RUNNING
                   then upd_task c (\<lambda>t. t\<lparr>task_state := STATE_READY\<rparr>) s1 else s1);
              s = upd_task p (\<lambda>t. t\<lparr>task_state := STATE_RUNNING\<rparr>) s;
              s = s\<lparr>g_fr_scheduler_current_task := Some p,
                    g_fr_scheduler_context_switch_count := g_fr_scheduler_context_switch_count s + 1\<rparr>
          in fr_trace_record_locked EVENT_CONTEXT_SWITCH (task_id (tcb s p)) (task_id (tcb s c)) (task_id (tcb s p)) s
     else s1)"
  define s' where "s' = fr_critical_exit (cpu_basepri (cpu u)) s2"
  have run: "fr_scheduler_switch_from_isr sp u = Ret (saved_sp (tcb s' p)) s'"
    using spv(2) assms(1-3) unfolding fr_scheduler_switch_from_isr_def s'_def s2_def
    by (auto simp: split_beta Let_def spv(1) s1_def [symmetric] next_task valid)
  have cpu: "fr_critical_exit (cpu_basepri (cpu u)) ?cs = u" by simp
  have "tcb s' = switched_tcb c p sp u"
    by (auto simp: s'_def s2_def s1(1) switched_tcb_def Let_def tcb_upd_task fun_eq_iff)
  moreover have "cpu s' = cpu u"
    using arg_cong [OF cpu, of cpu] by (simp add: s'_def s2_def s1_def Let_def fr_critical_exit_def)
  moreover have "g_fr_scheduler_current_task s' = Some p"
    "g_fr_scheduler_context_switch_count s' =
       g_fr_scheduler_context_switch_count u + (if p = c then 0 else 1)"
    "g_fr_task_count s' = g_fr_task_count u" "g_fr_scheduler_running s' = g_fr_scheduler_running u"
    "g_fr_kernel_tick_count s' = g_fr_kernel_tick_count u" "objects s' = objects u" "ram s' = ram u"
    "links s' = links u" "pendsv_pending s' = pendsv_pending u"
    using assms(2) by (simp_all add: s'_def s2_def s1_def Let_def)
  ultimately have "switched_ok c p sp u s'" by (simp only: switched_ok_def)
  then show thesis using run that by blast
qed


lemma switched_kernel_ok:
  assumes "kernel_ok s" and "g_fr_scheduler_running s" and "g_fr_scheduler_current_task s = Some c"
    and "fr_scheduler_saved_sp_valid (Some c) sp s"
    and "p = c \<and> task_state (tcb s c) = STATE_RUNNING \<or> p \<noteq> c \<and> (p = IdleTask \<or> ready s p)"
    and "u = s\<lparr>pendsv_pending := False, ram := m\<rparr>" and "switched_ok c p sp u s'"
  shows "kernel_ok s'"
proof -
  note base = kernel_okD(1) [OF assms(1)]
  have c: "c = IdleTask \<or> c \<in> registered s"
    "task_state (tcb s c) = STATE_RUNNING \<or> c \<noteq> IdleTask \<and> task_state (tcb s c) = STATE_BLOCKED"
    "\<And>q. q \<in> registered s \<Longrightarrow> q \<noteq> c \<Longrightarrow> task_state (tcb s q) \<noteq> STATE_RUNNING"
    and idle: "fr_kernel_saved_sp_valid (tcb s IdleTask)" "stack_base (tcb s IdleTask) \<noteq> 0"
      "stack_top (tcb s IdleTask) \<noteq> 0"
    using base_okD(3) [OF base] assms(2,3) by (auto simp: sched_ok_def)
  have sp: "fr_kernel_saved_sp_valid ((tcb s c)\<lparr>saved_sp := sp\<rparr>)"
    using assms(4) by (auto simp: fr_scheduler_saved_sp_valid_def fr_kernel_saved_sp_valid_def split: if_splits)
  have t: "tcb s' = switched_tcb c p sp s" "g_fr_task_count s' = g_fr_task_count s" "objects s' = objects s"
    "g_fr_scheduler_current_task s' = Some p" "g_fr_scheduler_running s'"
    using assms(2,6,7) switched_tcb_cong [of u s] by (simp_all add: switched_ok_def)
  have R: "registered s' = registered s" by (rule registered_cong) (rule t(2))
  let ?st = "\<lambda>q. if p = c then task_state (tcb s q) else if q = p then STATE_RUNNING
     else if q = c \<and> task_state (tcb s c) = STATE_RUNNING then STATE_READY else task_state (tcb s q)"
  have tq: "tcb s' q = (tcb s q)\<lparr>saved_sp := (if q = c then sp else saved_sp (tcb s q)), task_state := ?st q\<rparr>" for q
    by (simp add: t(1) switched_tcb_def)
  have blocked: "?st q = STATE_BLOCKED \<longleftrightarrow> task_state (tcb s q) = STATE_BLOCKED" if "q \<in> registered s" for q
    using that assms(5) by (auto simp: ready_def)
  have tok: "task_ok i (tcb s' (Pool i))" if "i < unat (g_fr_task_count s)" for i
  proof -
    have ok: "task_ok i (tcb s (Pool i))" by (rule base_okD(2) [OF base that])
    have "Pool i \<in> registered s" using that by simp
    then have wv: "fr_kernel_wait_state_valid (tcb s' (Pool i)) = fr_kernel_wait_state_valid (tcb s (Pool i))"
      using blocked [of "Pool i"] by (simp add: fr_kernel_wait_state_valid_def tq)
    have sv: "task_state (tcb s (Pool i)) \<noteq> STATE_CREATED \<Longrightarrow> fr_kernel_saved_sp_valid (tcb s' (Pool i))"
      using ok sp by (auto simp: tq task_ok_def fr_kernel_saved_sp_valid_def)
    have gv: "fr_kernel_stack_geometry_valid (tcb s' (Pool i)) = fr_kernel_stack_geometry_valid (tcb s (Pool i))"
      by (simp add: tq)
    have st: "task_state (tcb s' (Pool i)) \<in> {STATE_CREATED, STATE_READY, STATE_RUNNING, STATE_BLOCKED}"
      "task_state (tcb s' (Pool i)) \<noteq> STATE_CREATED \<Longrightarrow> task_state (tcb s (Pool i)) \<noteq> STATE_CREATED"
      using ok assms(5) by (auto simp: tq task_ok_def ready_def split: if_splits)
    show ?thesis
      using ok wv sv gv st by (simp add: task_ok_def) (simp add: tq)
  qed
  have "sched_ok s'"
    using c assms(5) t(4,5) idle sp by (auto simp: sched_ok_def R tq ready_def)
  moreover have "slots_free s'"
    using base_okD(7) [OF base] c(1) assms(5)
    by (auto simp: slots_free_def t(2) tq ready_def fr_kernel_wait_state_valid_def)
  ultimately show ?thesis
    by (intro kernel_ok_run_change [OF assms(1) t(2,3) tq blocked tok])
qed


lemma switch_ok:
  assumes "kernel_ok s" and "g_fr_scheduler_running s" and "g_fr_scheduler_current_task s = Some c"
    and "fr_scheduler_saved_sp_valid (Some c) sp s" and "u = s\<lparr>pendsv_pending := False, ram := m\<rparr>"
  obtains p s' where "fr_scheduler_select_next (Some c) s = Some p"
    "fr_scheduler_switch_from_isr sp u = Ret (saved_sp (tcb s' p)) s'" "switched_ok c p sp u s'" "kernel_ok s'"
    "fr_scheduler_saved_sp_valid (Some p) (saved_sp (tcb s' p)) s'"
proof -
  note base = kernel_okD(1) [OF assms(1)]
  have c: "c = IdleTask \<or> c \<in> registered s"
    "task_state (tcb s c) = STATE_RUNNING \<or> c \<noteq> IdleTask \<and> task_state (tcb s c) = STATE_BLOCKED"
    and idle: "fr_kernel_saved_sp_valid (tcb s IdleTask)" "stack_base (tcb s IdleTask) \<noteq> 0"
      "stack_top (tcb s IdleTask) \<noteq> 0"
    using base_okD(3) [OF base] assms(2,3) by (auto simp: sched_ok_def)
  obtain p where p: "fr_scheduler_select_next (Some c) s = Some p" "p = c \<or> p = IdleTask \<or> ready s p"
    using select_next_total [of c s] c by blast
  have pc: "task_state (tcb s c) = STATE_RUNNING" if "p = c"
    using that p(1) c select_next_blocked [of _ s c] by (cases c) (auto simp: ready_def)
  have valid: "fr_scheduler_saved_sp_valid (Some p) (saved_sp (tcb s p)) s" if "p \<noteq> c"
  proof -
    have "fr_kernel_saved_sp_valid (tcb s p) \<and> stack_base (tcb s p) \<noteq> 0 \<and> stack_top (tcb s p) \<noteq> 0"
      using p(2) that idle task_ok_registered [OF base, of p] geometry_nonnull
      by (auto simp: ready_def task_ok_def)
    then show ?thesis
      by (auto simp: fr_scheduler_saved_sp_valid_def fr_kernel_saved_sp_valid_def split: if_splits)
  qed
  have u: "tcb u = tcb s" "g_fr_scheduler_running u" "g_fr_scheduler_current_task u = Some c"
    "fr_scheduler_saved_sp_valid x y u = fr_scheduler_saved_sp_valid x y s" for x y
    using assms(2,3) saved_sp_valid_cong [of u s] by (simp_all add: assms(5))
  have un: "fr_scheduler_select_next (Some c) u = Some p"
    unfolding p(1) [symmetric]
  proof (rule select_next_saved_sp)
    show "\<exists>v. tcb u q = (tcb s q)\<lparr>saved_sp := v\<rparr>" for q
      by (rule exI [of _ "saved_sp (tcb s q)"]) (simp add: assms(5))
  qed (simp add: assms(5))
  obtain s' where s': "fr_scheduler_switch_from_isr sp u = Ret (saved_sp (tcb s' p)) s'" "switched_ok c p sp u s'"
    using switch_closed [OF u(2,3) _ _ un] c assms(4) valid unfolding u(1,4) by blast
  have ok: "kernel_ok s'"
    using p(2) pc by (intro switched_kernel_ok [OF assms(1-4) _ assms(5) s'(2)]) auto
  have "fr_scheduler_saved_sp_valid (Some p) (saved_sp (tcb s' p)) s'"
    using s'(2) assms(4) valid
    by (cases "p = c") (auto simp: switched_ok_def switched_tcb_def u(1) fr_scheduler_saved_sp_valid_def split: if_splits)
  then show thesis using that p(1) s' ok by blast
qed



section \<open>Sleeping and yielding\<close>

lemma critical_exit_after:
  "cpu t = cpu (snd (fr_critical_enter s)) \<Longrightarrow> cpu (fr_critical_exit (cpu_basepri (cpu s)) t) = cpu s"
  by (simp add: fr_critical_exit_def fr_critical_enter_def msr_basepri_max_def Let_def)

lemma kernel_ok_in_critical [simp]: "kernel_ok (snd (fr_critical_enter s)) = kernel_ok s"
proof
  assume "kernel_ok s"
  then show "kernel_ok (snd (fr_critical_enter s))" using kernel_ok_same same_kernel_ops(1) by blast
next
  assume "kernel_ok (snd (fr_critical_enter s))"
  moreover have "same_kernel (snd (fr_critical_enter s)) s" by (simp add: same_kernel_def)
  ultimately show "kernel_ok s" using kernel_ok_same by blast
qed

lemma kernel_ok_exit [simp]: "kernel_ok (fr_critical_exit b s) = kernel_ok s"
proof
  assume "kernel_ok s"
  then show "kernel_ok (fr_critical_exit b s)" using kernel_ok_same same_kernel_ops(2) by blast
next
  assume "kernel_ok (fr_critical_exit b s)"
  moreover have "same_kernel (fr_critical_exit b s) s" by (simp add: same_kernel_def)
  ultimately show "kernel_ok s" using kernel_ok_same by blast
qed

lemma kernel_ok_request: "kernel_ok s \<Longrightarrow> kernel_ok (fr_scheduler_request_if_needed_locked s)"
  using kernel_ok_same same_kernel_ops(4) by blast

lemma can_block_critical [simp]: "can_block p (snd (fr_critical_enter s)) = can_block p s"
  by (simp add: can_block_def)

lemma sleep_closed:
  "fr_task_sleep d s =
     (case g_fr_scheduler_current_task s of
        Some p \<Rightarrow>
          if d \<noteq> 0 \<and> d \<le> FR_TASK_SLEEP_MAX_TICKS \<and> thread_context_allowed s \<and> can_block p s
          then Ret Suspended (fr_critical_exit 0 (suspended p WAIT_SLEEP 0 d (snd (fr_critical_enter s))))
          else Ret (Returned False) s
      | None \<Rightarrow> Ret (Returned False) s)"
  by (auto simp: fr_task_sleep_def split_beta block_closed wait_args_ok_def can_block_def
      thread_context_allowed_def not_less Let_def split: option.splits)

lemma sleep_ok:
  assumes "kernel_ok s"
  obtains r s' where "fr_task_sleep d s = Ret r s'" "kernel_ok s'"
proof (cases "\<exists>p. g_fr_scheduler_current_task s = Some p \<and> d \<noteq> 0 \<and> d \<le> FR_TASK_SLEEP_MAX_TICKS \<and>
    thread_context_allowed s \<and> can_block p s")
  case True
  then obtain p where p: "g_fr_scheduler_current_task s = Some p" "d \<noteq> 0" "d \<le> FR_TASK_SLEEP_MAX_TICKS"
    "thread_context_allowed s" "can_block p s" by blast
  let ?cs = "snd (fr_critical_enter s)"
  have "kernel_ok (suspended p WAIT_SLEEP 0 d ?cs)"
    using assms p running_flag_fields [of ?cs p WAIT_SLEEP]
    by (intro kernel_ok_suspended) (auto simp: wait_args_ok_def wait_ok_def kernel_okD(1))
  with p show thesis using that by (simp add: sleep_closed)
next
  case False
  then have "fr_task_sleep d s = Ret (Returned False) s" by (auto simp: sleep_closed split: option.splits)
  with assms show thesis using that by blast
qed

lemma yield_ok: "kernel_ok s \<Longrightarrow> kernel_ok (fr_task_yield s)"
  using kernel_ok_same [of s "fr_port_request_context_switch s"]
  by (simp add: fr_task_yield_def split_beta Let_def)



section \<open>Task creation\<close>

text \<open>
  A new task enters the registry with no effect on the others: in state CREATED after the first
  critical section of \<open>fr_task_create\<close> and READY after the second.
\<close>

lemma sched_ok_register:
  assumes "sched_ok s" and "registered s' = insert p (registered s)" and "p \<notin> registered s" and "p \<noteq> IdleTask"
    and "tcb s' = (tcb s)(p := t)" and "g_fr_scheduler_current_task s' = g_fr_scheduler_current_task s"
    and "g_fr_scheduler_running s' = g_fr_scheduler_running s" and "pendsv_pending s' = pendsv_pending s"
    and "task_state t \<in> {STATE_CREATED, STATE_READY}"
  shows "sched_ok s'"
proof (cases "g_fr_scheduler_running s")
  case True
  then obtain c where c: "g_fr_scheduler_current_task s = Some c" "c = IdleTask \<or> c \<in> registered s"
    and rest: "task_state (tcb s c) = STATE_RUNNING \<or>
        c \<noteq> IdleTask \<and> task_state (tcb s c) = STATE_BLOCKED \<and> pendsv_pending s"
      "\<forall>q \<in> registered s. q \<noteq> c \<longrightarrow> task_state (tcb s q) \<noteq> STATE_RUNNING"
      "fr_kernel_saved_sp_valid (tcb s IdleTask)" "stack_base (tcb s IdleTask) \<noteq> 0"
      "stack_top (tcb s IdleTask) \<noteq> 0"
    using assms(1) by (auto simp: sched_ok_def)
  have "c \<noteq> p" using c(2) assms(3,4) by auto
  then show ?thesis
    using True c rest assms(4,9) by (auto simp: sched_ok_def assms(2,5-8) split: if_splits)
next
  case False
  then show ?thesis
    using assms(1,9) by (simp add: sched_ok_def assms(2,5-7))
qed

lemma inherit_register:
  assumes "inherit_ok s" and "registered s' = insert p (registered s)" and "p \<notin> registered s"
    and "tcb s' = (tcb s)(p := t)" and "\<And>w z. waits_for s' w z \<longleftrightarrow> waits_for s w z" and "\<And>w. \<not> waits_for s w p"
    and "priority t = base_priority t" and "unat (base_priority t) \<le> 31"
  shows "inherit_ok s'"
proof -
  have "prio s' x = eff s' x \<and> prio s' x \<le> 31" if "x \<in> registered s'" for x
  proof (cases "x = p")
    case True
    have "eff s' p = base_priority t"
      using eff_cases [of p s'] assms(6) by (auto simp: assms(4,5))
    then show ?thesis using True assms(7,8) by (simp add: prio_def assms(4) word_le_nat_alt)
  next
    case False
    then have x: "x \<in> registered s" using that by (simp add: assms(2))
    have "prio s' q = prio s q" if "q \<noteq> p" for q using that by (simp add: prio_def assms(4))
    moreover have "eff s' x = eff s x"
      using False waits_for_registered [of s p] assms(3)
      by (intro eff_cong) (auto simp: assms(4,5) prio_def)
    ultimately show ?thesis
      using assms(1) x False unfolding inherit_ok_def inherit_inv_def prios_le_def by metis
  qed
  then show ?thesis unfolding inherit_ok_def inherit_inv_def prios_le_def by blast
qed

lemma kernel_ok_register:
  assumes "kernel_ok s" and "unat (g_fr_task_count s) < 8" and "g_fr_task_count s' = g_fr_task_count s + 1"
    and "tcb s' = (tcb s)(Pool (unat (g_fr_task_count s)) := t)" and "objects s' = objects s"
    and "g_fr_scheduler_current_task s' = g_fr_scheduler_current_task s"
    and "g_fr_scheduler_running s' = g_fr_scheduler_running s" and "pendsv_pending s' = pendsv_pending s"
    and "task_ok (unat (g_fr_task_count s)) t" and "task_state t \<in> {STATE_CREATED, STATE_READY}"
    and "priority t = base_priority t"
  shows "kernel_ok s'"
proof -
  let ?n = "unat (g_fr_task_count s)"
  let ?p = "Pool ?n"
  note base = kernel_okD(1) [OF assms(1)] and inh = kernel_okD(2) [OF assms(1)]
  have n: "unat (g_fr_task_count s') = Suc ?n"
    unfolding assms(3) using assms(2) by (intro unat_Suc_word [of _ 8]) (simp add: word_less_nat_alt)
  have R: "registered s' = insert ?p (registered s)" by (auto simp: registered_index n less_Suc_eq)
  have new: "?p \<notin> registered s" by simp
  have W: "waits_for s' w z \<longleftrightarrow> waits_for s w z" for w z
    using assms(10) new by (auto simp: waits_for_def R assms(4,5) mutex_magic_ok_def mutex_owner_def)
  have none: "\<not> waits_for s w ?p" for w
  proof
    assume w: "waits_for s w ?p"
    show False using waits_for_target [OF base_okD(6) [OF base] w] new by blast
  qed
  have mono: "object_ok (registered s) ob \<Longrightarrow> object_ok (registered s') ob" for ob
    by (cases ob) (auto simp: R)
  have tok: "task_ok i (tcb s' (Pool i))" if "i < Suc ?n" for i
  proof (cases "i = ?n")
    case True
    then show ?thesis using assms(9) by (simp add: assms(4))
  next
    case False
    then have "i < ?n" using that by linarith
    from base_okD(2) [OF base this] False show ?thesis by (simp add: assms(4))
  qed
  have sch: "sched_ok s'"
    by (rule sched_ok_register [OF base_okD(3) [OF base] R new]) (use assms(4,6-8,10) in simp_all)
  have wts: "waits_ok s'" using base_okD(5) [OF base] assms(10) by (auto simp: waits_ok_def R assms(4,5))
  have mws: "mutex_waits_ok s'"
    using base_okD(6) [OF base] assms(10) by (auto simp: mutex_waits_ok_def R assms(4) W)
  have fre: "slots_free s'" using base_okD(7) [OF base] by (auto simp: slots_free_def n assms(4))
  have "base_ok s'"
    using assms(2) tok sch wts mws fre mono base_okD(4) [OF base] by (simp add: base_ok_def n assms(5))
  moreover have "inherit_ok s'"
    by (rule inherit_register [OF inh R new assms(4) W none assms(11)]) (use assms(9) in \<open>simp add: task_ok_def word_le_nat_alt\<close>)
  ultimately show ?thesis by (simp add: kernel_ok_def)
qed


lemma valid_config_geometry:
  assumes "fr_task_stack_is_valid c" and "stack_base t = cfg_stack_memory c"
    and "stack_top t = fr_task_calculate_stack_top c" and "stack_size_words t = cfg_stack_size_words c"
  shows "fr_kernel_stack_geometry_valid t"
proof -
  have "unat (fr_task_calculate_stack_top c) \<noteq> 0"
    using stack_top_unat [OF assms(1)] assms(1) by (simp add: stack_is_valid_iff)
  then have "stack_top t \<noteq> 0" unfolding assms(3) by auto
  then show ?thesis
    using assms(1) unfolding fr_task_stack_is_valid_def fr_kernel_stack_geometry_valid_def assms(2-4)
      fr_task_calculate_stack_top_def Let_def by (simp split: if_splits)
qed

lemma created_task_ok:
  assumes "config_ok c" and "n < 8"
  shows "task_ok (unat n) (created_task c n)"
proof -
  have v: "fr_task_stack_is_valid c" using assms(1) by (simp add: config_ok_def)
  have "fr_kernel_stack_geometry_valid (created_task c n)"
    by (rule valid_config_geometry [OF v]) (simp_all add: created_task_def)
  moreover have "fr_kernel_saved_sp_valid (created_task c n)"
    using initial_sp_facts(2-5) [OF v] by (simp add: fr_kernel_saved_sp_valid_def created_task_def)
  ultimately show ?thesis
    using assms(1) by (simp add: task_ok_def config_ok_def created_task_def fr_kernel_wait_state_valid_def)
qed

lemma create_kernel_ok:
  assumes "kernel_ok s" and "created_from c s s'" and "config_ok c" and "g_fr_task_count s < 8"
  shows "kernel_ok s'"
  using assms(2) created_task_ok [OF assms(3,4)]
  by (intro kernel_ok_register [OF assms(1), where t = "created_task c (g_fr_task_count s)"])
     (use assms(4) in \<open>auto simp: created_from_def word_less_nat_alt created_task_def\<close>)

text \<open>After the first critical section the new task is CREATED, with no stack pointer yet.\<close>

lemma reserve_kernel_ok:
  assumes "kernel_ok s" and "config_ok c" and "g_fr_task_count s < 8"
  shows "kernel_ok (snd (fr_task_create_reserve c s))"
proof -
  let ?n = "unat (g_fr_task_count s)"
  let ?t = "(created_task c (g_fr_task_count s))
        \<lparr>saved_sp := 0, task_state := STATE_CREATED,
         wait_deadline := wait_deadline (tcb s (Pool ?n)), wait_object := wait_object (tcb s (Pool ?n)),
         wait_reason := wait_reason (tcb s (Pool ?n)), wait_result := wait_result (tcb s (Pool ?n)),
         wait_has_deadline := wait_has_deadline (tcb s (Pool ?n))\<rparr>"
  obtain s1 where s1: "fr_task_create_reserve c s = (Some ?n, s1)" "tcb s1 = (tcb s)(Pool ?n := ?t)"
    "g_fr_task_count s1 = g_fr_task_count s + 1" "objects s1 = objects s"
    "g_fr_scheduler_current_task s1 = g_fr_scheduler_current_task s"
    "g_fr_scheduler_running s1 = g_fr_scheduler_running s" "pendsv_pending s1 = pendsv_pending s"
    using create_reserve_ok [OF assms(3), of c] by auto
  have v: "fr_task_stack_is_valid c" using assms(2) by (simp add: config_ok_def)
  have "fr_kernel_stack_geometry_valid ?t"
    by (rule valid_config_geometry [OF v]) (simp_all add: created_task_def)
  moreover have "fr_kernel_wait_state_valid (tcb s (Pool ?n))" "task_state (tcb s (Pool ?n)) = STATE_INVALID"
    using base_okD(7) [OF kernel_okD(1) [OF assms(1)]] by (simp_all add: slots_free_def)
  ultimately have "task_ok ?n ?t"
    using assms(2) by (simp add: task_ok_def config_ok_def created_task_def fr_kernel_wait_state_valid_def)
  then have "kernel_ok s1"
    using s1 assms(3)
    by (intro kernel_ok_register [OF assms(1), where t = ?t])
       (auto simp: word_less_nat_alt created_task_def)
  then show ?thesis by (simp add: s1(1))
qed


section \<open>Starting the scheduler\<close>

text \<open>The linker places the idle stack (an aligned array of 128 words) inside the address space.\<close>

definition idle_placed :: "kernel \<Rightarrow> bool" where
  "idle_placed s \<longleftrightarrow> lm_idle_stack (links s) \<noteq> 0 \<and> lm_idle_stack (links s) AND 7 = 0 \<and>
     unat (lm_idle_stack (links s)) + 512 < 4294967296"

definition idle_tcb :: "kernel \<Rightarrow> fr_task" where
  "idle_tcb s = \<lparr>saved_sp = lm_idle_stack (links s) + 448, stack_base = lm_idle_stack (links s),
     stack_top = lm_idle_stack (links s) + 512, entry = lm_idle_entry (links s), argument = 0,
     stack_size_words = 128, task_id = 0, priority = 0, base_priority = 0, task_state = STATE_READY,
     wait_deadline = 0, wait_object = 0, wait_reason = WAIT_NONE, wait_result = RESULT_PENDING,
     wait_has_deadline = False, wait_flags_mask = 0, wait_flags_result = 0, wait_flags_all = False,
     wait_flags_clear_on_exit = False\<rparr>"

lemma idle_stack_words:
  assumes "idle_placed s"
  shows "lm_idle_stack (links s) + 448 \<noteq> 0" "lm_idle_stack (links s) + 512 \<noteq> 0"
    "lm_idle_stack (links s) \<le> lm_idle_stack (links s) + 448"
    "lm_idle_stack (links s) + 448 \<le> lm_idle_stack (links s) + 512"
    "(lm_idle_stack (links s) + 448) AND 7 = 0"
proof -
  let ?b = "lm_idle_stack (links s)"
  have u: "unat (?b + 448) = unat ?b + 448" "unat (?b + 512) = unat ?b + 512"
    using assms by (simp_all add: idle_placed_def unat_word_ariths)
  have "8 dvd unat ?b" using assms by (simp add: idle_placed_def and7_iff)
  then show "(?b + 448) AND 7 = 0" unfolding and7_iff u by simp
  show "?b + 448 \<noteq> 0" "?b + 512 \<noteq> 0" using u by (auto simp: word_unat_eq_iff)
  show "?b \<le> ?b + 448" "?b + 448 \<le> ?b + 512" by (simp_all add: word_le_nat_alt u)
qed

lemma initialize_idle_ok:
  assumes "idle_placed s"
  obtains m where "fr_scheduler_initialize_idle s = Ret () (s\<lparr>tcb := (tcb s)(IdleTask := idle_tcb s), ram := m\<rparr>)"
proof -
  define b where "b = lm_idle_stack (links s)"
  define sp where "sp = b + 448"
  define tp where "tp = b + 512"
  have arith: "b + 448 = sp" "448 + b = sp" "b + 512 = tp" "512 + b = tp" "tp - 64 = sp"
    by (simp_all add: sp_def tp_def)
  have facts: "b \<noteq> 0" "tp \<noteq> 0" "sp \<noteq> 0" "b \<le> sp" "sp \<le> tp" "sp AND 7 = 0"
    using idle_stack_words [OF assms] assms by (simp_all add: sp_def tp_def b_def idle_placed_def)
  have "fr_scheduler_initialize_idle s = Ret () (s\<lparr>tcb := (tcb s)(IdleTask := idle_tcb s),
      ram := store_words (ram s) sp
        (initial_context (lm_idle_entry (links s) AND NOT 1) 0 (lm_return_trap (links s) OR 1))\<rparr>)"
    using facts
    by (cases "tcb s IdleTask")
       (simp add: fr_scheduler_initialize_idle_def fr_port_task_stack_init_def Let_def upd_task_def
        fr_scheduler_saved_sp_valid_def idle_tcb_def b_def [symmetric] arith)
  then show thesis by (rule that)
qed

lemma idle_sp_valid:
  assumes "idle_placed s"
  shows "fr_kernel_saved_sp_valid (idle_tcb s)" "stack_base (idle_tcb s) \<noteq> 0" "stack_top (idle_tcb s) \<noteq> 0"
  using idle_stack_words [OF assms] assms
  by (simp_all add: fr_kernel_saved_sp_valid_def idle_tcb_def idle_placed_def)

definition first_task :: "kernel \<Rightarrow> task_ptr" where
  "first_task s = (case fr_scheduler_select_highest_ready s of Some p \<Rightarrow> p | None \<Rightarrow> IdleTask)"

text \<open>What a successful start leaves behind.\<close>

definition started_from :: "kernel \<Rightarrow> kernel \<Rightarrow> bool" where
  "started_from s s' \<longleftrightarrow>
     tcb s' = ((tcb s)(IdleTask := idle_tcb s))(first_task s :=
        (((tcb s)(IdleTask := idle_tcb s)) (first_task s))\<lparr>task_state := STATE_RUNNING\<rparr>) \<and>
     g_fr_scheduler_current_task s' = Some (first_task s) \<and> g_fr_scheduler_running s' \<and>
     g_fr_scheduler_context_switch_count s' = 0 \<and> g_fr_scheduler_timeout_count s' = 0 \<and>
     \<not> pendsv_pending s' \<and> g_fr_task_count s' = g_fr_task_count s \<and> objects s' = objects s \<and>
     g_fr_kernel_tick_count s' = g_fr_kernel_tick_count s \<and> links s' = links s \<and>
     cpu_basepri (cpu s') = cpu_basepri (cpu s) \<and> cpu_psp (cpu s') = saved_sp (tcb s' (first_task s)) + 32 \<and>
     thread_context_allowed s' = thread_context_allowed s"

lemma select_highest_cong:
  assumes "\<And>i. tcb s' (Pool i) = tcb s (Pool i)" and "g_fr_task_count s' = g_fr_task_count s"
  shows "fr_scheduler_select_highest_ready s' = fr_scheduler_select_highest_ready s"
proof -
  have "select_highest_step s' i sel = select_highest_step s i sel" if "sel \<noteq> Some IdleTask" for i sel
    using that assms by (auto simp: select_highest_step_def fr_task_internal_at_def split: option.splits)
      (metis task_ptr.exhaust)+
  moreover have "select_highest_step s i sel \<noteq> Some IdleTask" if "sel \<noteq> Some IdleTask" for i sel
    using that by (auto simp: select_highest_step_def fr_task_internal_at_def split: option.splits)
  ultimately have "fold (select_highest_step s') is sel = fold (select_highest_step s) is sel"
    if "sel \<noteq> Some IdleTask" for "is" sel
    using that by (induction "is" arbitrary: sel) auto
  then show ?thesis
    by (simp add: fr_scheduler_select_highest_ready_def fr_task_internal_count_def assms(2))
qed


lemma first_task_cases: "first_task s = IdleTask \<and> (\<forall>q. \<not> ready s q) \<or> ready s (first_task s)"
  using select_highest_Some(1) [of s] by (auto simp: first_task_def split: option.splits)

lemma not_running_task:
  assumes "kernel_ok s" and "\<not> g_fr_scheduler_running s" and "q \<in> registered s"
  shows "task_state (tcb s q) \<in> {STATE_CREATED, STATE_READY}" "g_fr_scheduler_current_task s = None"
  using base_okD(3) [OF kernel_okD(1) [OF assms(1)]] assms(2,3) by (auto simp: sched_ok_def)

lemma start_closed:
  assumes "kernel_ok s" and "\<not> g_fr_scheduler_running s" and "idle_placed s"
  obtains s' where "fr_scheduler_start s = Ret None s'" "started_from s s'"
proof -
  let ?cs = "snd (fr_critical_enter s)"
  have "idle_placed ?cs" using assms(3) by (simp add: idle_placed_def)
  then obtain m where i: "fr_scheduler_initialize_idle ?cs =
      Ret () (?cs\<lparr>tcb := (tcb ?cs)(IdleTask := idle_tcb ?cs), ram := m\<rparr>)"
    using initialize_idle_ok by blast
  have it: "idle_tcb ?cs = idle_tcb s" by (simp add: idle_tcb_def)
  let ?s1 = "?cs\<lparr>tcb := (tcb s)(IdleTask := idle_tcb s), ram := m\<rparr>"
  have sel: "fr_scheduler_select_highest_ready ?s1 = fr_scheduler_select_highest_ready s"
    by (rule select_highest_cong) simp_all
  have valid: "fr_scheduler_saved_sp_valid (Some (first_task s)) (saved_sp (tcb ?s1 (first_task s))) ?s1"
  proof (cases "first_task s = IdleTask")
    case True
    then show ?thesis using idle_sp_valid [OF assms(3)] by (simp add: saved_sp_valid_eq)
  next
    case False
    then have "ready s (first_task s)" using first_task_cases [of s] by auto
    then obtain i where "first_task s = Pool i" "task_ok i (tcb s (Pool i))" "task_state (tcb s (Pool i)) = STATE_READY"
      using task_ok_registered [OF kernel_okD(1) [OF assms(1)], of "first_task s"] by (auto simp: ready_def)
    then show ?thesis
      using geometry_nonnull [of "tcb s (Pool i)"] by (simp add: saved_sp_valid_eq task_ok_def)
  qed
  have ft: "first_task ?s1 = first_task s" by (simp add: first_task_def sel)
  define T where "T = (tcb s)(IdleTask := idle_tcb s)"
  have nz: "saved_sp (T (first_task s)) \<noteq> 0"
    using valid by (auto simp: fr_scheduler_saved_sp_valid_def T_def split: if_splits)
  have i: "fr_scheduler_initialize_idle ?cs = Ret () (?cs\<lparr>tcb := T, ram := m\<rparr>)" using i by (simp add: it T_def)
  have ctx: "cpu_ipsr (cpu ?cs) = cpu_ipsr (cpu s)" "cpu_primask (cpu ?cs) = cpu_primask (cpu s)"
    "cpu_faultmask (cpu ?cs) = cpu_faultmask (cpu s)"
    by (simp_all add: fr_critical_enter_def msr_basepri_max_def Let_def)
  have "\<exists>s'. fr_scheduler_start s = Ret None s' \<and> started_from s s'"
    using assms(2) valid unfolding started_from_def T_def [symmetric]
    by (simp add: fr_scheduler_start_def split_beta Let_def i first_task_def [symmetric] ft [unfolded T_def [symmetric]]
        fr_port_start_first_task_def svc_start_first_def nz fr_scheduler_current_saved_sp_def
        fr_port_scheduler_init_def upd_task_def fr_trace_record_locked_def thread_context_allowed_def ctx)
  then show thesis using that by blast
qed

lemma kernel_ok_idle_change:
  assumes "kernel_ok s" and "\<not> g_fr_scheduler_running s"
  shows "kernel_ok (s\<lparr>tcb := (tcb s)(IdleTask := t)\<rparr>)" (is "kernel_ok ?s")
proof -
  note base = kernel_okD(1) [OF assms(1)]
  have R: "registered ?s = registered s" by (simp add: registered_def)
  have ne: "q \<noteq> IdleTask" if "q \<in> registered s" for q using that by auto
  have W: "waits_for ?s w z \<longleftrightarrow> waits_for s w z" for w z
    using ne [of w] by (auto simp: waits_for_def R mutex_magic_ok_def mutex_owner_def)
  have E: "eff ?s x = eff s x" if "x \<in> registered s" for x
    using ne [OF that] ne [OF waits_for_registered] by (intro eff_cong) (auto simp: W prio_def)
  have "base_ok ?s"
    using base_okD [OF base] assms(2) ne
    by (simp add: base_ok_def sched_ok_def waits_ok_def mutex_waits_ok_def slots_free_def R W)
  moreover have "prio ?s x = prio s x" if "x \<in> registered s" for x using ne [OF that] by (simp add: prio_def)
  ultimately show ?thesis
    using kernel_okD(2) [OF assms(1)] E
    unfolding kernel_ok_def inherit_ok_def inherit_inv_def prios_le_def R by metis
qed

lemma task_ok_run: "task_ok i t \<Longrightarrow> task_state t = STATE_READY \<Longrightarrow> task_ok i (t\<lparr>task_state := STATE_RUNNING\<rparr>)"
  by (simp add: task_ok_def fr_kernel_wait_state_valid_def)

lemma start_kernel_ok:
  assumes "kernel_ok s" and "\<not> g_fr_scheduler_running s" and "idle_placed s" and "started_from s s'"
  shows "kernel_ok s'"
proof -
  let ?u = "s\<lparr>tcb := (tcb s)(IdleTask := idle_tcb s)\<rparr>" and ?f = "first_task s"
  have ok: "kernel_ok ?u" by (rule kernel_ok_idle_change [OF assms(1,2)])
  have t: "tcb s' = (tcb ?u)(?f := (tcb ?u ?f)\<lparr>task_state := STATE_RUNNING\<rparr>)"
    "g_fr_task_count s' = g_fr_task_count ?u" "objects s' = objects ?u"
    "g_fr_scheduler_current_task s' = Some ?f" "g_fr_scheduler_running s'"
    using assms(4) by (simp_all add: started_from_def)
  have R: "registered s' = registered s" "registered ?u = registered s"
    using t(2) by (simp_all add: registered_def)
  have f: "?f = IdleTask \<or> ready s ?f" using first_task_cases [of s] by auto
  let ?st = "\<lambda>q. if q = ?f then STATE_RUNNING else task_state (tcb ?u q)"
  have tq: "tcb s' q = (tcb ?u q)\<lparr>saved_sp := saved_sp (tcb ?u q), task_state := ?st q\<rparr>" for q
    by (simp add: t(1))
  have st: "task_state (tcb s q) \<in> {STATE_CREATED, STATE_READY}" if "q \<in> registered s" for q
    by (rule not_running_task(1) [OF assms(1,2) that])
  have nr: "task_state (tcb s q) \<noteq> STATE_RUNNING" if "q \<in> registered s" for q
    using st [OF that] by auto
  have blocked: "?st q = STATE_BLOCKED \<longleftrightarrow> task_state (tcb ?u q) = STATE_BLOCKED" if "q \<in> registered ?u" for q
    using that st [of q] by (cases q) (auto simp: R)
  have tok: "task_ok i (tcb s' (Pool i))" if "i < unat (g_fr_task_count ?u)" for i
  proof (cases "Pool i = ?f")
    case True
    then show ?thesis
      using base_okD(2) [OF kernel_okD(1) [OF ok] that] f task_ok_run [of i "tcb s (Pool i)"]
      by (simp add: t(1) ready_def True [symmetric])
  next
    case False
    then show ?thesis using base_okD(2) [OF kernel_okD(1) [OF ok] that] by (simp add: t(1))
  qed
  have sch: "sched_ok s'"
    using f t(4,5) idle_sp_valid [OF assms(3)] nr
    by (auto simp: sched_ok_def R t(1) ready_def)
  have fr: "slots_free s'"
    using base_okD(7) [OF kernel_okD(1) [OF ok]] f by (auto simp: slots_free_def t(1,2) ready_def)
  show ?thesis by (rule kernel_ok_run_change [OF ok t(2,3) tq blocked tok sch fr])
qed



section \<open>Concrete states\<close>

text \<open>
  A system with two tasks of the same priority, before and after the start of the scheduler; the
  witnesses of this development evaluate the operations on them.
\<close>

definition config_a :: fr_task_config where
  "config_a = \<lparr>cfg_entry = 0x08000101, cfg_argument = 0, cfg_stack_memory = 0x20001000,
     cfg_stack_size_words = 128, cfg_priority = 3\<rparr>"

definition config_b :: fr_task_config where
  "config_b = \<lparr>cfg_entry = 0x08000141, cfg_argument = 0, cfg_stack_memory = 0x20002000,
     cfg_stack_size_words = 128, cfg_priority = 3\<rparr>"

definition two_tasks :: kernel where
  "two_tasks = (reset_kernel example_links)\<lparr>
     tcb := (\<lambda>_. zero_task)(Pool 0 := created_task config_a 0, Pool 1 := created_task config_b 1),
     g_fr_task_count := 2\<rparr>"

definition two_running :: kernel where
  "two_running = two_tasks\<lparr>
     tcb := (tcb two_tasks)(IdleTask := idle_tcb two_tasks,
        Pool 0 := (created_task config_a 0)\<lparr>task_state := STATE_RUNNING\<rparr>),
     g_fr_scheduler_current_task := Some (Pool 0), g_fr_scheduler_running := True,
     cpu := (cpu two_tasks)\<lparr>cpu_psp := 0x200011C0 + 32, cpu_control := 2\<rparr>\<rparr>"

lemma configs_ok: "config_ok config_a" "config_ok config_b"
  by (simp_all add: config_ok_def config_a_def config_b_def stack_is_valid_iff)

lemma kernel_ok_reset: "kernel_ok (reset_kernel lm)"
proof -
  have R: "registered (reset_kernel lm) = {}" by (simp add: registered_def reset_kernel_def)
  have "base_ok (reset_kernel lm)"
    unfolding base_ok_def sched_ok_def waits_ok_def mutex_waits_ok_def slots_free_def R
    by (simp add: reset_kernel_def zero_task_def fr_kernel_wait_state_valid_def)
  then show ?thesis by (simp add: kernel_ok_def inherit_ok_def inherit_inv_def prios_le_def R)
qed

lemma two_tasks_ok: "kernel_ok two_tasks"
proof -
  let ?u = "(reset_kernel example_links)\<lparr>tcb := (\<lambda>_. zero_task)(Pool 0 := created_task config_a 0),
     g_fr_task_count := 1\<rparr>"
  have one: "kernel_ok ?u"
    using created_task_ok [OF configs_ok(1), of 0]
    by (intro kernel_ok_register [OF kernel_ok_reset [of example_links], where t = "created_task config_a 0"])
       (simp_all add: reset_kernel_def created_task_def fun_eq_iff)
  show ?thesis
    using created_task_ok [OF configs_ok(2), of 1]
    by (intro kernel_ok_register [OF one, where t = "created_task config_b 1"])
       (simp_all add: two_tasks_def reset_kernel_def created_task_def fun_eq_iff)
qed

lemma two_tasks_select: "fr_scheduler_select_highest_ready two_tasks = Some (Pool 0)"
  by (simp add: fr_scheduler_select_highest_ready_def fr_task_internal_count_def select_highest_step_def
      fr_task_internal_at_def two_tasks_def reset_kernel_def created_task_def upt_conv_Cons config_a_def config_b_def)

lemma two_tasks_idle: "idle_placed two_tasks"
  by (simp add: idle_placed_def two_tasks_def reset_kernel_def example_links_def)

lemma two_running_ok: "kernel_ok two_running"
proof (rule start_kernel_ok [OF two_tasks_ok _ two_tasks_idle])
  have "first_task two_tasks = Pool 0" by (simp add: first_task_def two_tasks_select)
  then show "started_from two_tasks two_running"
    by (simp add: started_from_def two_running_def two_tasks_def reset_kernel_def fun_eq_iff
        created_task_def config_a_def fr_task_calculate_stack_top_def thread_context_allowed_def)
qed (simp add: two_tasks_def reset_kernel_def)


section \<open>Properties\<close>

text \<open>
  C18. The next task. When a registered task is current, the scheduler always finds a successor: a
  running task keeps the processor exactly when every ready task has a strictly lower effective
  priority; otherwise (also when the current task has blocked) the successor is a ready task of the
  highest effective priority, and among those the first one after the current task in cyclic registry
  order; the idle task is chosen only when the current task has blocked and no task is ready.
\<close>

theorem next_task_choice:
  assumes "kernel_ok s" and "g_fr_scheduler_running s" and "g_fr_scheduler_current_task s = Some (Pool k)"
  shows "\<exists>p. fr_scheduler_select_next (Some (Pool k)) s = Some p \<and>
    (if task_state (tcb s (Pool k)) = STATE_RUNNING \<and> (\<forall>q. ready s q \<longrightarrow> prio s q < prio s (Pool k))
     then p = Pool k
     else if \<forall>q. \<not> ready s q then p = IdleTask
     else ready s p \<and> (\<forall>q. ready s q \<longrightarrow> prio s q \<le> prio s p) \<and>
       (\<exists>us vs. turn_order s k = us @ p # vs \<and> (\<forall>q \<in> set us. ready s q \<longrightarrow> prio s q < prio s p)))"
proof -
  let ?c = "Pool k"
  have c: "?c \<in> registered s" "task_state (tcb s ?c) = STATE_RUNNING \<or> task_state (tcb s ?c) = STATE_BLOCKED"
    using current_task_cases [OF base_okD(3) [OF kernel_okD(1) [OF assms(1)]] assms(2)] assms(3) by auto
  then have k: "k < unat (g_fr_task_count s)" by simp
  obtain p where p: "fr_scheduler_select_next (Some ?c) s = Some p"
    using select_next_total [of ?c s] c by blast
  have first: "\<exists>us vs. turn_order s k = us @ p # vs \<and> (\<forall>q \<in> set us. ready s q \<longrightarrow> prio s q < prio s p)"
    if "ready s p"
  proof -
    have "p \<in> set (turn_order s k)" using that c(2) by (auto simp: set_turn_order [OF k] ready_def)
    then obtain us vs where t: "turn_order s k = us @ p # vs" by (auto simp: in_set_conv_decomp)
    then show ?thesis using select_next_first [OF c p t] by blast
  qed
  show ?thesis
  proof (cases "task_state (tcb s ?c) = STATE_RUNNING")
    case True
    note r = select_next_running [OF c(1) True p]
    show ?thesis using p True r first by (intro exI [of _ p]) auto
  next
    case False
    then have "task_state (tcb s ?c) = STATE_BLOCKED" using c(2) by simp
    from select_next_blocked [OF c(1) this p] show ?thesis using p False first by (intro exI [of _ p]) auto
  qed
qed

lemma two_running_facts:
  "g_fr_scheduler_running two_running" "g_fr_scheduler_current_task two_running = Some (Pool 0)"
  "registered two_running = {Pool 0, Pool 1}" "ready two_running (Pool 1)"
  "task_state (tcb two_running (Pool 0)) = STATE_RUNNING" "turn_order two_running 0 = [Pool 1]"
  "unat (g_fr_task_count two_running) = 2" "g_fr_kernel_tick_count two_running = 0"
  "\<not> pendsv_pending two_running" "cpu_psp (cpu two_running) = 0x200011E0"
  "prio two_running (Pool 0) = 3" "prio two_running (Pool 1) = 3"
  "thread_context_allowed two_running"
  by (auto simp: two_running_def two_tasks_def reset_kernel_def registered_def ready_def created_task_def
      turn_order_def prio_def config_a_def config_b_def thread_context_allowed_def less_2_cases_iff upt_rec)

theorem next_task_choice_witness:
  "fr_scheduler_select_next (Some (Pool 0)) two_running = Some (Pool 1)"
proof -
  obtain p where p: "fr_scheduler_select_next (Some (Pool 0)) two_running = Some p" "ready two_running p"
      "\<exists>us vs. turn_order two_running 0 = us @ p # vs"
    using next_task_choice [OF two_running_ok two_running_facts(1,2)] two_running_facts(4,11,12)
    by (auto split: if_splits)
  then show ?thesis using two_running_facts(6) by (auto simp: append_eq_Cons_conv Cons_eq_append_conv)
qed

text \<open>
  C19. The tick. The SysTick handler returns (no assertion fails), keeps the kernel invariant, advances
  the tick count by one and wakes exactly the registered tasks whose deadline the new tick count has
  reached, with result TIMEOUT and no wait left; every other control block keeps all fields but the
  effective priority, no deadline that has been reached remains pending, and a context switch is
  requested exactly when the scheduler would now choose another task.
\<close>

theorem tick_wakes_exactly_due_tasks:
  assumes "kernel_ok s" and "g_fr_scheduler_running s"
  shows "\<exists>s'. SysTick_Handler s = Ret () s' \<and> kernel_ok s' \<and>
    g_fr_kernel_tick_count s' = g_fr_kernel_tick_count s + 1 \<and>
    (\<forall>p \<in> registered s. if expires (g_fr_kernel_tick_count s') (tcb s p)
       then tcb s' p = (wake_task RESULT_TIMEOUT (g_fr_scheduler_current_task s = Some p) (tcb s p))
              \<lparr>priority := prio s' p\<rparr>
       else tcb s' p = (tcb s p)\<lparr>priority := prio s' p\<rparr>) \<and>
    (\<forall>p \<in> registered s. \<not> expires (g_fr_kernel_tick_count s') (tcb s' p)) \<and>
    (pendsv_pending s' \<longleftrightarrow> pendsv_pending s \<or>
       fr_scheduler_select_next (g_fr_scheduler_current_task s') s' \<noteq> g_fr_scheduler_current_task s')"
proof -
  let ?now = "g_fr_kernel_tick_count s + 1" and ?cur = "g_fr_scheduler_current_task s"
  obtain s1 s' where t: "SysTick_Handler s = Ret () s'" "kernel_ok s'"
    and e: "expired_in ?now (registered s) (s\<lparr>g_fr_kernel_tick_count := ?now\<rparr>) s1"
    and s': "s' = (if fr_scheduler_select_next ?cur s1 \<noteq> ?cur then fr_port_request_context_switch s1 else s1)"
    using tick_ok [OF assms] by metis
  have f: "g_fr_kernel_tick_count s1 = ?now" "g_fr_scheduler_current_task s1 = ?cur"
    "pendsv_pending s1 = pendsv_pending s"
    using e by (simp_all add: expired_in_def outside_same_def)
  have same: "tcb s' = tcb s1" "prio s' = prio s1" "g_fr_kernel_tick_count s' = ?now"
    "g_fr_scheduler_current_task s' = ?cur" "g_fr_task_count s' = g_fr_task_count s1"
    by (auto simp: s' f prio_def)
  have sel: "fr_scheduler_select_next ?cur s' = fr_scheduler_select_next ?cur s1"
  proof (rule select_next_saved_sp)
    show "\<exists>v. tcb s' q = (tcb s1 q)\<lparr>saved_sp := v\<rparr>" for q
      by (rule exI [of _ "saved_sp (tcb s1 q)"]) (simp add: same(1))
  qed (rule same(5))
  have tq: "tcb s' p = (if p \<in> registered s \<and> expires ?now (tcb s p)
      then wake_task RESULT_TIMEOUT (?cur = Some p) (tcb s p) else tcb s p)\<lparr>priority := prio s' p\<rparr>" for p
    using e by (simp add: expired_in_def same(1,2))
  show ?thesis
    using t tq by (intro exI [of _ s']) (auto simp: same(3,4) sel, auto simp: s' f)
qed

definition sleeping_kernel :: kernel where
  "sleeping_kernel = fr_critical_exit 0 (suspended (Pool 0) WAIT_SLEEP 0 1 (snd (fr_critical_enter two_running)))"

lemma sleeping_kernel_ok: "kernel_ok sleeping_kernel"
proof -
  let ?cs = "snd (fr_critical_enter two_running)"
  have "can_block (Pool 0) ?cs" by (simp add: can_block_def two_running_facts)
  then have "kernel_ok (suspended (Pool 0) WAIT_SLEEP 0 1 ?cs)"
    using two_running_ok running_flag_fields [of ?cs "Pool 0" WAIT_SLEEP]
    by (intro kernel_ok_suspended) (auto simp: wait_args_ok_def wait_ok_def kernel_okD(1))
  then show ?thesis by (simp add: sleeping_kernel_def)
qed

theorem tick_wakes_exactly_due_tasks_witness:
  "\<exists>s'. SysTick_Handler sleeping_kernel = Ret () s' \<and> g_fr_kernel_tick_count s' = 1 \<and>
     task_state (tcb sleeping_kernel (Pool 0)) = STATE_BLOCKED \<and>
     task_state (tcb s' (Pool 0)) = STATE_RUNNING \<and> wait_result (tcb s' (Pool 0)) = RESULT_TIMEOUT"
proof -
  have f: "g_fr_scheduler_running sleeping_kernel" "g_fr_kernel_tick_count sleeping_kernel = 0"
    "registered sleeping_kernel = {Pool 0, Pool 1}" "expires 1 (tcb sleeping_kernel (Pool 0))"
    "g_fr_scheduler_current_task sleeping_kernel = Some (Pool 0)"
    "task_state (tcb sleeping_kernel (Pool 0)) = STATE_BLOCKED"
    by (simp_all add: sleeping_kernel_def two_running_facts expires_def deadline_reached_unat)
  from tick_wakes_exactly_due_tasks [OF sleeping_kernel_ok f(1)] f show ?thesis by (auto simp: f)
qed

text \<open>
  C20. Sleeping. A task that calls \<open>fr_task_sleep\<close> from thread context with a legal duration \<open>d\<close> is
  blocked without an object, a context switch is pending, no other task changes, and its wait
  expires at the tick count \<open>k\<close> ticks later exactly when \<open>d \<le> k\<close>, across wrap-around of the counter. Any
  other call returns false and changes nothing: with another duration, from a handler or with interrupts
  masked, from the idle task, from a task that has just blocked, and before the scheduler is started.
\<close>

theorem sleep_blocks_for_exactly_d_ticks:
  assumes "kernel_ok s"
  shows "case g_fr_scheduler_current_task s of
      None \<Rightarrow> fr_task_sleep d s = Ret (Returned False) s
    | Some p \<Rightarrow>
        if d \<noteq> 0 \<and> d \<le> FR_TASK_SLEEP_MAX_TICKS \<and> thread_context_allowed s \<and> p \<noteq> IdleTask \<and> task_state (tcb s p) = STATE_RUNNING
        then \<exists>s'. fr_task_sleep d s = Ret Suspended s' \<and> kernel_ok s' \<and> pendsv_pending s' \<and>
          task_state (tcb s' p) = STATE_BLOCKED \<and> wait_reason (tcb s' p) = WAIT_SLEEP \<and>
          (\<forall>q. q \<noteq> p \<longrightarrow> tcb s' q = tcb s q) \<and> objects s' = objects s \<and> cpu s' = cpu s \<and>
          (\<forall>k < unat d + 2147483648.
             expires (g_fr_kernel_tick_count s + of_nat k) (tcb s' p) \<longleftrightarrow> unat d \<le> k)
        else fr_task_sleep d s = Ret (Returned False) s"
proof (cases "g_fr_scheduler_current_task s")
  case None
  then show ?thesis by (simp add: sleep_closed)
next
  case (Some p)
  have run: "g_fr_scheduler_running s"
    using base_okD(3) [OF kernel_okD(1) [OF assms]] Some by (auto simp: sched_ok_def split: if_splits)
  have cb: "can_block p s \<longleftrightarrow> p \<noteq> IdleTask \<and> task_state (tcb s p) = STATE_RUNNING" using run Some by (simp add: can_block_def)
  let ?s' = "fr_critical_exit 0 (suspended p WAIT_SLEEP 0 d (snd (fr_critical_enter s)))"
  have ex: "expires (g_fr_kernel_tick_count s + of_nat k) (tcb ?s' p) \<longleftrightarrow> unat d \<le> k"
    if "d \<le> FR_TASK_SLEEP_MAX_TICKS" "k < unat d + 2147483648" for k
  proof -
    have d: "unat d < 2147483648" "d \<noteq> FR_WAIT_FOREVER"
      using that(1) by (auto simp: word_le_nat_alt)
    then show ?thesis
      using deadline_reached_iff [OF d(1) that(2), of "g_fr_kernel_tick_count s"] by (simp add: expires_def)
  qed
  have cpu: "cpu ?s' = cpu s" if "thread_context_allowed s"
    using critical_exit_after [of "suspended p WAIT_SLEEP 0 d (snd (fr_critical_enter s))" s] that
    by (simp add: thread_context_allowed_def)
  show ?thesis
  proof (cases "d \<noteq> 0 \<and> d \<le> FR_TASK_SLEEP_MAX_TICKS \<and> thread_context_allowed s \<and> p \<noteq> IdleTask \<and> task_state (tcb s p) = STATE_RUNNING")
    case True
    then have eq: "fr_task_sleep d s = Ret Suspended ?s'" by (simp add: sleep_closed Some cb)
    have ok: "kernel_ok ?s'" using sleep_ok [OF assms, of d] eq by (metis outcome.inject(1))
    show ?thesis
      unfolding Some option.case if_P [OF True]
      by (intro exI [of _ ?s'] conjI eq ok allI impI ex cpu) (use True in simp_all)
  next
    case False
    then have "fr_task_sleep d s = Ret (Returned False) s" by (auto simp: sleep_closed Some cb)
    then show ?thesis unfolding Some option.case if_not_P [OF False] .
  qed
qed

theorem sleep_blocks_for_exactly_d_ticks_witness:
  "\<exists>s'. fr_task_sleep 5 two_running = Ret Suspended s' \<and>
     \<not> expires 4 (tcb s' (Pool 0)) \<and> expires 5 (tcb s' (Pool 0)) \<and> tcb s' (Pool 1) = tcb two_running (Pool 1)"
proof -
  from sleep_blocks_for_exactly_d_ticks [OF two_running_ok, of 5]
  obtain s' where s': "fr_task_sleep 5 two_running = Ret Suspended s'"
    "\<forall>q. q \<noteq> Pool 0 \<longrightarrow> tcb s' q = tcb two_running q"
    and k: "\<forall>k < 5 + 2147483648. expires (of_nat k) (tcb s' (Pool 0)) \<longleftrightarrow> 5 \<le> k"
    by (auto simp: two_running_facts)
  have "expires 4 (tcb s' (Pool 0)) \<longleftrightarrow> (5 :: nat) \<le> 4" using k [rule_format, of 4] by simp
  moreover have "expires 5 (tcb s' (Pool 0))" using k [rule_format, of 5] by simp
  ultimately show ?thesis using s' by auto
qed

text \<open>
  The context switch. When PendSV is taken with the interrupted task's stack pointer inside its
  stack, the handler returns without an assertion failing and the invariant is kept: the scheduler's
  choice becomes the current RUNNING task, a preempted task becomes READY and a blocked one stays
  BLOCKED; R4 to R11 of the outgoing task are in its saved frame, and the incoming task gets the
  eight words of its own frame and the process stack pointer just above them.
\<close>

lemma context_switch_saves_and_restores:
  assumes "kernel_ok s" and "g_fr_scheduler_running s" and "g_fr_scheduler_current_task s = Some c"
    and "length regs = 8" and "fr_scheduler_saved_sp_valid (Some c) (cpu_psp (cpu s) - 32) s"
  shows "\<exists>p s'. PendSV_Handler regs s =
        Ret (Some (map (\<lambda>k. load32 (ram s') (word_at (saved_sp (tcb s' p)) k)) [0..<8])) s' \<and>
    kernel_ok s' \<and> fr_scheduler_select_next (Some c) s = Some p \<and>
    g_fr_scheduler_current_task s' = Some p \<and> task_state (tcb s' p) = STATE_RUNNING \<and>
    \<not> pendsv_pending s' \<and> cpu_psp (cpu s') = saved_sp (tcb s' p) + 32 \<and>
    saved_sp (tcb s' c) = cpu_psp (cpu s) - 32 \<and>
    map (\<lambda>k. load32 (ram s') (word_at (cpu_psp (cpu s) - 32) k)) [0..<8] = regs \<and>
    (p \<noteq> c \<longrightarrow> task_state (tcb s' c) =
       (if task_state (tcb s c) = STATE_RUNNING then STATE_READY else STATE_BLOCKED)) \<and>
    (\<forall>q. q \<noteq> c \<and> q \<noteq> p \<longrightarrow> tcb s' q = tcb s q)"
proof -
  let ?sp = "cpu_psp (cpu s) - 32"
  let ?u = "s\<lparr>pendsv_pending := False, ram := store_words (ram s) ?sp regs\<rparr>"
  obtain p s1 where p: "fr_scheduler_select_next (Some c) s = Some p"
    and sw: "fr_scheduler_switch_from_isr ?sp ?u = Ret (saved_sp (tcb s1 p)) s1" "switched_ok c p ?sp ?u s1"
      "kernel_ok s1" "fr_scheduler_saved_sp_valid (Some p) (saved_sp (tcb s1 p)) s1"
    using switch_ok [OF assms(1-3,5) refl] by metis
  let ?s' = "s1\<lparr>cpu := (cpu s1)\<lparr>cpu_psp := saved_sp (tcb s1 p) + 32\<rparr>\<rparr>"
  have nz: "saved_sp (tcb s1 p) \<noteq> 0"
    using sw(4) by (auto simp: fr_scheduler_saved_sp_valid_def split: if_splits)
  have c: "task_state (tcb s c) = STATE_RUNNING \<or> task_state (tcb s c) = STATE_BLOCKED"
    using current_task_cases [OF base_okD(3) [OF kernel_okD(1) [OF assms(1)]] assms(2)] assms(3) by auto
  have "task_state (tcb s1 p) = STATE_RUNNING"
    using base_okD(3) [OF kernel_okD(1) [OF sw(3)]] sw(2) assms(2) by (auto simp: sched_ok_def switched_ok_def)
  moreover have "kernel_ok ?s'" using kernel_ok_same [OF _ sw(3)] by (simp add: same_kernel_def)
  moreover have "map (\<lambda>k. load32 (store_words (ram s) ?sp regs) (word_at ?sp k)) [0..<8] = regs"
    using load32_store_words [of 0 regs _ "ram s" ?sp] assms(4)
    by (intro nth_equalityI) (simp_all add: word_at_def)
  moreover have "PendSV_Handler regs s =
      Ret (Some (map (\<lambda>k. load32 (ram s1) (word_at (saved_sp (tcb s1 p)) k)) [0..<8])) ?s'"
    using sw(1) nz by (simp add: PendSV_Handler_def Let_def)
  ultimately show ?thesis
    using p sw(2) c by (intro exI [of _ p] exI [of _ ?s']) (auto simp: switched_ok_def switched_tcb_def)
qed

text \<open>
  Starting. With the idle stack placed by the linker, the first call of \<open>fr_scheduler_start\<close> does
  not return: no assertion fails, the processor continues in a ready task of the highest priority
  (the idle task when none is ready) with its process stack pointer just above its saved frame and the
  caller's BASEPRI restored, the counters are zero and the invariant holds. A second call reports
  ALREADY\_RUNNING and changes nothing.
\<close>

lemma scheduler_start_enters_highest_ready:
  assumes "kernel_ok s" and "idle_placed s"
  shows "if g_fr_scheduler_running s
    then fr_scheduler_start s = Ret (Some SCHEDULER_ERROR_ALREADY_RUNNING) s
    else \<exists>p s'. fr_scheduler_start s = Ret None s' \<and> kernel_ok s' \<and> g_fr_scheduler_running s' \<and>
      g_fr_scheduler_current_task s' = Some p \<and> task_state (tcb s' p) = STATE_RUNNING \<and>
      (if \<forall>q. \<not> ready s q then p = IdleTask
       else ready s p \<and> (\<forall>q. ready s q \<longrightarrow> prio s q \<le> prio s p)) \<and>
      g_fr_scheduler_context_switch_count s' = 0 \<and> \<not> pendsv_pending s' \<and>
      cpu_psp (cpu s') = saved_sp (tcb s' p) + 32 \<and> cpu_basepri (cpu s') = cpu_basepri (cpu s)"
proof (cases "g_fr_scheduler_running s")
  case True
  then show ?thesis by (simp add: fr_scheduler_start_def split_beta Let_def)
next
  case False
  obtain s' where s': "fr_scheduler_start s = Ret None s'" "started_from s s'"
    using start_closed [OF assms(1) False assms(2)] by blast
  have "if \<forall>q. \<not> ready s q then first_task s = IdleTask
       else ready s (first_task s) \<and> (\<forall>q. ready s q \<longrightarrow> prio s q \<le> prio s (first_task s))"
    using select_highest_Some [of s] select_highest_None [of s]
    by (auto simp: first_task_def split: option.splits)
  then show ?thesis
    using False s' start_kernel_ok [OF assms(1) False assms(2) s'(2)]
    unfolding if_not_P [OF False] started_from_def by (intro exI [of _ "first_task s"] exI [of _ s']) simp
qed

end
