(* ===== verification/Critical_Sections.thy ===== *)
theory Critical_Sections
  imports Scheduler_Steps
begin

text \<open>
  What the blocking services share: the precondition of a call from a task (\<open>caller\<close>), and the fact
  that the code between \<open>fr_critical_enter\<close> and \<open>fr_critical_exit\<close> is independent of the processor
  registers (the collection \<open>cpu_free\<close>), by which the closed forms of the services mention no
  critical section.
\<close>

section \<open>Calling a service\<close>

text \<open>
  A task is in a position to call a kernel service: it is the current task, it runs in thread mode
  with interrupts enabled, and no context switch is pending (one would be taken first).
\<close>

definition caller :: "task_ptr \<Rightarrow> kernel \<Rightarrow> bool" where
  "caller p s \<longleftrightarrow> kernel_ok s \<and> thread_context_allowed s \<and> g_fr_scheduler_running s \<and>
     g_fr_scheduler_current_task s = Some p \<and> p \<noteq> IdleTask \<and> \<not> pendsv_pending s"

lemma caller_facts:
  assumes "caller p s"
  shows "kernel_ok s" "base_ok s" "thread_context_allowed s" "g_fr_scheduler_running s"
    "g_fr_scheduler_current_task s = Some p" "p \<noteq> IdleTask" "can_block p s" "p \<in> registered s"
    "fr_scheduler_current_task s = Some p" "cpu_basepri (cpu s) = 0" "task_state (tcb s p) = STATE_RUNNING"
    "inherit_ok s"
proof -
  show c: "kernel_ok s" "thread_context_allowed s" "g_fr_scheduler_running s"
    "g_fr_scheduler_current_task s = Some p" "p \<noteq> IdleTask"
    using assms by (simp_all add: caller_def)
  show b: "base_ok s" "inherit_ok s" using kernel_okD [OF c(1)] by simp_all
  show st: "task_state (tcb s p) = STATE_RUNNING"
    using base_okD(3) [OF b(1)] assms by (auto simp: sched_ok_def caller_def)
  then show cb: "can_block p s" using c by (simp add: can_block_def)
  show "p \<in> registered s" by (rule can_block_registered(1) [OF b(1) cb])
  show "fr_scheduler_current_task s = Some p" using c by (simp add: fr_scheduler_current_task_def)
  show "cpu_basepri (cpu s) = 0" using c(2) by (simp add: thread_context_allowed_def)
qed

lemma two_running_caller: "caller (Pool 0) two_running"
  by (simp add: caller_def two_running_ok two_running_facts)


lemma two_running_unblocked:
  "p \<in> registered two_running \<Longrightarrow> task_state (tcb two_running p) \<noteq> STATE_BLOCKED"
  "\<not> waiting r a two_running p"
proof -
  have "task_state (tcb two_running (Pool 0)) \<noteq> STATE_BLOCKED" by (simp add: two_running_facts(5))
  moreover have "task_state (tcb two_running (Pool 1)) \<noteq> STATE_BLOCKED"
    using two_running_facts(4) unfolding ready_def by simp
  ultimately show n: "task_state (tcb two_running p) \<noteq> STATE_BLOCKED" if "p \<in> registered two_running" for p
    using that unfolding two_running_facts(3) by blast
  show "\<not> waiting r a two_running p" using n [of p] by (auto simp: waiting_def)
qed

text \<open>While no task is blocked, any address may get a new object of any kind.\<close>

lemma kernel_ok_new_object:
  assumes "kernel_ok s" and "\<And>q. q \<in> registered s \<Longrightarrow> task_state (tcb s q) \<noteq> STATE_BLOCKED"
    and "object_ok (registered s) ob"
  shows "kernel_ok (set_object a ob s)"
proof -
  have W: "\<not> waits_for s w z" "\<not> waits_for (set_object a ob s) w z" for w z
    using assms(2) by (auto simp: waits_for_def)
  have "base_ok (set_object a ob s)"
    using base_okD [OF kernel_okD(1) [OF assms(1)]] assms(2,3)
    by (simp add: base_ok_def waits_ok_def slots_free_def mutex_waits_ok_def)
  moreover have "eff (set_object a ob s) x = eff s x" for x
    by (rule eff_cong) (simp_all add: W)
  then have "inherit_ok (set_object a ob s)"
    by (intro inherit_okI [OF kernel_okD(2) [OF assms(1)]]) simp_all
  ultimately show ?thesis by (simp add: kernel_ok_def)
qed

lemma two_running_object:
  assumes "object_ok {Pool 0, Pool 1} ob"
  shows "caller (Pool 0) (set_object a ob two_running)"
proof -
  have "kernel_ok (set_object a ob two_running)"
    using assms two_running_unblocked(1)
    by (intro kernel_ok_new_object [OF two_running_ok]) (simp_all add: two_running_facts(3))
  then show ?thesis
    using two_running_facts by (auto simp: caller_def thread_context_allowed_def)
qed

lemma object_init_ok:
  assumes "kernel_ok s" and "\<not> g_fr_scheduler_running s" and "object_ok (registered s) ob"
  shows "kernel_ok (set_object a ob s)"
  using not_running_task(1) [OF assms(1,2)] assms
  by (intro kernel_ok_new_object) fastforce+

lemma timeout_start_legal:
  assumes "ticks \<le> FR_WAIT_MAX_FINITE_TICKS \<or> ticks = FR_WAIT_FOREVER"
  obtains to where "fr_wait_timeout_start ticks s = Some to"
  using assms that unfolding fr_wait_timeout_start_def by (metis not_less)

text \<open>In the state in which a timeout is started, the remaining time is the requested one.\<close>

lemma start_remaining:
  assumes "fr_wait_timeout_start ticks s = Some to"
  shows "fr_wait_timeout_remaining to s = (ticks \<noteq> 0, ticks)"
proof (cases "ticks = FR_WAIT_FOREVER")
  case True
  then show ?thesis
    using assms by (auto simp: fr_wait_timeout_start_def fr_wait_timeout_remaining_def Let_def split: if_splits)
next
  case False
  then have t: "unat ticks < 2147483648" and "to = \<lparr>to_wait_forever = False, to_deadline = fr_tick_now s + ticks\<rparr>"
    using assms by (auto simp: fr_wait_timeout_start_def word_less_nat_alt Let_def split: if_splits)
  moreover have "fr_tick_deadline_reached (fr_tick_now s) (fr_tick_now s + ticks) \<longleftrightarrow> ticks = 0"
    using deadline_reached_iff [OF t, of 0 "fr_tick_now s"] by (simp add: unat_eq_0)
  ultimately show ?thesis by (simp add: fr_wait_timeout_remaining_def Let_def)
qed

lemma start_remaining_args:
  assumes "fr_wait_timeout_start ticks s = Some to" and "ticks \<noteq> 0" and "a \<noteq> 0"
    and "r \<noteq> WAIT_NONE" and "r \<noteq> WAIT_SLEEP"
  shows "wait_args_ok r a ticks"
  using assms by (auto simp: fr_wait_timeout_start_def wait_args_ok_def not_less split: if_splits)


section \<open>Critical sections\<close>

text \<open>
  What a service does inside its critical section does not depend on the processor registers, so the
  whole section acts as if it ran outside of one and BASEPRI is restored at the end.
\<close>

lemma critical_section:
  obtains c where "fr_critical_enter s = (cpu_basepri (cpu s), s\<lparr>cpu := c\<rparr>)"
    "\<And>t. cpu t = cpu s \<Longrightarrow> fr_critical_exit (cpu_basepri (cpu s)) (t\<lparr>cpu := c\<rparr>) = t"
proof -
  let ?c = "cpu (snd (fr_critical_enter s))"
  have "fr_critical_enter s = (cpu_basepri (cpu s), s\<lparr>cpu := ?c\<rparr>)"
    by (simp add: fr_critical_enter_def Let_def)
  moreover have "fr_critical_exit (cpu_basepri (cpu s)) (t\<lparr>cpu := ?c\<rparr>) = t" if "cpu t = cpu s" for t
    using that by (simp add: fr_critical_exit_def fr_critical_enter_def msr_basepri_max_def Let_def flip: that)
  ultimately show thesis using that by blast
qed

lemma cpu_free_ops [cpu_free]:
  "upd_task p f (s\<lparr>cpu := c\<rparr>) = (upd_task p f s)\<lparr>cpu := c\<rparr>"
  "set_object a ob (s\<lparr>cpu := c\<rparr>) = (set_object a ob s)\<lparr>cpu := c\<rparr>"
  "fr_trace_record_locked e i x y (s\<lparr>cpu := c\<rparr>) = (fr_trace_record_locked e i x y s)\<lparr>cpu := c\<rparr>"
  "fr_port_request_context_switch (s\<lparr>cpu := c\<rparr>) = (fr_port_request_context_switch s)\<lparr>cpu := c\<rparr>"
  "with_prio (s\<lparr>cpu := c\<rparr>) g = (with_prio s g)\<lparr>cpu := c\<rparr>"
  by (simp_all add: upd_task_def set_object_def fr_trace_record_locked_def fr_tick_now_def
      fr_port_request_context_switch_def with_prio_def)

lemma cpu_free_wait [cpu_free]:
  "suspended p r a n (s\<lparr>cpu := c\<rparr>) = (suspended p r a n s)\<lparr>cpu := c\<rparr>"
  "woken p w (s\<lparr>cpu := c\<rparr>) = (woken p w s)\<lparr>cpu := c\<rparr>"
  by (simp_all add: suspended_def woken_def cpu_free_ops Let_def)

lemma cpu_free_reads [cpu_free]:
  "fr_task_internal_count (s\<lparr>cpu := c\<rparr>) = fr_task_internal_count s"
  "fr_task_internal_at i (s\<lparr>cpu := c\<rparr>) = fr_task_internal_at i s"
  "fr_scheduler_current_task (s\<lparr>cpu := c\<rparr>) = fr_scheduler_current_task s"
  "fr_scheduler_is_running (s\<lparr>cpu := c\<rparr>) = fr_scheduler_is_running s"
  "fr_wait_timeout_remaining to (s\<lparr>cpu := c\<rparr>) = fr_wait_timeout_remaining to s"
  "mutex_magic_ok a (s\<lparr>cpu := c\<rparr>) = mutex_magic_ok a s"
  "mutex_owner a (s\<lparr>cpu := c\<rparr>) = mutex_owner a s"
  "prio (s\<lparr>cpu := c\<rparr>) = prio s"
  "registered (s\<lparr>cpu := c\<rparr>) = registered s"
  "can_block p (s\<lparr>cpu := c\<rparr>) = can_block p s"
  "kernel_ok (s\<lparr>cpu := c\<rparr>) = kernel_ok s"
proof -
  show "kernel_ok (s\<lparr>cpu := c\<rparr>) = kernel_ok s"
    using kernel_ok_same [of s "s\<lparr>cpu := c\<rparr>"] kernel_ok_same [of "s\<lparr>cpu := c\<rparr>" s]
    by (auto simp: same_kernel_def)
qed (simp_all add: fr_task_internal_count_def fr_task_internal_at_def fr_scheduler_current_task_def
    fr_scheduler_is_running_def fr_wait_timeout_remaining_def fr_tick_now_def mutex_magic_ok_def
    mutex_owner_def prio_def fun_eq_iff registered_def can_block_def)

lemma cpu_free_select [cpu_free]:
  "fr_scheduler_select_waiter_locked r a (s\<lparr>cpu := c\<rparr>) = fr_scheduler_select_waiter_locked r a s"
  "fr_scheduler_select_next t (s\<lparr>cpu := c\<rparr>) = fr_scheduler_select_next t s"
proof -
  have "tcb (s\<lparr>cpu := c\<rparr>) = tcb s" by simp
  then have "select_waiter_step r a (s\<lparr>cpu := c\<rparr>) = select_waiter_step r a s"
    by (intro ext) (simp only: select_waiter_step_def cpu_free_reads)
  then show "fr_scheduler_select_waiter_locked r a (s\<lparr>cpu := c\<rparr>) = fr_scheduler_select_waiter_locked r a s"
    by (simp add: fr_scheduler_select_waiter_locked_def cpu_free_reads)
  show "fr_scheduler_select_next t (s\<lparr>cpu := c\<rparr>) = fr_scheduler_select_next t s"
  proof (rule select_next_saved_sp)
    show "\<exists>v. tcb (s\<lparr>cpu := c\<rparr>) q = (tcb s q)\<lparr>saved_sp := v\<rparr>" for q
      by (rule exI [of _ "saved_sp (tcb s q)"]) simp
  qed simp
qed

lemma cpu_free_request [cpu_free]:
  "fr_scheduler_request_if_needed_locked (s\<lparr>cpu := c\<rparr>) = (fr_scheduler_request_if_needed_locked s)\<lparr>cpu := c\<rparr>"
  by (simp add: fr_scheduler_request_if_needed_locked_def cpu_free_ops cpu_free_select Let_def)

lemma inherit_loop_cpu: "inherit_loop n p d (s\<lparr>cpu := c\<rparr>) = (inherit_loop n p d s)\<lparr>cpu := c\<rparr>"
proof (induction n arbitrary: p d s)
  case (Suc n)
  have "upstream (s\<lparr>cpu := c\<rparr>) x = upstream s x" for x by (simp add: upstream_def cpu_free_reads)
  then show ?case
    by (cases p) (simp_all add: inherit_loop_step Let_def cpu_free_reads cpu_free_ops Suc.IH split: option.splits)
qed simp

lemma eff_cpu: "eff (s\<lparr>cpu := c\<rparr>) x = eff s x"
  by (rule eff_cong) (simp_all add: waits_for_def cpu_free_reads)

lemma recompute_loop_cpu: "recompute_loop n p (s\<lparr>cpu := c\<rparr>) = (recompute_loop n p s)\<lparr>cpu := c\<rparr>"
proof (induction n arbitrary: p s)
  case (Suc n)
  have "upstream (s\<lparr>cpu := c\<rparr>) x = upstream s x" for x by (simp add: upstream_def cpu_free_reads)
  then show ?case
    by (cases p) (simp_all add: recompute_loop_step Let_def cpu_free_reads cpu_free_ops Suc.IH eff_cpu split: option.splits)
qed simp

lemma cpu_free_chains [cpu_free]:
  "fr_mutex_inherit_priority_chain_locked p d (s\<lparr>cpu := c\<rparr>) =
     (fr_mutex_inherit_priority_chain_locked p d s)\<lparr>cpu := c\<rparr>"
  "fr_mutex_recompute_priority_chain_locked p (s\<lparr>cpu := c\<rparr>) =
     (fr_mutex_recompute_priority_chain_locked p s)\<lparr>cpu := c\<rparr>"
  by (simp_all add: fr_mutex_inherit_priority_chain_locked_def fr_mutex_recompute_priority_chain_locked_def
      inherit_loop_cpu recompute_loop_cpu cpu_free_reads)

lemma cpu_chains [simp]:
  "cpu (fr_mutex_inherit_priority_chain_locked p d s) = cpu s"
  "cpu (fr_mutex_recompute_priority_chain_locked p s) = cpu s"
proof -
  show "cpu (fr_mutex_inherit_priority_chain_locked p d s) = cpu s"
    unfolding fr_mutex_inherit_priority_chain_locked_def using inherit_loop_with_prio [of _ p d s] by (metis with_prio_frame(6))
  show "cpu (fr_mutex_recompute_priority_chain_locked p s) = cpu s"
    unfolding fr_mutex_recompute_priority_chain_locked_def using recompute_loop_with_prio [of _ p s] by (metis with_prio_frame(6))
qed


section \<open>Writing memory and control blocks\<close>

definition set_ram :: "(u32 \<Rightarrow> u8) \<Rightarrow> kernel \<Rightarrow> kernel" where
  "set_ram m s = s\<lparr>ram := m\<rparr>"

lemma set_ram_frame [simp]:
  "tcb (set_ram m s) = tcb s" "g_fr_task_count (set_ram m s) = g_fr_task_count s"
  "g_fr_scheduler_current_task (set_ram m s) = g_fr_scheduler_current_task s"
  "g_fr_scheduler_running (set_ram m s) = g_fr_scheduler_running s" "cpu (set_ram m s) = cpu s"
  "g_fr_kernel_tick_count (set_ram m s) = g_fr_kernel_tick_count s"
  "registered (set_ram m s) = registered s"
  "objects (set_ram m s) = objects s" "ram (set_ram m s) = m" "pendsv_pending (set_ram m s) = pendsv_pending s"
  by (simp_all add: set_ram_def registered_def)

lemma set_ram_cpu [cpu_free]: "set_ram m (s\<lparr>cpu := c\<rparr>) = (set_ram m s)\<lparr>cpu := c\<rparr>"
  by (simp add: set_ram_def)

lemma kernel_ok_set_ram: "kernel_ok s \<Longrightarrow> kernel_ok (set_ram m s)"
  using kernel_ok_same [of s "set_ram m s"] by (simp add: same_kernel_def)

lemma waiting_set_object [simp]: "waiting r a (set_object b ob s) w = waiting r a s w"
  by (simp add: waiting_def)

lemma waiting_set_ram [simp]: "waiting r a (set_ram m s) w = waiting r a s w"
  by (simp add: waiting_def)

text \<open>
  A change of one control block that keeps the priorities and the mutex waits, and at most blocks the
  running task with a context switch pending.
\<close>

lemma kernel_ok_new_tcb:
  assumes "kernel_ok s" and "p \<in> registered s" and "tcb s' = (tcb s)(p := T)"
    and "g_fr_task_count s' = g_fr_task_count s"
    and "g_fr_scheduler_current_task s' = g_fr_scheduler_current_task s"
    and "g_fr_scheduler_running s' = g_fr_scheduler_running s" and "objects s' = objects s"
    and "pendsv_pending s \<longrightarrow> pendsv_pending s'"
    and "\<And>i. p = Pool i \<Longrightarrow> task_ok i T"
    and "task_state T = task_state (tcb s p) \<or>
         task_state (tcb s p) = STATE_RUNNING \<and> task_state T = STATE_BLOCKED \<and> pendsv_pending s' \<or>
         task_state (tcb s p) = STATE_CREATED \<and> task_state T = STATE_READY"
    and "task_state T = STATE_BLOCKED \<longrightarrow> wait_ok (objects s) T"
    and "\<And>z. waits_for s' p z = waits_for s p z"
    and "task_state T = STATE_BLOCKED \<and> wait_reason T = WAIT_MUTEX \<longrightarrow>
         task_state (tcb s p) = STATE_BLOCKED \<and> wait_reason (tcb s p) = WAIT_MUTEX"
    and "priority T = priority (tcb s p)" and "base_priority T = base_priority (tcb s p)"
  shows "kernel_ok s'"
proof -
  note base = base_okD [OF kernel_okD(1) [OF assms(1)]]
  have R: "registered s' = registered s" by (rule registered_cong [OF assms(4)])
  have W: "waits_for s' w z = waits_for s w z" for w z
    using assms(12) by (cases "w = p") (simp_all add: waits_for_def R assms(3,7) mutex_magic_ok_def mutex_owner_def)
  have P: "prio s' x = prio s x" "base_priority (tcb s' x) = base_priority (tcb s x)" for x
    using assms(14,15) by (simp_all add: prio_def assms(3))
  have np: "IdleTask \<noteq> p" using assms(2) by auto
  have "task_ok i (tcb s' (Pool i))" if "i < unat (g_fr_task_count s')" for i
    using base(2) [of i] that assms(9) [of i] by (auto simp: assms(3,4))
  moreover have "sched_ok s'"
  proof (cases "g_fr_scheduler_running s")
    case True
    then obtain c where c: "g_fr_scheduler_current_task s = Some c" "c = IdleTask \<or> c \<in> registered s"
      "task_state (tcb s c) = STATE_RUNNING \<or> c \<noteq> IdleTask \<and> task_state (tcb s c) = STATE_BLOCKED \<and> pendsv_pending s"
      "\<forall>p \<in> registered s. p \<noteq> c \<longrightarrow> task_state (tcb s p) \<noteq> STATE_RUNNING"
      "fr_kernel_saved_sp_valid (tcb s IdleTask)" "stack_base (tcb s IdleTask) \<noteq> 0" "stack_top (tcb s IdleTask) \<noteq> 0"
      using base(3) by (auto simp: sched_ok_def)
    have "task_state (tcb s' c) = STATE_RUNNING \<or>
        c \<noteq> IdleTask \<and> task_state (tcb s' c) = STATE_BLOCKED \<and> pendsv_pending s'"
      using c(2,3) assms(8,10) np by (auto simp: assms(3))
    moreover have "\<forall>x \<in> registered s'. x \<noteq> c \<longrightarrow> task_state (tcb s' x) \<noteq> STATE_RUNNING"
      using c(4) assms(10) by (auto simp: R assms(3))
    ultimately show ?thesis using c(1,2,5-7) np True by (simp add: sched_ok_def R assms(3,5,6))
  next
    case False
    then show ?thesis using base(3) assms(2,10) by (auto simp: sched_ok_def R assms(3,5,6))
  qed
  moreover have "waits_ok s'"
    using base(5) assms(11) by (auto simp: waits_ok_def R assms(3,7))
  moreover have "mutex_waits_ok s'"
    using base(6) assms(2,13) by (auto simp: mutex_waits_ok_def R W assms(3))
  moreover have "slots_free s'"
    using base(7) assms(2) by (auto simp: slots_free_def assms(3,4))
  ultimately have "base_ok s'" using base(1,4) by (simp add: base_ok_def R assms(4,7))
  moreover have "eff s' x = eff s x" for x by (rule eff_cong) (simp_all add: W P)
  then have "inherit_ok s'"
    by (intro inherit_okI [OF kernel_okD(2) [OF assms(1)] R]) (simp_all add: P fun_eq_iff)
  ultimately show ?thesis by (simp add: kernel_ok_def)
qed

text \<open>
  A context switch away from a task that has just blocked, without its effect on the saved stack
  pointers: used to build states in which one task waits and another runs.
\<close>

definition handover :: "task_ptr \<Rightarrow> kernel \<Rightarrow> kernel" where
  "handover p s = s\<lparr>tcb := (tcb s)(p := (tcb s p)\<lparr>task_state := STATE_RUNNING\<rparr>),
     g_fr_scheduler_current_task := Some p, pendsv_pending := False\<rparr>"

lemma handover_frame [simp]:
  "tcb (handover p s) = (tcb s)(p := (tcb s p)\<lparr>task_state := STATE_RUNNING\<rparr>)"
  "objects (handover p s) = objects s" "registered (handover p s) = registered s" "ram (handover p s) = ram s"
  "g_fr_task_count (handover p s) = g_fr_task_count s" "cpu (handover p s) = cpu s"
  "g_fr_kernel_tick_count (handover p s) = g_fr_kernel_tick_count s"
  by (simp_all add: handover_def registered_def)

lemma handover_caller:
  assumes "kernel_ok s" and "g_fr_scheduler_running s" and "g_fr_scheduler_current_task s = Some c"
    and "task_state (tcb s c) = STATE_BLOCKED" and "ready s p" and "thread_context_allowed s"
  shows "caller p (handover p s)"
proof -
  note base = base_okD [OF kernel_okD(1) [OF assms(1)]]
  have p: "p \<in> registered s" "task_state (tcb s p) = STATE_READY" using assms(5) by (simp_all add: ready_def)
  have np: "p \<noteq> IdleTask" using p(1) by auto
  have "kernel_ok (handover p s)"
  proof (rule kernel_ok_run_change [OF assms(1), where sp = "\<lambda>q. saved_sp (tcb s q)"
        and st = "\<lambda>q. if q = p then STATE_RUNNING else task_state (tcb s q)"])
    show "task_ok i (tcb (handover p s) (Pool i))" if "i < unat (g_fr_task_count s)" for i
      using base(2) [OF that] p(2) task_ok_run by auto
    show "sched_ok (handover p s)"
    proof -
      have "task_state (tcb s q) \<noteq> STATE_RUNNING" if "q \<in> registered s" for q
        using base(3) assms(2-4) that by (auto simp: sched_ok_def)
      moreover have "fr_kernel_saved_sp_valid (tcb s IdleTask)" "stack_base (tcb s IdleTask) \<noteq> 0"
        "stack_top (tcb s IdleTask) \<noteq> 0"
        using base(3) assms(2) by (auto simp: sched_ok_def)
      ultimately show ?thesis
        unfolding sched_ok_def handover_frame using p(1) np assms(2) by (simp add: handover_def)
    qed
    show "slots_free (handover p s)" using base(7) p(1) by (auto simp: slots_free_def)
  qed (use p(2) in simp_all)
  then show ?thesis
    using assms(2,6) np by (simp add: caller_def thread_context_allowed_def handover_def)
qed


section \<open>Preemption\<close>

text \<open>
  No context switch is owed: the scheduler would not ask for one, or one is pending already. Services
  that wake a task end with \<open>fr_scheduler_request_if_needed_locked\<close> and so leave the kernel settled.
\<close>

definition settled :: "kernel \<Rightarrow> bool" where
  "settled s \<longleftrightarrow> (pendsv_pending (fr_scheduler_request_if_needed_locked s) \<longrightarrow> pendsv_pending s)"

lemma settled_request [simp]: "settled (fr_scheduler_request_if_needed_locked s)"
proof -
  have "fr_scheduler_request_if_needed_locked s = s \<or>
      fr_scheduler_request_if_needed_locked s = fr_port_request_context_switch s"
    by (simp add: fr_scheduler_request_if_needed_locked_def Let_def)
  then show ?thesis by (auto simp: settled_def)
qed

lemma settled_pending: "pendsv_pending s \<Longrightarrow> settled s"
  by (simp add: settled_def)

lemma settled_cpu [simp]: "settled (s\<lparr>cpu := c\<rparr>) = settled s"
  by (simp add: settled_def cpu_free)

lemma settled_select:
  assumes "settled s" and "\<not> pendsv_pending s" and "g_fr_scheduler_running s" and "g_fr_scheduler_current_task s = Some c"
    and "fr_scheduler_select_next (Some c) s = Some p"
  shows "p = c"
  using assms by (auto simp: settled_def fr_scheduler_request_if_needed_locked_def fr_port_request_context_switch_def
      split: if_splits)

end
