(* ===== verification/Semaphore.thy ===== *)
theory Semaphore
  imports Critical_Sections
begin

text \<open>
  Binary and counting semaphores (\<open>kernel/semaphore.c\<close>). Both services share \<open>fr_semaphore_take_common\<close>
  and \<open>fr_semaphore_give_common\<close>, which reach the token count through a pointer to a field of the
  semaphore.

  A blocking call is split where it gives up the processor: \<open>fr_semaphore_take_common\<close> runs up to the
  end of the critical section and either returns or leaves the caller suspended, and
  \<open>fr_semaphore_take_resume\<close> is the rest, run when the task is scheduled again.
\<close>


section \<open>Operations\<close>

definition fr_semaphore_thread_context_allowed :: "kernel \<Rightarrow> bool" where
  "fr_semaphore_thread_context_allowed s =
     (cpu_ipsr (cpu s) = 0 \<and> cpu_primask (cpu s) AND 1 = 0 \<and> cpu_faultmask (cpu s) AND 1 = 0 \<and>
      cpu_basepri (cpu s) = 0)"

text \<open>The \<open>uint32_t *count\<close> argument: null, or the count field of a semaphore.\<close>

datatype count_ref = NullCount | AvailableOf u32 | CountOf u32

fun read_count :: "count_ref \<Rightarrow> kernel \<Rightarrow> u32" where
  "read_count NullCount s = 0"
| "read_count (AvailableOf a) s = (case objects s a of BinarySemaphore b \<Rightarrow> bs_available b | _ \<Rightarrow> 0)"
| "read_count (CountOf a) s = (case objects s a of CountingSemaphore c \<Rightarrow> cs_count c | _ \<Rightarrow> 0)"

fun write_count :: "count_ref \<Rightarrow> u32 \<Rightarrow> kernel \<Rightarrow> kernel" where
  "write_count NullCount v s = s"
| "write_count (AvailableOf a) v s =
     (case objects s a of BinarySemaphore b \<Rightarrow> set_object a (BinarySemaphore (b\<lparr>bs_available := v\<rparr>)) s | _ \<Rightarrow> s)"
| "write_count (CountOf a) v s =
     (case objects s a of CountingSemaphore c \<Rightarrow> set_object a (CountingSemaphore (c\<lparr>cs_count := v\<rparr>)) s | _ \<Rightarrow> s)"

definition fr_semaphore_take_section :: "count_ref \<Rightarrow> u32 \<Rightarrow> fr_wait_timeout \<Rightarrow> kernel \<Rightarrow> bool call outcome" where
  "fr_semaphore_take_section count wobj timeout s =
     (let (critical_state, s) = fr_critical_enter s;
          current_task = fr_scheduler_current_task s
      in if critical_state \<noteq> 0 \<or> \<not> fr_scheduler_is_running s \<or> current_task = None
         then Ret (Returned False) (fr_critical_exit critical_state s)
         else if read_count count s \<noteq> 0
         then Ret (Returned True) (fr_critical_exit critical_state (write_count count (read_count count s - 1) s))
         else let (more, wait_ticks) = fr_wait_timeout_remaining timeout s
              in if \<not> more then Ret (Returned False) (fr_critical_exit critical_state s)
                 else and_then (fr_scheduler_block_current_locked WAIT_SYNC wobj wait_ticks s)
                   (\<lambda>blocked s. Ret (if blocked then Suspended else Returned False)
                      (fr_critical_exit critical_state s)))"

definition fr_semaphore_take_common :: "count_ref \<Rightarrow> u32 \<Rightarrow> u32 \<Rightarrow> kernel \<Rightarrow> bool call outcome" where
  "fr_semaphore_take_common count wobj timeout_ticks s =
     (if count = NullCount \<or> wobj = 0 \<or> \<not> fr_semaphore_thread_context_allowed s
      then Ret (Returned False) s
      else case fr_wait_timeout_start timeout_ticks s of
             None \<Rightarrow> Ret (Returned False) s
           | Some timeout \<Rightarrow> fr_semaphore_take_section count wobj timeout s)"

definition fr_semaphore_take_resume :: "task_ptr \<Rightarrow> kernel \<Rightarrow> bool" where
  "fr_semaphore_take_resume current_task s = (wait_result (tcb s current_task) = RESULT_SIGNALED)"

definition fr_semaphore_give_common :: "count_ref \<Rightarrow> u32 \<Rightarrow> u32 \<Rightarrow> kernel \<Rightarrow> bool outcome" where
  "fr_semaphore_give_common count max_count wobj s =
     (if count = NullCount \<or> max_count = 0 \<or> wobj = 0 \<or> \<not> fr_semaphore_thread_context_allowed s
      then Ret False s
      else let (critical_state, s) = fr_critical_enter s;
               current_task = fr_scheduler_current_task s
           in if critical_state \<noteq> 0 \<or> \<not> fr_scheduler_is_running s \<or> current_task = None
              then Ret False (fr_critical_exit critical_state s)
              else case fr_scheduler_select_waiter_locked WAIT_SYNC wobj s of
                     Some waiter \<Rightarrow>
                       if read_count count s \<noteq> 0 then Ret False (fr_critical_exit critical_state s)
                       else and_then (fr_scheduler_unblock_task_locked (Some waiter) RESULT_SIGNALED s)
                         (\<lambda>ok s. if \<not> ok then Ret False (fr_critical_exit critical_state s)
                                 else Ret True (fr_critical_exit critical_state
                                        (fr_scheduler_request_if_needed_locked s)))
                   | None \<Rightarrow>
                       if read_count count s \<ge> max_count then Ret False (fr_critical_exit critical_state s)
                       else Ret True (fr_critical_exit critical_state
                              (write_count count (read_count count s + 1) s)))"

definition fr_binary_semaphore_init :: "u32 \<Rightarrow> bool \<Rightarrow> kernel \<Rightarrow> bool \<times> kernel" where
  "fr_binary_semaphore_init semaphore initially_available s =
     (if semaphore = 0 \<or> fr_scheduler_is_running s then (False, s)
      else (True, set_object semaphore (BinarySemaphore
              \<lparr>bs_magic = FR_BINARY_SEMAPHORE_MAGIC,
               bs_available = (if initially_available then 1 else 0)\<rparr>) s))"

text \<open>The magic and range checks at the start of the binary services.\<close>

definition binary_semaphore_checks :: "u32 \<Rightarrow> kernel \<Rightarrow> bool" where
  "binary_semaphore_checks semaphore s \<longleftrightarrow> semaphore \<noteq> 0 \<and>
     (case objects s semaphore of
        BinarySemaphore b \<Rightarrow> bs_magic b = FR_BINARY_SEMAPHORE_MAGIC \<and> \<not> bs_available b > 1
      | _ \<Rightarrow> False)"

definition fr_binary_semaphore_take :: "u32 \<Rightarrow> u32 \<Rightarrow> kernel \<Rightarrow> bool call outcome" where
  "fr_binary_semaphore_take semaphore timeout_ticks s =
     (if \<not> binary_semaphore_checks semaphore s then Ret (Returned False) s
      else fr_semaphore_take_common (AvailableOf semaphore) semaphore timeout_ticks s)"

definition fr_binary_semaphore_give :: "u32 \<Rightarrow> kernel \<Rightarrow> bool outcome" where
  "fr_binary_semaphore_give semaphore s =
     (if \<not> binary_semaphore_checks semaphore s then Ret False s
      else fr_semaphore_give_common (AvailableOf semaphore) 1 semaphore s)"

definition fr_counting_semaphore_init :: "u32 \<Rightarrow> u32 \<Rightarrow> u32 \<Rightarrow> kernel \<Rightarrow> bool \<times> kernel" where
  "fr_counting_semaphore_init semaphore initial_count max_count s =
     (if semaphore = 0 \<or> max_count = 0 \<or> initial_count > max_count \<or> fr_scheduler_is_running s
      then (False, s)
      else (True, set_object semaphore (CountingSemaphore
              \<lparr>cs_magic = FR_COUNTING_SEMAPHORE_MAGIC, cs_count = initial_count,
               cs_max_count = max_count\<rparr>) s))"

definition counting_semaphore_checks :: "u32 \<Rightarrow> kernel \<Rightarrow> bool" where
  "counting_semaphore_checks semaphore s \<longleftrightarrow> semaphore \<noteq> 0 \<and>
     (case objects s semaphore of
        CountingSemaphore c \<Rightarrow> cs_magic c = FR_COUNTING_SEMAPHORE_MAGIC \<and> cs_max_count c \<noteq> 0 \<and>
          \<not> cs_count c > cs_max_count c
      | _ \<Rightarrow> False)"

definition fr_counting_semaphore_take :: "u32 \<Rightarrow> u32 \<Rightarrow> kernel \<Rightarrow> bool call outcome" where
  "fr_counting_semaphore_take semaphore timeout_ticks s =
     (if \<not> counting_semaphore_checks semaphore s then Ret (Returned False) s
      else fr_semaphore_take_common (CountOf semaphore) semaphore timeout_ticks s)"

definition cs_max_count_of :: "u32 \<Rightarrow> kernel \<Rightarrow> u32" where
  "cs_max_count_of semaphore s =
     (case objects s semaphore of CountingSemaphore c \<Rightarrow> cs_max_count c | _ \<Rightarrow> 0)"

definition fr_counting_semaphore_give :: "u32 \<Rightarrow> kernel \<Rightarrow> bool outcome" where
  "fr_counting_semaphore_give semaphore s =
     (if \<not> counting_semaphore_checks semaphore s then Ret False s
      else fr_semaphore_give_common (CountOf semaphore) (cs_max_count_of semaphore s) semaphore s)"



section \<open>The shared contract\<close>

lemma context_allowed_eq: "fr_semaphore_thread_context_allowed s = thread_context_allowed s"
  by (simp add: fr_semaphore_thread_context_allowed_def thread_context_allowed_def)

lemma read_count_cpu [cpu_free]: "read_count r (s\<lparr>cpu := c\<rparr>) = read_count r s"
  by (cases r) simp_all

lemma write_count_cpu [cpu_free]: "write_count r v (s\<lparr>cpu := c\<rparr>) = (write_count r v s)\<lparr>cpu := c\<rparr>"
  by (cases r) (simp_all add: cpu_free split: kobj.splits)

lemma write_count_frame [simp]:
  "cpu (write_count r v s) = cpu s" "tcb (write_count r v s) = tcb s"
  by (cases r; simp split: kobj.splits)+

text \<open>
  The contract of the two operations, over the tokens \<open>n\<close> of the semaphore at \<open>a\<close> and the set of tasks
  that wait for it.
\<close>

definition sem_waiters :: "u32 \<Rightarrow> kernel \<Rightarrow> task_ptr set" where
  "sem_waiters a s = {q. waiting WAIT_SYNC a s q}"

definition sem_take_post :: "task_ptr \<Rightarrow> u32 \<Rightarrow> u32 \<Rightarrow> u32 \<Rightarrow> kernel \<Rightarrow> bool call \<Rightarrow> kernel \<Rightarrow> bool" where
  "sem_take_post p a n ticks s r s' \<longleftrightarrow>
     (if ticks > FR_WAIT_MAX_FINITE_TICKS \<and> ticks \<noteq> FR_WAIT_FOREVER then r = Returned False \<and> s' = s
      else if n \<noteq> 0
      then r = Returned True \<and> sem_tokens (objects s' a) = Some (n - 1) \<and> tcb s' = tcb s \<and>
        (\<forall>b. b \<noteq> a \<longrightarrow> objects s' b = objects s b)
      else if ticks = 0 then r = Returned False \<and> s' = s
      else r = Suspended \<and> sem_waiters a s' = insert p (sem_waiters a s) \<and> objects s' = objects s \<and>
        pendsv_pending s' \<and> wait_has_deadline (tcb s' p) = (ticks \<noteq> FR_WAIT_FOREVER) \<and>
        (ticks \<noteq> FR_WAIT_FOREVER \<longrightarrow> wait_deadline (tcb s' p) = g_fr_kernel_tick_count s + ticks))"

definition sem_give_post :: "u32 \<Rightarrow> u32 \<Rightarrow> u32 \<Rightarrow> kernel \<Rightarrow> bool \<Rightarrow> kernel \<Rightarrow> bool" where
  "sem_give_post a n maxc s r s' \<longleftrightarrow>
     (if sem_waiters a s \<noteq> {}
      then r \<and> objects s' = objects s \<and>
        (\<exists>w \<in> sem_waiters a s. (\<forall>q \<in> sem_waiters a s. prio s q \<le> prio s w) \<and>
           sem_waiters a s' = sem_waiters a s - {w} \<and> task_state (tcb s' w) = STATE_READY \<and>
           fr_semaphore_take_resume w s')
      else if n < maxc
      then r \<and> sem_tokens (objects s' a) = Some (n + 1) \<and> tcb s' = tcb s \<and>
        (\<forall>b. b \<noteq> a \<longrightarrow> objects s' b = objects s b)
      else \<not> r \<and> s' = s)"

text \<open>
  A semaphore as the two services see it: a count field that is never above the limit, holds the
  tokens of the object, and can be written within the limit.
\<close>

locale token_semaphore =
  fixes ref :: "u32 \<Rightarrow> count_ref"
    and limit :: "u32 \<Rightarrow> kernel \<Rightarrow> u32"
    and valid :: "u32 \<Rightarrow> kernel \<Rightarrow> bool"
  assumes ref_nonnull: "ref a \<noteq> NullCount"
    and valid_nonnull: "valid a s \<Longrightarrow> a \<noteq> 0 \<and> limit a s \<noteq> 0"
    and tokens_read: "valid a s \<Longrightarrow> sem_tokens (objects s a) = Some (read_count (ref a) s)"
    and tokens_le: "valid a s \<Longrightarrow> read_count (ref a) s \<le> limit a s"
    and write_law: "valid a s \<Longrightarrow> v \<le> limit a s \<Longrightarrow>
      \<exists>ob. write_count (ref a) v s = set_object a ob s \<and> object_ok R ob \<and> sem_tokens ob = Some v"
begin

lemma no_token_waiter:
  assumes "base_ok s" and "valid a s" and "read_count (ref a) s \<noteq> 0"
  shows "\<not> waiting WAIT_SYNC a s q"
  using base_okD(5) [OF assms(1)] tokens_read [OF assms(2)] assms(3)
  by (auto simp: waiting_def waits_ok_def wait_ok_def)

lemma write_ok:
  assumes "kernel_ok s" and "valid a s" and "v \<le> limit a s" and "\<And>q. \<not> waiting WAIT_SYNC a s q"
  shows "kernel_ok (write_count (ref a) v s)" "sem_tokens (objects (write_count (ref a) v s) a) = Some v"
    "\<And>b. b \<noteq> a \<Longrightarrow> objects (write_count (ref a) v s) b = objects s b"
proof -
  obtain ob where ob: "write_count (ref a) v s = set_object a ob s" "object_ok (registered s) ob"
    "sem_tokens ob = Some v"
    using write_law [OF assms(2,3)] by blast
  have old: "sem_tokens (objects s a) = Some (read_count (ref a) s)" by (rule tokens_read [OF assms(2)])
  have "kernel_ok (set_object a ob s)"
  proof (rule kernel_ok_set_object [OF assms(1) ob(2)])
    show "objects s a \<noteq> Mutex m" for m using old by (auto simp: sem_tokens_def)
    show "ob \<noteq> Mutex m" for m using ob(3) by (auto simp: sem_tokens_def)
    fix q assume q: "q \<in> registered s" "task_state (tcb s q) = STATE_BLOCKED" "wait_object (tcb s q) = a"
    then have "wait_ok (objects s) (tcb s q)"
      using base_okD(5) [OF kernel_okD(1) [OF assms(1)]] by (simp add: waits_ok_def)
    moreover have "wait_reason (tcb s q) \<noteq> WAIT_SYNC"
      using assms(4) [of q] q blocked_task(2) [OF kernel_okD(1) [OF assms(1)] q(1,2)]
      by (auto simp: waiting_def)
    ultimately show "wait_ok ((objects s)(a := ob)) (tcb s q)"
      using old q(3) by (auto simp: wait_ok_def sem_tokens_def split: fr_wait_reason.splits)
  qed
  then show "kernel_ok (write_count (ref a) v s)" "sem_tokens (objects (write_count (ref a) v s) a) = Some v"
    "\<And>b. b \<noteq> a \<Longrightarrow> objects (write_count (ref a) v s) b = objects s b"
    using ob by simp_all
qed

lemma take_section_closed:
  assumes "caller p s"
  shows "fr_semaphore_take_section (ref a) a to s =
    (if read_count (ref a) s \<noteq> 0
     then Ret (Returned True) (write_count (ref a) (read_count (ref a) s - 1) s)
     else if fst (fr_wait_timeout_remaining to s) \<and> wait_args_ok WAIT_SYNC a (snd (fr_wait_timeout_remaining to s))
     then Ret Suspended (suspended p WAIT_SYNC a (snd (fr_wait_timeout_remaining to s)) s)
     else Ret (Returned False) s)"
proof -
  note cf = caller_facts [OF assms]
  obtain c where c: "fr_critical_enter s = (cpu_basepri (cpu s), s\<lparr>cpu := c\<rparr>)"
    "\<And>t. cpu t = cpu s \<Longrightarrow> fr_critical_exit (cpu_basepri (cpu s)) (t\<lparr>cpu := c\<rparr>) = t"
    using critical_section [of s] by blast
  show ?thesis
    using cf(4,5,7,9,10) c(2)
    by (auto simp: fr_semaphore_take_section_def c(1) cpu_free block_closed fr_scheduler_is_running_def
        split_beta Let_def)
qed

lemma give_closed:
  assumes "caller p s" and "valid a s"
  shows "fr_semaphore_give_common (ref a) (limit a s) a s =
    (case fr_scheduler_select_waiter_locked WAIT_SYNC a s of
       Some w \<Rightarrow> Ret True (fr_scheduler_request_if_needed_locked (woken w RESULT_SIGNALED s))
     | None \<Rightarrow> if read_count (ref a) s < limit a s
               then Ret True (write_count (ref a) (read_count (ref a) s + 1) s) else Ret False s)"
proof -
  note cf = caller_facts [OF assms(1)]
  obtain c where c: "fr_critical_enter s = (cpu_basepri (cpu s), s\<lparr>cpu := c\<rparr>)"
    "\<And>t. cpu t = cpu s \<Longrightarrow> fr_critical_exit (cpu_basepri (cpu s)) (t\<lparr>cpu := c\<rparr>) = t"
    using critical_section [of s] by blast
  have z: "read_count (ref a) s = 0" "task_state (tcb s w) = STATE_BLOCKED" "wait_reason (tcb s w) = WAIT_SYNC"
    if "fr_scheduler_select_waiter_locked WAIT_SYNC a s = Some w" for w
    using select_waiter_Some(1) [OF that] no_token_waiter [OF cf(2) assms(2)] by (auto simp: waiting_def)
  show ?thesis
    using cf(3,4,9,10) c(2) valid_nonnull [OF assms(2)] ref_nonnull [of a] z
    by (auto simp: fr_semaphore_give_common_def c(1) cpu_free unblock_closed fr_scheduler_is_running_def
        context_allowed_eq Let_def not_le split: option.splits)
qed

lemma take_post:
  assumes "caller p s" and "valid a s"
  shows "\<exists>r s'. fr_semaphore_take_common (ref a) a ticks s = Ret r s' \<and> kernel_ok s' \<and>
           sem_take_post p a (read_count (ref a) s) ticks s r s'"
proof (cases "fr_wait_timeout_start ticks s")
  case None
  then show ?thesis
    using assms valid_nonnull [OF assms(2)] ref_nonnull [of a] caller_facts(1,3) [OF assms(1)]
    by (auto simp: fr_semaphore_take_common_def context_allowed_eq sem_take_post_def sem_waiters_def
        fr_wait_timeout_start_def not_less Let_def split: if_splits)
next
  case (Some to)
  note cf = caller_facts [OF assms(1)] and nn = valid_nonnull [OF assms(2)]
  let ?n = "read_count (ref a) s"
  have legal: "\<not> (ticks > FR_WAIT_MAX_FINITE_TICKS \<and> ticks \<noteq> FR_WAIT_FOREVER)"
    using Some by (auto simp: fr_wait_timeout_start_def not_less split: if_splits)
  have eq: "fr_semaphore_take_common (ref a) a ticks s =
    (if ?n \<noteq> 0 then Ret (Returned True) (write_count (ref a) (?n - 1) s)
     else if ticks \<noteq> 0 then Ret Suspended (suspended p WAIT_SYNC a ticks s)
     else Ret (Returned False) s)"
    using Some nn ref_nonnull [of a] cf(3) start_remaining_args [OF Some _ _, of a WAIT_SYNC]
    by (simp add: fr_semaphore_take_common_def context_allowed_eq take_section_closed [OF assms(1)]
        start_remaining [OF Some])
  show ?thesis
  proof (cases "?n \<noteq> 0")
    case True
    have "?n - 1 \<le> limit a s"
      using tokens_le [OF assms(2)] True by (simp add: word_le_nat_alt unat_minus_one)
    note w = write_ok [OF cf(1) assms(2) this no_token_waiter [OF cf(2) assms(2) True]]
    then show ?thesis using True legal eq by (simp add: sem_take_post_def sem_waiters_def)
  next
    case False
    have tok: "sem_tokens (objects s a) = Some 0" using tokens_read [OF assms(2)] False by simp
    have "kernel_ok (suspended p WAIT_SYNC a ticks s)" if "ticks \<noteq> 0"
      using that nn start_remaining_args [OF Some that, of a WAIT_SYNC] running_flag_fields [OF cf(2,7), of WAIT_SYNC] tok
      by (intro kernel_ok_suspended [OF cf(1,7)]) (simp_all add: wait_ok_def)
    moreover have "waiting WAIT_SYNC a (suspended p WAIT_SYNC a ticks s) q \<longleftrightarrow> q = p \<or> waiting WAIT_SYNC a s q" for q
      using cf(8,11) by (auto simp: waiting_def)
    ultimately show ?thesis using False legal eq cf(1) tok by (auto simp: sem_take_post_def sem_waiters_def)
  qed
qed

lemma give_post:
  assumes "caller p s" and "valid a s"
  shows "\<exists>r s'. fr_semaphore_give_common (ref a) (limit a s) a s = Ret r s' \<and> kernel_ok s' \<and>
           sem_give_post a (read_count (ref a) s) (limit a s) s r s'"
proof (cases "fr_scheduler_select_waiter_locked WAIT_SYNC a s")
  case None
  note cf = caller_facts [OF assms(1)] and nn = valid_nonnull [OF assms(2)]
  have nw: "\<not> waiting WAIT_SYNC a s q" for q
    using None nn select_waiter_None [of a WAIT_SYNC s] by simp
  have "read_count (ref a) s + 1 \<le> limit a s" if "read_count (ref a) s < limit a s"
    using that unat_Suc_word [OF that] by (simp add: word_le_nat_alt word_less_nat_alt)
  note w = write_ok [OF cf(1) assms(2) this nw]
  show ?thesis
    using None nw w cf(1) by (auto simp: give_closed [OF assms] sem_give_post_def sem_waiters_def)
next
  case (Some w)
  note cf = caller_facts [OF assms(1)]
  note sel = select_waiter_Some [OF Some]
  have w: "w \<in> registered s" "task_state (tcb s w) = STATE_BLOCKED" "wait_reason (tcb s w) = WAIT_SYNC"
    using sel(1) by (simp_all add: waiting_def)
  have "w \<noteq> p" using w(2) cf(11) by auto
  let ?s' = "fr_scheduler_request_if_needed_locked (woken w RESULT_SIGNALED s)"
  have "kernel_ok ?s'"
    using w by (intro kernel_ok_request kernel_ok_woken [OF cf(1)]) simp_all
  moreover have "waiting WAIT_SYNC a ?s' q \<longleftrightarrow> waiting WAIT_SYNC a s q \<and> q \<noteq> w" for q
    by (auto simp: waiting_def)
  moreover have "task_state (tcb ?s' w) = STATE_READY" "fr_semaphore_take_resume w ?s'"
    using \<open>w \<noteq> p\<close> cf(5) by (simp_all add: fr_semaphore_take_resume_def)
  ultimately show ?thesis
    using Some sel by (auto simp: give_closed [OF assms] sem_give_post_def sem_waiters_def)
qed

end


section \<open>Both services meet the contract\<close>

interpretation binary: token_semaphore AvailableOf "\<lambda>_ _. 1" binary_semaphore_checks
proof (unfold_locales, goal_cases)
  case (5 a s v R)
  then show ?case by (auto simp: binary_semaphore_checks_def sem_tokens_def split: kobj.splits)
qed (auto simp: binary_semaphore_checks_def sem_tokens_def not_less split: kobj.splits)

interpretation counting: token_semaphore CountOf cs_max_count_of counting_semaphore_checks
proof (unfold_locales, goal_cases)
  case (5 a s v R)
  then show ?case
    by (auto simp: counting_semaphore_checks_def cs_max_count_of_def sem_tokens_def split: kobj.splits)
qed (auto simp: counting_semaphore_checks_def cs_max_count_of_def sem_tokens_def not_less split: kobj.splits)

lemma binary_init_ok:
  "kernel_ok s \<Longrightarrow> \<not> g_fr_scheduler_running s \<Longrightarrow>
   kernel_ok (snd (fr_binary_semaphore_init a av s))"
  by (auto simp: fr_binary_semaphore_init_def intro!: object_init_ok)

lemma counting_init_ok:
  "kernel_ok s \<Longrightarrow> \<not> g_fr_scheduler_running s \<Longrightarrow>
   kernel_ok (snd (fr_counting_semaphore_init a n m s))"
  by (auto simp: fr_counting_semaphore_init_def not_less intro!: object_init_ok)


section \<open>The services\<close>

text \<open>
  C21. The binary semaphore meets its contract. Called from a task on an initialised semaphore, take
  consumes the token if there is one, otherwise fails at once for a zero timeout and otherwise leaves
  the caller waiting with the requested deadline and a pending context switch; an illegal timeout is
  rejected with no change. Give hands the token to a waiter of the highest priority, whose take then
  returns true, and otherwise stores it, unless the token is already there. Both keep the kernel
  invariant and no assertion fails.
\<close>

theorem binary_semaphore_contract:
  assumes "caller p s" and "binary_semaphore_checks a s" and "objects s a = BinarySemaphore b"
  shows "(\<exists>r s'. fr_binary_semaphore_take a ticks s = Ret r s' \<and> kernel_ok s' \<and>
           sem_take_post p a (bs_available b) ticks s r s') \<and>
         (\<exists>r s'. fr_binary_semaphore_give a s = Ret r s' \<and> kernel_ok s' \<and>
           sem_give_post a (bs_available b) 1 s r s')"
  using binary.take_post [OF assms(1,2), of ticks] binary.give_post [OF assms(1,2)] assms(2,3)
  by (simp add: fr_binary_semaphore_take_def fr_binary_semaphore_give_def)

definition empty_binary :: fr_binary_semaphore where
  "empty_binary = \<lparr>bs_magic = FR_BINARY_SEMAPHORE_MAGIC, bs_available = 0\<rparr>"

theorem binary_semaphore_contract_witness:
  "(\<exists>r s'. fr_binary_semaphore_take 0x20003000 7 (set_object 0x20003000 (BinarySemaphore empty_binary) two_running) = Ret r s' \<and>
     r = Suspended \<and> Pool 0 \<in> sem_waiters 0x20003000 s' \<and> wait_deadline (tcb s' (Pool 0)) = 7) \<and>
   (\<exists>s'. fr_binary_semaphore_give 0x20003000 (set_object 0x20003000 (BinarySemaphore empty_binary) two_running) = Ret True s' \<and>
     sem_tokens (objects s' 0x20003000) = Some 1)"
proof -
  let ?s = "set_object 0x20003000 (BinarySemaphore empty_binary) two_running"
  have c: "caller (Pool 0) ?s" by (rule two_running_object) (simp add: empty_binary_def)
  have k: "binary_semaphore_checks 0x20003000 ?s" "objects ?s 0x20003000 = BinarySemaphore empty_binary"
    by (simp_all add: binary_semaphore_checks_def empty_binary_def)
  have w: "sem_waiters 0x20003000 ?s = {}"
    by (simp add: sem_waiters_def two_running_unblocked)
  note th = binary_semaphore_contract [OF c k]
  have "\<exists>r s'. fr_binary_semaphore_take 0x20003000 7 ?s = Ret r s' \<and> r = Suspended \<and>
      Pool 0 \<in> sem_waiters 0x20003000 s' \<and> wait_deadline (tcb s' (Pool 0)) = 7"
    using th [of 7] by (auto simp: sem_take_post_def two_running_facts empty_binary_def)
  moreover have "\<exists>s'. fr_binary_semaphore_give 0x20003000 ?s = Ret True s' \<and> sem_tokens (objects s' 0x20003000) = Some 1"
    using th [of 0] w by (auto simp: sem_give_post_def empty_binary_def)
  ultimately show ?thesis by blast
qed


definition full_counting :: fr_counting_semaphore where
  "full_counting = \<lparr>cs_magic = FR_COUNTING_SEMAPHORE_MAGIC, cs_count = 3, cs_max_count = 3\<rparr>"


end

