(* ===== verification/Mutex_Service.thy ===== *)
theory Mutex_Service
  imports Critical_Sections
begin

text \<open>
  The mutex services of \<open>kernel/mutex.c\<close>: a non-recursive lock with direct ownership handoff and
  priority inheritance. The inheritance chains are in theory \<open>Inheritance\<close>; here they are composed
  with blocking, waking and the owner field, and the contract of lock and unlock is stated over the
  owner, the set of waiting tasks and the equation for effective priorities.
\<close>


section \<open>Operations\<close>

definition fr_mutex_thread_context_allowed :: "kernel \<Rightarrow> bool" where
  "fr_mutex_thread_context_allowed s =
     (cpu_ipsr (cpu s) = 0 \<and> cpu_primask (cpu s) AND 1 = 0 \<and> cpu_faultmask (cpu s) AND 1 = 0 \<and>
      cpu_basepri (cpu s) = 0)"

text \<open>The assignment \<open>mutex->owner = owner\<close>.\<close>

definition set_mutex_owner :: "u32 \<Rightarrow> task_ptr option \<Rightarrow> kernel \<Rightarrow> kernel" where
  "set_mutex_owner a owner s =
     (case objects s a of Mutex m \<Rightarrow> set_object a (Mutex (m\<lparr>mx_owner := owner\<rparr>)) s | _ \<Rightarrow> s)"

definition fr_mutex_init :: "u32 \<Rightarrow> kernel \<Rightarrow> bool \<times> kernel" where
  "fr_mutex_init mutex s =
     (if mutex = 0 \<or> fr_scheduler_is_running s then (False, s)
      else (True, set_object mutex (Mutex \<lparr>mx_magic = FR_MUTEX_MAGIC, mx_owner = None\<rparr>) s))"

definition fr_mutex_lock_section :: "u32 \<Rightarrow> fr_wait_timeout \<Rightarrow> kernel \<Rightarrow> bool call outcome" where
  "fr_mutex_lock_section mutex timeout s =
     (let (critical_state, s) = fr_critical_enter s
      in case fr_scheduler_current_task s of
           None \<Rightarrow> Ret (Returned False) (fr_critical_exit critical_state s)
         | Some current_task \<Rightarrow>
             if critical_state \<noteq> 0 \<or> \<not> mutex_magic_ok mutex s \<or> \<not> fr_scheduler_is_running s
             then Ret (Returned False) (fr_critical_exit critical_state s)
             else if mutex_owner mutex s = None
             then Ret (Returned True)
                    (fr_critical_exit critical_state (set_mutex_owner mutex (Some current_task) s))
             else if mutex_owner mutex s = Some current_task
             then Ret (Returned False) (fr_critical_exit critical_state s)
             else let (more, wait_ticks) = fr_wait_timeout_remaining timeout s
                  in if \<not> more then Ret (Returned False) (fr_critical_exit critical_state s)
                     else let owner = mutex_owner mutex s
                          in and_then (fr_scheduler_block_current_locked WAIT_MUTEX mutex wait_ticks s)
                               (\<lambda>blocked s.
                                  if blocked
                                  then Ret Suspended (fr_critical_exit critical_state
                                         (fr_mutex_inherit_priority_chain_locked owner
                                            (priority (tcb s current_task)) s))
                                  else Ret (Returned False) (fr_critical_exit critical_state s)))"

definition fr_mutex_lock :: "u32 \<Rightarrow> u32 \<Rightarrow> kernel \<Rightarrow> bool call outcome" where
  "fr_mutex_lock mutex timeout_ticks s =
     (if mutex = 0 \<or> \<not> fr_mutex_thread_context_allowed s then Ret (Returned False) s
      else case fr_wait_timeout_start timeout_ticks s of
             None \<Rightarrow> Ret (Returned False) s
           | Some timeout \<Rightarrow> fr_mutex_lock_section mutex timeout s)"

text \<open>The result of a lock call that had blocked, once its task runs again.\<close>

definition fr_mutex_lock_resume :: "u32 \<Rightarrow> task_ptr \<Rightarrow> kernel \<Rightarrow> bool" where
  "fr_mutex_lock_resume mutex current_task s \<longleftrightarrow>
     wait_result (tcb s current_task) = RESULT_SIGNALED \<and> mutex_owner mutex s = Some current_task"

definition fr_mutex_unlock :: "u32 \<Rightarrow> kernel \<Rightarrow> bool outcome" where
  "fr_mutex_unlock mutex s =
     (if mutex = 0 \<or> \<not> fr_mutex_thread_context_allowed s then Ret False s
      else let (critical_state, s) = fr_critical_enter s;
               current_task = fr_scheduler_current_task s
           in if critical_state \<noteq> 0 \<or> \<not> mutex_magic_ok mutex s \<or> \<not> fr_scheduler_is_running s \<or>
                 current_task = None \<or> mutex_owner mutex s \<noteq> current_task
              then Ret False (fr_critical_exit critical_state s)
              else case fr_scheduler_select_waiter_locked WAIT_MUTEX mutex s of
                     None \<Rightarrow>
                       Ret True (fr_critical_exit critical_state
                         (fr_mutex_recompute_priority_chain_locked current_task
                            (set_mutex_owner mutex None s)))
                   | Some waiter \<Rightarrow>
                       and_then (fr_scheduler_unblock_task_locked (Some waiter) RESULT_SIGNALED
                                   (set_mutex_owner mutex (Some waiter) s))
                         (\<lambda>ok s.
                            if \<not> ok
                            then Ret False (fr_critical_exit critical_state
                                   (set_mutex_owner mutex current_task s))
                            else Ret True (fr_critical_exit critical_state
                                   (fr_scheduler_request_if_needed_locked
                                      (fr_mutex_recompute_priority_chain_locked current_task s)))))"


section \<open>Closed forms\<close>

lemma mutex_context_allowed_eq: "fr_mutex_thread_context_allowed s = thread_context_allowed s"
  by (simp add: fr_mutex_thread_context_allowed_def thread_context_allowed_def)

lemma set_mutex_owner_cpu [cpu_free]:
  "set_mutex_owner a ow (s\<lparr>cpu := c\<rparr>) = (set_mutex_owner a ow s)\<lparr>cpu := c\<rparr>"
  by (simp add: set_mutex_owner_def cpu_free split: kobj.splits)

lemma set_mutex_owner_frame [simp]:
  "cpu (set_mutex_owner a ow s) = cpu s" "tcb (set_mutex_owner a ow s) = tcb s"
  "g_fr_scheduler_current_task (set_mutex_owner a ow s) = g_fr_scheduler_current_task s"
  by (simp_all add: set_mutex_owner_def split: kobj.splits)

lemma lock_section_closed:
  assumes "caller p s" and "objects s a = Mutex m" and "fr_wait_timeout_remaining to s = (mo, n)"
  shows "fr_mutex_lock_section a to s =
    (case mx_owner m of
       None \<Rightarrow> Ret (Returned True) (set_object a (Mutex (m\<lparr>mx_owner := Some p\<rparr>)) s)
     | Some z \<Rightarrow>
         if z \<noteq> p \<and> mo \<and> wait_args_ok WAIT_MUTEX a n
         then Ret Suspended (fr_mutex_inherit_priority_chain_locked (Some z) (prio s p)
                (suspended p WAIT_MUTEX a n s))
         else Ret (Returned False) s)"
proof -
  note cf = caller_facts [OF assms(1)]
  obtain c where c: "fr_critical_enter s = (cpu_basepri (cpu s), s\<lparr>cpu := c\<rparr>)"
    "\<And>t. cpu t = cpu s \<Longrightarrow> fr_critical_exit (cpu_basepri (cpu s)) (t\<lparr>cpu := c\<rparr>) = t"
    using critical_section [of s] by blast
  have m: "mutex_magic_ok a s" "mutex_owner a s = mx_owner m"
    using base_okD(4) [OF cf(2), of a] assms(2) by (simp_all add: mutex_magic_ok_def mutex_owner_def)
  show ?thesis
    using cf(4,5,7,9,10) c(2) m assms(2)
    by (auto simp: fr_mutex_lock_section_def c(1) cpu_free block_closed fr_scheduler_is_running_def
        set_mutex_owner_def assms(3) prio_def split: option.splits)
qed

lemma unlock_closed:
  assumes "caller p s" and "objects s a = Mutex m" and "a \<noteq> 0"
  shows "fr_mutex_unlock a s =
    (if mx_owner m \<noteq> Some p then Ret False s
     else case fr_scheduler_select_waiter_locked WAIT_MUTEX a s of
            None \<Rightarrow> Ret True (fr_mutex_recompute_priority_chain_locked (Some p)
                               (set_object a (Mutex (m\<lparr>mx_owner := None\<rparr>)) s))
          | Some w \<Rightarrow> Ret True (fr_scheduler_request_if_needed_locked
               (fr_mutex_recompute_priority_chain_locked (Some p)
                  (woken w RESULT_SIGNALED (set_object a (Mutex (m\<lparr>mx_owner := Some w\<rparr>)) s)))))"
proof -
  note cf = caller_facts [OF assms(1)]
  obtain c where c: "fr_critical_enter s = (cpu_basepri (cpu s), s\<lparr>cpu := c\<rparr>)"
    "\<And>t. cpu t = cpu s \<Longrightarrow> fr_critical_exit (cpu_basepri (cpu s)) (t\<lparr>cpu := c\<rparr>) = t"
    using critical_section [of s] by blast
  have m: "mutex_magic_ok a s" "mutex_owner a s = mx_owner m"
    using base_okD(4) [OF cf(2), of a] assms(2) by (simp_all add: mutex_magic_ok_def mutex_owner_def)
  have z: "task_state (tcb s w) = STATE_BLOCKED" "wait_reason (tcb s w) = WAIT_MUTEX"
    if "fr_scheduler_select_waiter_locked WAIT_MUTEX a s = Some w" for w
    using select_waiter_Some(1) [OF that] by (auto simp: waiting_def)
  show ?thesis
    using cf(3,4,5,7,9,10) c(2) m assms(2,3) z
    by (auto simp: fr_mutex_unlock_def c(1) cpu_free unblock_closed fr_scheduler_is_running_def
        mutex_context_allowed_eq set_mutex_owner_def Let_def split: option.splits)
qed


section \<open>The contract\<close>

definition mutex_waiters :: "u32 \<Rightarrow> kernel \<Rightarrow> task_ptr set" where
  "mutex_waiters a s = {q. waiting WAIT_MUTEX a s q}"

definition mutex_lock_post :: "task_ptr \<Rightarrow> u32 \<Rightarrow> u32 \<Rightarrow> kernel \<Rightarrow> bool call \<Rightarrow> kernel \<Rightarrow> bool" where
  "mutex_lock_post p a ticks s r s' \<longleftrightarrow>
     (if ticks > FR_WAIT_MAX_FINITE_TICKS \<and> ticks \<noteq> FR_WAIT_FOREVER then r = Returned False \<and> s' = s
      else if mutex_owner a s = None
      then r = Returned True \<and> mutex_owner a s' = Some p \<and> tcb s' = tcb s \<and>
        (\<forall>b. b \<noteq> a \<longrightarrow> objects s' b = objects s b)
      else if mutex_owner a s = Some p \<or> ticks = 0 then r = Returned False \<and> s' = s
      else r = Suspended \<and> mutex_waiters a s' = insert p (mutex_waiters a s) \<and> objects s' = objects s \<and>
        pendsv_pending s' \<and> wait_has_deadline (tcb s' p) = (ticks \<noteq> FR_WAIT_FOREVER) \<and>
        (ticks \<noteq> FR_WAIT_FOREVER \<longrightarrow> wait_deadline (tcb s' p) = g_fr_kernel_tick_count s + ticks) \<and>
        (\<forall>q. q \<noteq> p \<longrightarrow> (\<exists>v. tcb s' q = (tcb s q)\<lparr>priority := v\<rparr>)))"

definition mutex_unlock_post :: "task_ptr \<Rightarrow> u32 \<Rightarrow> kernel \<Rightarrow> bool \<Rightarrow> kernel \<Rightarrow> bool" where
  "mutex_unlock_post p a s r s' \<longleftrightarrow>
     (if mutex_owner a s \<noteq> Some p then \<not> r \<and> s' = s
      else r \<and> (\<forall>b. b \<noteq> a \<longrightarrow> objects s' b = objects s b) \<and>
        (if mutex_waiters a s = {} then mutex_owner a s' = None \<and> tcb s' = tcb s
         else \<exists>w \<in> mutex_waiters a s. (\<forall>q \<in> mutex_waiters a s. prio s q \<le> prio s w) \<and>
           mutex_owner a s' = Some w \<and> mutex_waiters a s' = mutex_waiters a s - {w} \<and>
           task_state (tcb s' w) = STATE_READY \<and> fr_mutex_lock_resume a w s' \<and>
           (\<forall>q. q \<noteq> w \<longrightarrow> (\<exists>v. tcb s' q = (tcb s q)\<lparr>priority := v\<rparr>))))"

lemma waiting_with_prio [simp]: "waiting r a (with_prio s f) q = waiting r a s q"
  by (simp add: waiting_def)

lemma inherit_chain_with_prio:
  obtains f where "fr_mutex_inherit_priority_chain_locked p d s = with_prio s f"
  unfolding fr_mutex_inherit_priority_chain_locked_def using inherit_loop_with_prio by blast

lemma recompute_chain_with_prio:
  obtains f where "fr_mutex_recompute_priority_chain_locked p s = with_prio s f"
  unfolding fr_mutex_recompute_priority_chain_locked_def using recompute_loop_with_prio by blast

lemma waiter_is_not_caller:
  assumes "caller p s" and "waiting r a s q"
  shows "q \<noteq> p"
  using caller_facts(11) [OF assms(1)] assms(2) by (auto simp: waiting_def)

lemma lock_post:
  assumes "caller p s" and "objects s a = Mutex m" and "a \<noteq> 0"
  shows "\<exists>r s'. fr_mutex_lock a ticks s = Ret r s' \<and> kernel_ok s' \<and> mutex_lock_post p a ticks s r s'"
proof (cases "fr_wait_timeout_start ticks s")
  case None
  then show ?thesis
    using assms caller_facts(1,3) [OF assms(1)]
    by (auto simp: fr_mutex_lock_def mutex_context_allowed_eq mutex_lock_post_def
        fr_wait_timeout_start_def not_less Let_def split: if_splits)
next
  case (Some to)
  note cf = caller_facts [OF assms(1)]
  have legal: "\<not> (ticks > FR_WAIT_MAX_FINITE_TICKS \<and> ticks \<noteq> FR_WAIT_FOREVER)"
    using Some by (auto simp: fr_wait_timeout_start_def not_less split: if_splits)
  have own: "mutex_owner a s = mx_owner m" "mutex_magic_ok a s" and reg: "set_option (mx_owner m) \<subseteq> registered s"
    using base_okD(4) [OF cf(2), of a] assms(2) by (simp_all add: mutex_magic_ok_def mutex_owner_def)
  have eq: "fr_mutex_lock a ticks s = fr_mutex_lock_section a to s"
    using Some assms(3) cf(3) by (simp add: fr_mutex_lock_def mutex_context_allowed_eq)
  note closed = lock_section_closed [OF assms(1,2) start_remaining [OF Some]]
  show ?thesis
  proof (cases "mx_owner m")
    case None
    have nw: "\<not> waiting WAIT_MUTEX a s q" for q
      using waiting_mutex [OF cf(2) _ assms(2)] None by auto
    have "kernel_ok (set_object a (Mutex (m\<lparr>mx_owner := Some p\<rparr>)) s)"
      using cf(8) by (intro kernel_ok_mutex_owner [OF cf(1) assms(2) nw]) simp
    then show ?thesis
      using eq closed legal own None by (simp add: mutex_lock_post_def) (simp add: mutex_owner_def)
  next
    case (Some z)
    show ?thesis
    proof (cases "z \<noteq> p \<and> ticks \<noteq> 0")
      case False
      then show ?thesis using eq closed legal own Some cf(1) by (auto simp: mutex_lock_post_def)
    next
      case True
      have args: "wait_args_ok WAIT_MUTEX a ticks"
        using start_remaining_args [OF \<open>fr_wait_timeout_start ticks s = Some to\<close>, of a WAIT_MUTEX] True assms(3)
        by simp
      let ?s' = "fr_mutex_inherit_priority_chain_locked (Some z) (prio s p) (suspended p WAIT_MUTEX a ticks s)"
      have ok: "kernel_ok ?s'"
        using True args own Some reg by (intro inherit_ok_mutex_wait [OF cf(2,12,7)]) simp_all
      obtain f where f: "?s' = with_prio (suspended p WAIT_MUTEX a ticks s) f"
        by (rule inherit_chain_with_prio)
      have "mutex_waiters a ?s' = insert p (mutex_waiters a s)"
        unfolding f using cf(8) by (auto simp: mutex_waiters_def waiting_def)
      then show ?thesis
        using eq closed legal own Some True args ok by (auto simp: f mutex_lock_post_def)
    qed
  qed
qed

lemma unlock_post:
  assumes "caller p s" and "objects s a = Mutex m" and "a \<noteq> 0"
  shows "\<exists>r s'. fr_mutex_unlock a s = Ret r s' \<and> kernel_ok s' \<and> mutex_unlock_post p a s r s'"
proof -
  note cf = caller_facts [OF assms(1)] and closed = unlock_closed [OF assms]
  have own: "mutex_owner a s = mx_owner m" using assms(2) by (simp add: mutex_owner_def)
  show ?thesis
  proof (cases "mx_owner m = Some p")
    case False
    then show ?thesis using closed own cf(1) by (auto simp: mutex_unlock_post_def)
  next
    case True
    show ?thesis
    proof (cases "fr_scheduler_select_waiter_locked WAIT_MUTEX a s")
      case None
      then have nw: "\<not> waiting WAIT_MUTEX a s q" for q
        using select_waiter_None [OF assms(3), of WAIT_MUTEX s] by simp
      let ?s' = "set_object a (Mutex (m\<lparr>mx_owner := None\<rparr>)) s"
      have ok: "kernel_ok ?s'" by (intro kernel_ok_mutex_owner [OF cf(1) assms(2) nw]) simp
      have "fr_mutex_recompute_priority_chain_locked (Some p) ?s' = ?s'"
        unfolding fr_mutex_recompute_priority_chain_locked_def
        using kernel_okD(2) [OF ok] base_okD(6) [OF kernel_okD(1) [OF ok]] cf(8)
        by (intro recompute_loop_idle) (simp_all add: inherit_ok_def)
      then show ?thesis
        using closed own True None ok nw
        by (intro exI [of _ True] exI [of _ ?s'])
          (simp add: mutex_unlock_post_def mutex_waiters_def, simp add: mutex_owner_def)
    next
      case (Some w)
      note sel = select_waiter_Some [OF Some]
      have w: "w \<noteq> p" by (rule waiter_is_not_caller [OF assms(1) sel(1)])
      let ?t = "woken w RESULT_SIGNALED (set_object a (Mutex (m\<lparr>mx_owner := Some w\<rparr>)) s)"
      let ?u = "fr_mutex_recompute_priority_chain_locked (Some p) ?t"
      have ok: "kernel_ok (fr_scheduler_request_if_needed_locked ?u)"
        by (intro kernel_ok_request kernel_ok_mutex_transfer [OF cf(1) assms(2) True sel(1,2)])
      obtain f where f: "?u = with_prio ?t f" by (rule recompute_chain_with_prio)
      have wt: "waiting WAIT_MUTEX a (fr_scheduler_request_if_needed_locked ?u) q \<longleftrightarrow>
          waiting WAIT_MUTEX a s q \<and> q \<noteq> w" for q
        unfolding f by (auto simp: waiting_def)
      have post: "mutex_unlock_post p a s True (fr_scheduler_request_if_needed_locked ?u)"
        unfolding mutex_unlock_post_def mutex_waiters_def wt
        using own True sel(1,2) w cf(5) priority_self
        by (auto simp: f mutex_owner_def fr_mutex_lock_resume_def intro!: bexI [of _ w])
      show ?thesis using closed own True Some ok post by auto
    qed
  qed
qed


section \<open>The services\<close>

lemma mutex_init_ok:
  "kernel_ok s \<Longrightarrow> \<not> g_fr_scheduler_running s \<Longrightarrow> kernel_ok (snd (fr_mutex_init a s))"
  by (auto simp: fr_mutex_init_def intro!: object_init_ok)

text \<open>
  C6. Mutex lock and unlock. On an initialised mutex, lock takes a free mutex at once, fails on a
  mutex the caller already owns, with a zero timeout or with an illegal one, and otherwise leaves the
  caller waiting with the requested deadline; no other task changes except in its effective priority.
  Unlock fails, with no change, unless the caller is the owner; it frees the mutex when nobody waits
  and otherwise hands it directly to a waiter of the highest priority, which is made ready and whose
  lock call returns true. Both keep the kernel invariant and no assertion fails.
\<close>

theorem mutex_contract:
  assumes "caller p s" and "objects s a = Mutex m" and "a \<noteq> 0"
  shows "(\<exists>r s'. fr_mutex_lock a ticks s = Ret r s' \<and> kernel_ok s' \<and> mutex_lock_post p a ticks s r s') \<and>
         (\<exists>r s'. fr_mutex_unlock a s = Ret r s' \<and> kernel_ok s' \<and> mutex_unlock_post p a s r s')"
  using lock_post [OF assms] unlock_post [OF assms] by blast

definition mutex_of :: "task_ptr \<Rightarrow> kobj" where
  "mutex_of z = Mutex \<lparr>mx_magic = FR_MUTEX_MAGIC, mx_owner = Some z\<rparr>"

lemma two_running_mutex: "z \<in> {Pool 0, Pool 1} \<Longrightarrow> caller (Pool 0) (set_object a (mutex_of z) two_running)"
  by (rule two_running_object) (auto simp: mutex_of_def)

theorem mutex_contract_witness:
  "\<exists>s'. fr_mutex_lock 0x20003000 FR_WAIT_FOREVER (set_object 0x20003000 (mutex_of (Pool 1)) two_running) =
     Ret Suspended s' \<and> mutex_waiters 0x20003000 s' = {Pool 0} \<and>
     fr_mutex_unlock 0x20003000 (set_object 0x20003000 (mutex_of (Pool 1)) two_running) =
     Ret False (set_object 0x20003000 (mutex_of (Pool 1)) two_running)"
proof -
  let ?s = "set_object 0x20003000 (mutex_of (Pool 1)) two_running"
  have c: "caller (Pool 0) ?s" by (rule two_running_mutex) simp
  have k: "objects ?s 0x20003000 = Mutex \<lparr>mx_magic = FR_MUTEX_MAGIC, mx_owner = Some (Pool 1)\<rparr>"
    by (simp add: mutex_of_def)
  then have o: "mutex_owner 0x20003000 ?s = Some (Pool 1)" by (simp add: mutex_owner_def)
  have w: "mutex_waiters 0x20003000 ?s = {}" by (simp add: mutex_waiters_def two_running_unblocked)
  from mutex_contract [OF c k, of FR_WAIT_FOREVER] o w show ?thesis
    by (auto simp: mutex_lock_post_def mutex_unlock_post_def)
qed

text \<open>
  C17. Priority inheritance. Whatever a task does with a mutex, afterwards the effective priority of
  every registered task is the maximum of its base priority and the effective priorities of the tasks
  waiting for a mutex it owns, along chains of any length and also when tasks are deadlocked in a
  cycle; so a task that blocks lends its priority to every task up the chain.
\<close>

theorem priority_inheritance:
  assumes "caller p s" and "objects s a = Mutex m" and "a \<noteq> 0"
    and "fr_mutex_lock a ticks s = Ret r s' \<or> fr_mutex_unlock a s = Ret b s'"
  shows "(\<forall>x \<in> registered s'. prio s' x =
            Max (insert (base_priority (tcb s' x)) (prio s' ` {w. waits_for s' w x}))) \<and>
         (\<forall>w z. (waits_for s')\<^sup>+\<^sup>+ w z \<longrightarrow> prio s' w \<le> prio s' z)"
proof -
  have ok: "kernel_ok s'"
    using assms(4) lock_post [OF assms(1-3), of ticks] unlock_post [OF assms(1-3)] by auto
  have inv: "prio s' x = Max (insert (base_priority (tcb s' x)) (prio s' ` {w. waits_for s' w x}))"
    if "x \<in> registered s'" for x
    using kernel_okD(2) [OF ok] that by (simp add: inherit_ok_def inherit_inv_def compute_eq)
  have own: "z \<in> registered s'" if "waits_for s' w z" for w z
    using that base_okD(6) [OF kernel_okD(1) [OF ok]]
    by (auto simp: mutex_waits_ok_def waits_for_def)
  have step: "prio s' w \<le> prio s' z" if "waits_for s' w z" for w z
    using inv [OF own [OF that]] that by (auto intro!: Max_ge)
  have "prio s' w \<le> prio s' z" if "(waits_for s')\<^sup>+\<^sup>+ w z" for w z
    using that by (induction rule: tranclp_induct) (auto intro: step order_trans)
  then show ?thesis using inv by blast
qed

theorem priority_inheritance_witness:
  "\<exists>s'. fr_mutex_lock 0x20003000 FR_WAIT_FOREVER
     (set_object 0x20003000 (mutex_of (Pool 1)) two_running) = Ret Suspended s' \<and>
     (\<forall>w z. (waits_for s')\<^sup>+\<^sup>+ w z \<longrightarrow> prio s' w \<le> prio s' z)"
proof -
  let ?s = "set_object 0x20003000 (mutex_of (Pool 1)) two_running"
  have c: "caller (Pool 0) ?s" by (rule two_running_mutex) simp
  have k: "objects ?s 0x20003000 = Mutex \<lparr>mx_magic = FR_MUTEX_MAGIC, mx_owner = Some (Pool 1)\<rparr>"
    by (simp add: mutex_of_def)
  then have o: "mutex_owner 0x20003000 ?s = Some (Pool 1)" by (simp add: mutex_owner_def)
  obtain s' where s': "fr_mutex_lock 0x20003000 FR_WAIT_FOREVER ?s = Ret Suspended s'"
    using lock_post [OF c k, of FR_WAIT_FOREVER] o by (auto simp: mutex_lock_post_def)
  then show ?thesis using priority_inheritance [OF c k, of FR_WAIT_FOREVER Suspended s'] by auto
qed

end
