(* ===== verification/Queue_Service.thy ===== *)
theory Queue_Service
  imports Critical_Sections
begin

text \<open>
  Message queues (\<open>kernel/queue.c\<close>): fixed-size items copied byte by byte into a ring in the
  caller's storage, with blocking send and receive. A wake-up reserves nothing: a signalled task runs
  its loop body again under the deadline computed at the start of the call. The loop is therefore a
  first iteration (\<open>fr_queue_send_wait\<close>) and a continuation (\<open>fr_queue_send_resume\<close>) that runs each time
  the task is scheduled again.

  The abstract view is the list of queued items, each a list of bytes; send appends, receive takes
  the head. The ring arithmetic comes from the locale \<open>ring_index\<close>.
\<close>


section \<open>Operations\<close>

definition fr_queue_thread_context_allowed :: "kernel \<Rightarrow> bool" where
  "fr_queue_thread_context_allowed s =
     (cpu_ipsr (cpu s) = 0 \<and> cpu_primask (cpu s) AND 1 = 0 \<and> cpu_faultmask (cpu s) AND 1 = 0 \<and>
      cpu_basepri (cpu s) = 0)"

definition fr_queue_state_valid_locked :: "fr_queue \<Rightarrow> bool" where
  "fr_queue_state_valid_locked q =
     (if q_magic q \<noteq> FR_QUEUE_MAGIC \<or> q_storage q = 0 \<or> q_capacity q = 0 \<or> q_item_size q = 0 then False
      else if q_capacity q > UINT32_MAX div q_item_size q then False
      else if q_head q \<ge> q_capacity q \<or> q_tail q \<ge> q_capacity q \<or> q_count q > q_capacity q then False
      else True)"

definition fr_queue_next_index :: "u32 \<Rightarrow> u32 \<Rightarrow> u32" where
  "fr_queue_next_index index capacity = (let index = index + 1 in if index = capacity then 0 else index)"

definition fr_queue_copy_bytes :: "u32 \<Rightarrow> u32 \<Rightarrow> u32 \<Rightarrow> (u32 \<Rightarrow> u8) \<Rightarrow> u32 \<Rightarrow> u8" where
  "fr_queue_copy_bytes destination source n m =
     fold (\<lambda>i m. m(destination + of_nat i := m (source + of_nat i))) [0..<unat n] m"

definition fr_queue_wake_waiter_locked :: "fr_wait_reason \<Rightarrow> u32 \<Rightarrow> kernel \<Rightarrow> unit outcome" where
  "fr_queue_wake_waiter_locked reason queue s =
     (case fr_scheduler_select_waiter_locked reason queue s of
        None \<Rightarrow> Ret () s
      | Some waiter \<Rightarrow>
          and_then (fr_scheduler_unblock_task_locked (Some waiter) RESULT_SIGNALED s)
            (\<lambda>ok s. Ret () (if ok then fr_scheduler_request_if_needed_locked s else s)))"

definition fr_queue_try_send_locked :: "u32 \<Rightarrow> fr_queue \<Rightarrow> u32 \<Rightarrow> kernel \<Rightarrow> bool outcome" where
  "fr_queue_try_send_locked queue q item s =
     (if q_count q = q_capacity q then Ret False s
      else let offset = q_tail q * q_item_size q;
               s = set_ram (fr_queue_copy_bytes (q_storage q + offset) item (q_item_size q) (ram s)) s;
               q = q\<lparr>q_tail := fr_queue_next_index (q_tail q) (q_capacity q)\<rparr>;
               q = q\<lparr>q_count := q_count q + 1\<rparr>;
               s = set_object queue (Queue q) s
           in and_then (fr_queue_wake_waiter_locked WAIT_QUEUE_RECEIVE queue s) (\<lambda>_ s. Ret True s))"

definition fr_queue_try_receive_locked :: "u32 \<Rightarrow> fr_queue \<Rightarrow> u32 \<Rightarrow> kernel \<Rightarrow> bool outcome" where
  "fr_queue_try_receive_locked queue q item s =
     (if q_count q = 0 then Ret False s
      else let offset = q_head q * q_item_size q;
               s = set_ram (fr_queue_copy_bytes item (q_storage q + offset) (q_item_size q) (ram s)) s;
               q = q\<lparr>q_head := fr_queue_next_index (q_head q) (q_capacity q)\<rparr>;
               q = q\<lparr>q_count := q_count q - 1\<rparr>;
               s = set_object queue (Queue q) s
           in and_then (fr_queue_wake_waiter_locked WAIT_QUEUE_SEND queue s) (\<lambda>_ s. Ret True s))"

definition fr_queue_init :: "u32 \<Rightarrow> u32 \<Rightarrow> u32 \<Rightarrow> u32 \<Rightarrow> kernel \<Rightarrow> bool \<times> kernel" where
  "fr_queue_init queue storage capacity item_size s =
     (if queue = 0 \<or> storage = 0 \<or> capacity = 0 \<or> item_size = 0 \<or>
         capacity > UINT32_MAX div item_size \<or> fr_scheduler_is_running s
      then (False, s)
      else (True, set_object queue (Queue \<lparr>q_magic = FR_QUEUE_MAGIC, q_storage = storage,
              q_capacity = capacity, q_item_size = item_size, q_head = 0, q_tail = 0, q_count = 0\<rparr>) s))"

text \<open>
  One pass through the loop body of \<open>fr_queue_send_wait\<close> and \<open>fr_queue_receive_wait\<close>, up to the end of
  its critical section.
\<close>

definition fr_queue_send_pass :: "u32 \<Rightarrow> u32 \<Rightarrow> fr_wait_timeout \<Rightarrow> kernel \<Rightarrow> bool call outcome" where
  "fr_queue_send_pass queue item timeout s =
     (let (critical_state, s) = fr_critical_enter s
      in case objects s queue of
           Queue q \<Rightarrow>
             if critical_state \<noteq> 0 \<or> \<not> fr_scheduler_is_running s \<or> fr_scheduler_current_task s = None \<or>
                \<not> fr_queue_state_valid_locked q
             then Ret (Returned False) (fr_critical_exit critical_state s)
             else and_then (fr_queue_try_send_locked queue q item s)
               (\<lambda>sent s.
                  if sent then Ret (Returned True) (fr_critical_exit critical_state s)
                  else let (more, wait_ticks) = fr_wait_timeout_remaining timeout s
                       in if \<not> more then Ret (Returned False) (fr_critical_exit critical_state s)
                          else and_then (fr_scheduler_block_current_locked WAIT_QUEUE_SEND queue wait_ticks s)
                            (\<lambda>blocked s. Ret (if blocked then Suspended else Returned False)
                               (fr_critical_exit critical_state s)))
         | _ \<Rightarrow> Ret (Returned False) (fr_critical_exit critical_state s))"

definition fr_queue_receive_pass :: "u32 \<Rightarrow> u32 \<Rightarrow> fr_wait_timeout \<Rightarrow> kernel \<Rightarrow> bool call outcome" where
  "fr_queue_receive_pass queue item timeout s =
     (let (critical_state, s) = fr_critical_enter s
      in case objects s queue of
           Queue q \<Rightarrow>
             if critical_state \<noteq> 0 \<or> \<not> fr_scheduler_is_running s \<or> fr_scheduler_current_task s = None \<or>
                \<not> fr_queue_state_valid_locked q
             then Ret (Returned False) (fr_critical_exit critical_state s)
             else and_then (fr_queue_try_receive_locked queue q item s)
               (\<lambda>received s.
                  if received then Ret (Returned True) (fr_critical_exit critical_state s)
                  else let (more, wait_ticks) = fr_wait_timeout_remaining timeout s
                       in if \<not> more then Ret (Returned False) (fr_critical_exit critical_state s)
                          else and_then (fr_scheduler_block_current_locked WAIT_QUEUE_RECEIVE queue wait_ticks s)
                            (\<lambda>blocked s. Ret (if blocked then Suspended else Returned False)
                               (fr_critical_exit critical_state s)))
         | _ \<Rightarrow> Ret (Returned False) (fr_critical_exit critical_state s))"

definition fr_queue_send_wait :: "u32 \<Rightarrow> u32 \<Rightarrow> u32 \<Rightarrow> kernel \<Rightarrow> bool call outcome" where
  "fr_queue_send_wait queue item timeout_ticks s =
     (if queue = 0 \<or> item = 0 \<or> \<not> fr_queue_thread_context_allowed s then Ret (Returned False) s
      else case fr_wait_timeout_start timeout_ticks s of
             None \<Rightarrow> Ret (Returned False) s
           | Some timeout \<Rightarrow> fr_queue_send_pass queue item timeout s)"

definition fr_queue_receive_wait :: "u32 \<Rightarrow> u32 \<Rightarrow> u32 \<Rightarrow> kernel \<Rightarrow> bool call outcome" where
  "fr_queue_receive_wait queue item timeout_ticks s =
     (if queue = 0 \<or> item = 0 \<or> \<not> fr_queue_thread_context_allowed s then Ret (Returned False) s
      else case fr_wait_timeout_start timeout_ticks s of
             None \<Rightarrow> Ret (Returned False) s
           | Some timeout \<Rightarrow> fr_queue_receive_pass queue item timeout s)"

text \<open>The rest of a pass that had blocked: give up, or go round the loop.\<close>

definition fr_queue_send_resume ::
    "u32 \<Rightarrow> u32 \<Rightarrow> fr_wait_timeout \<Rightarrow> task_ptr \<Rightarrow> kernel \<Rightarrow> bool call outcome" where
  "fr_queue_send_resume queue item timeout current_task s =
     (if wait_result (tcb s current_task) = RESULT_TIMEOUT then Ret (Returned False) s
      else if wait_result (tcb s current_task) \<noteq> RESULT_SIGNALED then Ret (Returned False) s
      else fr_queue_send_pass queue item timeout s)"

definition fr_queue_receive_resume ::
    "u32 \<Rightarrow> u32 \<Rightarrow> fr_wait_timeout \<Rightarrow> task_ptr \<Rightarrow> kernel \<Rightarrow> bool call outcome" where
  "fr_queue_receive_resume queue item timeout current_task s =
     (if wait_result (tcb s current_task) = RESULT_TIMEOUT then Ret (Returned False) s
      else if wait_result (tcb s current_task) \<noteq> RESULT_SIGNALED then Ret (Returned False) s
      else fr_queue_receive_pass queue item timeout s)"

definition fr_queue_send :: "u32 \<Rightarrow> u32 \<Rightarrow> kernel \<Rightarrow> bool call outcome" where
  "fr_queue_send queue item s = fr_queue_send_wait queue item 0 s"

definition fr_queue_receive :: "u32 \<Rightarrow> u32 \<Rightarrow> kernel \<Rightarrow> bool call outcome" where
  "fr_queue_receive queue item s = fr_queue_receive_wait queue item 0 s"


section \<open>Copying\<close>

definition buffer :: "(u32 \<Rightarrow> u8) \<Rightarrow> u32 \<Rightarrow> nat \<Rightarrow> u8 list" where
  "buffer m a n = map (\<lambda>i. m (a + of_nat i)) [0..<n]"

definition region :: "u32 \<Rightarrow> nat \<Rightarrow> u32 set" where
  "region a n = (\<lambda>i. a + of_nat i) ` {..<n}"

lemma of_nat_u32_inj:
  assumes "i < 2 ^ 32" and "j < 2 ^ 32"
  shows "(of_nat i :: u32) = of_nat j \<longleftrightarrow> i = j"
proof
  assume "(of_nat i :: u32) = of_nat j"
  then have "unat (of_nat i :: u32) = unat (of_nat j :: u32)" by simp
  with assms show "i = j" by (simp add: unat_of_nat take_bit_nat_eq_self)
qed simp

lemma copy_bytes:
  assumes "region dst (unat n) \<inter> region src (unat n) = {}"
  shows "fr_queue_copy_bytes dst src n m =
           (\<lambda>x. if x \<in> region dst (unat n) then m (src + (x - dst)) else m x)"
proof -
  have "fold (\<lambda>i m. m(dst + of_nat i := m (src + of_nat i))) [0..<k] m =
          (\<lambda>x. if x \<in> region dst k then m (src + (x - dst)) else m x)" if "k \<le> unat n" for k
    using that
  proof (induction k)
    case 0
    then show ?case by (simp add: region_def)
  next
    case (Suc k)
    have "src + of_nat k \<in> region src (unat n)" "region dst k \<subseteq> region dst (unat n)"
      using Suc.prems by (auto simp: region_def)
    then have "src + of_nat k \<notin> region dst k" using assms by blast
    moreover have "region dst (Suc k) = insert (dst + of_nat k) (region dst k)"
      by (simp add: region_def lessThan_Suc)
    ultimately show ?case using Suc by (simp add: fun_eq_iff)
  qed
  then show ?thesis by (simp add: fr_queue_copy_bytes_def)
qed

lemma buffer_cong: "(\<And>x. x \<in> region a n \<Longrightarrow> m' x = m x) \<Longrightarrow> buffer m' a n = buffer m a n"
  by (simp add: buffer_def region_def)

lemma buffer_copy:
  assumes "region dst (unat n) \<inter> region src (unat n) = {}"
  shows "buffer (fr_queue_copy_bytes dst src n m) dst (unat n) = buffer m src (unat n)"
  by (simp add: copy_bytes [OF assms] buffer_def region_def)


section \<open>The ring of items\<close>

interpretation queue_ring: ring_index unat unat "\<lambda>capacity index. fr_queue_next_index index capacity"
proof
  fix i c :: u32
  assume "unat i < unat c"
  then have "i < c" by (simp add: word_less_nat_alt)
  from word_inc_eq_zero_or [OF this] show "unat (fr_queue_next_index i c) = Suc (unat i) mod unat c"
    by (simp add: fr_queue_next_index_def Let_def)
qed

text \<open>Item \<open>k\<close> of the storage, the whole storage, and the queued items from the oldest on.\<close>

definition slot_addr :: "fr_queue \<Rightarrow> nat \<Rightarrow> u32" where
  "slot_addr q k = q_storage q + of_nat (k * unat (q_item_size q))"

definition slot_bytes :: "fr_queue \<Rightarrow> (u32 \<Rightarrow> u8) \<Rightarrow> nat \<Rightarrow> u8 list" where
  "slot_bytes q m k = buffer m (slot_addr q k) (unat (q_item_size q))"

definition storage_region :: "fr_queue \<Rightarrow> u32 set" where
  "storage_region q = region (q_storage q) (unat (q_capacity q) * unat (q_item_size q))"

definition queue_items :: "fr_queue \<Rightarrow> (u32 \<Rightarrow> u8) \<Rightarrow> u8 list list" where
  "queue_items q m =
     map (slot_bytes q m) (ring_slots (unat (q_capacity q)) (unat (q_head q)) (unat (q_count q)))"

lemma slot_bytes_updates [simp]:
  "slot_bytes (q\<lparr>q_tail := i\<rparr>) = slot_bytes q" "slot_bytes (q\<lparr>q_head := i\<rparr>) = slot_bytes q"
  "slot_bytes (q\<lparr>q_count := i\<rparr>) = slot_bytes q"
  by (simp_all add: slot_bytes_def slot_addr_def fun_eq_iff)

definition queue_ok :: "fr_queue \<Rightarrow> bool" where
  "queue_ok q \<longleftrightarrow> object_ok {} (Queue q)"

lemma queue_okD:
  assumes "queue_ok q"
  shows "q_magic q = FR_QUEUE_MAGIC" "q_storage q \<noteq> 0" "q_capacity q \<noteq> 0" "q_item_size q \<noteq> 0"
    "q_head q < q_capacity q" "q_count q \<le> q_capacity q" "q_tail q < q_capacity q"
    "unat (q_tail q) = (unat (q_head q) + unat (q_count q)) mod unat (q_capacity q)"
    "unat (q_capacity q) * unat (q_item_size q) < 2 ^ 32"
    "fr_queue_state_valid_locked q"
proof -
  show 1: "q_magic q = FR_QUEUE_MAGIC" "q_storage q \<noteq> 0" "q_capacity q \<noteq> 0" "q_item_size q \<noteq> 0"
    "q_head q < q_capacity q" "q_count q \<le> q_capacity q"
    "unat (q_tail q) = (unat (q_head q) + unat (q_count q)) mod unat (q_capacity q)"
    using assms by (simp_all add: queue_ok_def)
  have "0 < unat (q_capacity q)" using 1(3) by (simp add: unat_gt_0)
  then show 2: "q_tail q < q_capacity q" using 1(7) by (simp add: word_less_nat_alt)
  have le: "q_capacity q \<le> UINT32_MAX div q_item_size q" using assms by (simp add: queue_ok_def)
  then have "unat (q_capacity q) \<le> 4294967295 div unat (q_item_size q)"
    by (simp add: word_le_nat_alt unat_div)
  then have "unat (q_capacity q) * unat (q_item_size q) \<le> 4294967295 div unat (q_item_size q) * unat (q_item_size q)"
    by simp
  also have "\<dots> \<le> 4294967295" by simp
  finally show "unat (q_capacity q) * unat (q_item_size q) < 2 ^ 32" by simp
  show "fr_queue_state_valid_locked q"
    using 1 2 le by (simp add: fr_queue_state_valid_locked_def not_le not_less)
qed

lemma slot_end: "k < c \<Longrightarrow> i < n \<Longrightarrow> k * n + i < c * (n :: nat)"
proof -
  assume "k < c" and "i < n"
  then have "k * n + i < Suc k * n" by simp
  also have "\<dots> \<le> c * n" using \<open>k < c\<close> by (intro mult_right_mono) simp_all
  finally show ?thesis .
qed

lemma slot_region:
  assumes "k < unat (q_capacity q)"
  shows "region (slot_addr q k) (unat (q_item_size q)) \<subseteq> storage_region q"
proof
  fix x assume "x \<in> region (slot_addr q k) (unat (q_item_size q))"
  then obtain i where "i < unat (q_item_size q)" "x = q_storage q + of_nat (k * unat (q_item_size q) + i)"
    by (auto simp: region_def slot_addr_def algebra_simps)
  then show "x \<in> storage_region q"
    using slot_end [OF assms] unfolding storage_region_def region_def by (intro image_eqI) auto
qed

lemma slots_disjoint:
  assumes "queue_ok q" and "k < unat (q_capacity q)" and "l < unat (q_capacity q)" and "k \<noteq> l"
  shows "region (slot_addr q k) (unat (q_item_size q)) \<inter> region (slot_addr q l) (unat (q_item_size q)) = {}"
proof -
  let ?n = "unat (q_item_size q)"
  have False if i: "i < ?n" and j: "j < ?n" and e: "slot_addr q k + of_nat i = slot_addr q l + of_nat j" for i j
  proof -
    have "(of_nat (k * ?n + i) :: u32) = of_nat (l * ?n + j)"
      using e by (simp add: slot_addr_def algebra_simps)
    moreover have "k * ?n + i < 2 ^ 32" "l * ?n + j < 2 ^ 32"
      using slot_end [OF assms(2) i] slot_end [OF assms(3) j] queue_okD(9) [OF assms(1)] by linarith+
    ultimately have eq: "k * ?n + i = l * ?n + j" by (simp only: of_nat_u32_inj)
    have "(k * ?n + i) div ?n = k" "(l * ?n + j) div ?n = l" using i j by simp_all
    with eq assms(4) show False by metis
  qed
  then show ?thesis by (auto simp: region_def)
qed

lemma offset_addr:
  assumes "queue_ok q" and "k < q_capacity q"
  shows "q_storage q + k * q_item_size q = slot_addr q (unat k)"
  by (simp add: slot_addr_def)

text \<open>Copying an item into a free slot appends it; advancing the head removes the oldest item.\<close>

lemma send_items:
  assumes "queue_ok q" and "q_count q \<noteq> q_capacity q" and "region item (unat (q_item_size q)) \<inter> storage_region q = {}"
    and "m' = fr_queue_copy_bytes (q_storage q + q_tail q * q_item_size q) item (q_item_size q) m"
    and "q' = q\<lparr>q_tail := fr_queue_next_index (q_tail q) (q_capacity q), q_count := q_count q + 1\<rparr>"
  shows "queue_ok q'" "queue_items q' m' = queue_items q m @ [buffer m item (unat (q_item_size q))]"
    "\<And>x. x \<notin> storage_region q \<Longrightarrow> m' x = m x"
proof -
  note ok = queue_okD [OF assms(1)]
  let ?n = "unat (q_item_size q)" and ?c = "unat (q_capacity q)" and ?t = "unat (q_tail q)"
  have lt: "q_count q < q_capacity q" using ok(6) assms(2) by simp
  then have cnt: "unat (q_count q + 1) = Suc (unat (q_count q))" by (rule unat_Suc_word)
  have pos: "unat (q_head q) < ?c" "?t < ?c" "unat (q_count q) < ?c"
    using ok(5,7) lt by (simp_all add: word_less_nat_alt)
  have dst: "q_storage q + q_tail q * q_item_size q = slot_addr q ?t" by (simp add: slot_addr_def)
  have dis: "region (slot_addr q ?t) ?n \<inter> region item ?n = {}"
    using slot_region [OF pos(2)] assms(3) by blast
  note cp = assms(4) [unfolded dst]
  have same: "m' x = m x" if "x \<notin> region (slot_addr q ?t) ?n" for x
    using that by (simp add: cp copy_bytes [OF dis])
  show "\<And>x. x \<notin> storage_region q \<Longrightarrow> m' x = m x" using same slot_region [OF pos(2)] by blast
  have slots: "slot_bytes q m' k = ((slot_bytes q m)(?t := buffer m item ?n)) k" if "k < ?c" for k
  proof (cases "k = ?t")
    case True
    then show ?thesis by (simp add: slot_bytes_def cp buffer_copy [OF dis])
  next
    case False
    have "buffer m' (slot_addr q k) ?n = buffer m (slot_addr q k) ?n"
      using slots_disjoint [OF assms(1) that pos(2) False] by (intro buffer_cong same) blast
    then show ?thesis using False by (simp add: slot_bytes_def)
  qed
  note put = queue_ring.ring_put [OF pos(1,3) ok(8)]
  have "map (slot_bytes q m') (ring_slots ?c (unat (q_head q)) (Suc (unat (q_count q)))) =
        map ((slot_bytes q m)(?t := buffer m item ?n)) (ring_slots ?c (unat (q_head q)) (Suc (unat (q_count q))))"
    using slots ring_slots_less [OF pos(1)] by (intro map_cong refl) blast
  also have "\<dots> = map (slot_bytes q m) (ring_slots ?c (unat (q_head q)) (unat (q_count q))) @ [buffer m item ?n]"
    by (rule put(1))
  finally show "queue_items q' m' = queue_items q m @ [buffer m item ?n]"
    by (simp add: queue_items_def assms(5) cnt del: ring_slots.simps)
  show "queue_ok q'"
    using assms(1) put(2) cnt pos by (simp add: queue_ok_def assms(5) word_le_nat_alt)
qed

lemma receive_items:
  assumes "queue_ok q" and "q_count q \<noteq> 0" and "region item (unat (q_item_size q)) \<inter> storage_region q = {}"
    and "m' = fr_queue_copy_bytes item (q_storage q + q_head q * q_item_size q) (q_item_size q) m"
    and "q' = q\<lparr>q_head := fr_queue_next_index (q_head q) (q_capacity q), q_count := q_count q - 1\<rparr>"
  shows "queue_ok q'" "queue_items q m = buffer m' item (unat (q_item_size q)) # queue_items q' m'"
    "\<And>x. x \<notin> region item (unat (q_item_size q)) \<Longrightarrow> m' x = m x"
proof -
  note ok = queue_okD [OF assms(1)]
  let ?n = "unat (q_item_size q)" and ?c = "unat (q_capacity q)" and ?h = "unat (q_head q)"
  have cnt: "unat (q_count q - 1) = unat (q_count q) - 1" "unat (q_count q) \<noteq> 0"
    using assms(2) by (simp_all add: unat_minus_one unat_eq_0)
  have h: "?h < ?c" using ok(5) by (simp add: word_less_nat_alt)
  have src: "q_storage q + q_head q * q_item_size q = slot_addr q ?h" by (simp add: slot_addr_def)
  have dis: "region item ?n \<inter> region (slot_addr q ?h) ?n = {}"
    using slot_region [OF h] assms(3) by blast
  note cp = assms(4) [unfolded src]
  show same: "\<And>x. x \<notin> region item ?n \<Longrightarrow> m' x = m x" by (simp add: cp copy_bytes [OF dis])
  have slots: "slot_bytes q m' k = slot_bytes q m k" if "k < ?c" for k
    unfolding slot_bytes_def using slot_region [OF that] assms(3) by (intro buffer_cong same) blast
  note get = queue_ring.ring_get [OF h cnt(2)]
  have h': "unat (fr_queue_next_index (q_head q) (q_capacity q)) < ?c" by (rule queue_ring.advance_less [OF h])
  have "map (slot_bytes q m') (ring_slots ?c (unat (fr_queue_next_index (q_head q) (q_capacity q))) (unat (q_count q) - 1)) =
        map (slot_bytes q m) (ring_slots ?c (unat (fr_queue_next_index (q_head q) (q_capacity q))) (unat (q_count q) - 1))"
    using slots ring_slots_less [OF h'] by (intro map_cong refl) blast
  moreover have "buffer m' item ?n = slot_bytes q m ?h" by (simp add: slot_bytes_def cp buffer_copy [OF dis])
  ultimately show "queue_items q m = buffer m' item ?n # queue_items q' m'"
    by (simp add: queue_items_def assms(5) cnt(1) get(1))
  show "queue_ok q'"
    using assms(1) get(2) cnt h' by (auto simp: queue_ok_def assms(5) word_le_nat_alt word_less_nat_alt)
qed


section \<open>Closed forms\<close>

lemma queue_context_allowed_eq: "fr_queue_thread_context_allowed s = thread_context_allowed s"
  by (simp add: fr_queue_thread_context_allowed_def thread_context_allowed_def)

definition queue_wake :: "fr_wait_reason \<Rightarrow> u32 \<Rightarrow> kernel \<Rightarrow> kernel" where
  "queue_wake r a s = (case fr_scheduler_select_waiter_locked r a s of
     None \<Rightarrow> s | Some w \<Rightarrow> fr_scheduler_request_if_needed_locked (woken w RESULT_SIGNALED s))"

lemma wake_closed: "r \<noteq> WAIT_NONE \<Longrightarrow> fr_queue_wake_waiter_locked r a s = Ret () (queue_wake r a s)"
  using select_waiter_Some(1) [of r a s]
  by (auto simp: fr_queue_wake_waiter_locked_def queue_wake_def unblock_closed waiting_def split: option.splits)

lemma queue_wake_cpu [cpu_free]: "queue_wake r a (s\<lparr>cpu := c\<rparr>) = (queue_wake r a s)\<lparr>cpu := c\<rparr>"
  by (simp add: queue_wake_def cpu_free split: option.splits)

lemma queue_wake_frame [simp]:
  "objects (queue_wake r a s) = objects s" "ram (queue_wake r a s) = ram s" "cpu (queue_wake r a s) = cpu s"
  "registered (queue_wake r a s) = registered s"
  "g_fr_scheduler_current_task (queue_wake r a s) = g_fr_scheduler_current_task s"
  "g_fr_scheduler_running (queue_wake r a s) = g_fr_scheduler_running s"
  "g_fr_kernel_tick_count (queue_wake r a s) = g_fr_kernel_tick_count s"
  by (simp_all add: queue_wake_def split: option.splits)

definition sent :: "fr_queue \<Rightarrow> fr_queue" where
  "sent q = q\<lparr>q_tail := fr_queue_next_index (q_tail q) (q_capacity q), q_count := q_count q + 1\<rparr>"

definition received :: "fr_queue \<Rightarrow> fr_queue" where
  "received q = q\<lparr>q_head := fr_queue_next_index (q_head q) (q_capacity q), q_count := q_count q - 1\<rparr>"

definition send_ram :: "fr_queue \<Rightarrow> u32 \<Rightarrow> (u32 \<Rightarrow> u8) \<Rightarrow> u32 \<Rightarrow> u8" where
  "send_ram q item = fr_queue_copy_bytes (q_storage q + q_tail q * q_item_size q) item (q_item_size q)"

definition receive_ram :: "fr_queue \<Rightarrow> u32 \<Rightarrow> (u32 \<Rightarrow> u8) \<Rightarrow> u32 \<Rightarrow> u8" where
  "receive_ram q item = fr_queue_copy_bytes item (q_storage q + q_head q * q_item_size q) (q_item_size q)"

lemma sent_received_fields [simp]:
  "q_storage (sent q) = q_storage q" "q_capacity (sent q) = q_capacity q" "q_item_size (sent q) = q_item_size q"
  "q_storage (received q) = q_storage q" "q_capacity (received q) = q_capacity q"
  "q_item_size (received q) = q_item_size q"
  by (simp_all add: sent_def received_def)

lemma queue_object_ok: "base_ok s \<Longrightarrow> objects s a = Queue q \<Longrightarrow> queue_ok q"
  using base_okD(4) [of s a] by (simp add: queue_ok_def)

lemma send_pass_closed:
  assumes "caller p s" and "objects s a = Queue q" and "fr_wait_timeout_remaining to s = (mo, n)"
  shows "fr_queue_send_pass a item to s =
    (if q_count q \<noteq> q_capacity q
     then Ret (Returned True) (queue_wake WAIT_QUEUE_RECEIVE a
            (set_object a (Queue (sent q)) (set_ram (send_ram q item (ram s)) s)))
     else if mo \<and> wait_args_ok WAIT_QUEUE_SEND a n then Ret Suspended (suspended p WAIT_QUEUE_SEND a n s)
     else Ret (Returned False) s)"
proof -
  note cf = caller_facts [OF assms(1)]
  obtain c where c: "fr_critical_enter s = (cpu_basepri (cpu s), s\<lparr>cpu := c\<rparr>)"
    "\<And>t. cpu t = cpu s \<Longrightarrow> fr_critical_exit (cpu_basepri (cpu s)) (t\<lparr>cpu := c\<rparr>) = t"
    using critical_section [of s] by blast
  show ?thesis
    using cf(4,5,7,9,10) c(2) queue_okD(10) [OF queue_object_ok [OF cf(2) assms(2)]] assms(2)
    by (simp add: fr_queue_send_pass_def c(1) cpu_free block_closed fr_scheduler_is_running_def assms(3)
        fr_queue_try_send_locked_def wake_closed sent_def send_ram_def Let_def)
qed

lemma receive_pass_closed:
  assumes "caller p s" and "objects s a = Queue q" and "fr_wait_timeout_remaining to s = (mo, n)"
  shows "fr_queue_receive_pass a item to s =
    (if q_count q \<noteq> 0
     then Ret (Returned True) (queue_wake WAIT_QUEUE_SEND a
            (set_object a (Queue (received q)) (set_ram (receive_ram q item (ram s)) s)))
     else if mo \<and> wait_args_ok WAIT_QUEUE_RECEIVE a n then Ret Suspended (suspended p WAIT_QUEUE_RECEIVE a n s)
     else Ret (Returned False) s)"
proof -
  note cf = caller_facts [OF assms(1)]
  obtain c where c: "fr_critical_enter s = (cpu_basepri (cpu s), s\<lparr>cpu := c\<rparr>)"
    "\<And>t. cpu t = cpu s \<Longrightarrow> fr_critical_exit (cpu_basepri (cpu s)) (t\<lparr>cpu := c\<rparr>) = t"
    using critical_section [of s] by blast
  show ?thesis
    using cf(4,5,7,9,10) c(2) queue_okD(10) [OF queue_object_ok [OF cf(2) assms(2)]] assms(2)
    by (simp add: fr_queue_receive_pass_def c(1) cpu_free block_closed fr_scheduler_is_running_def assms(3)
        fr_queue_try_receive_locked_def wake_closed received_def receive_ram_def Let_def)
qed


section \<open>The contract\<close>

definition queue_waiters :: "fr_wait_reason \<Rightarrow> u32 \<Rightarrow> kernel \<Rightarrow> task_ptr set" where
  "queue_waiters r a s = {w. waiting r a s w}"

text \<open>One waiter of the highest priority is signalled, if there is one; no other task changes.\<close>

definition wake_post :: "fr_wait_reason \<Rightarrow> u32 \<Rightarrow> kernel \<Rightarrow> kernel \<Rightarrow> bool" where
  "wake_post r a s s' \<longleftrightarrow>
     (if queue_waiters r a s = {} then tcb s' = tcb s \<and> pendsv_pending s' = pendsv_pending s
      else \<exists>w \<in> queue_waiters r a s. (\<forall>x \<in> queue_waiters r a s. prio s x \<le> prio s w) \<and>
        queue_waiters r a s' = queue_waiters r a s - {w} \<and> task_state (tcb s' w) = STATE_READY \<and>
        wait_result (tcb s' w) = RESULT_SIGNALED \<and> (\<forall>x. x \<noteq> w \<longrightarrow> tcb s' x = tcb s x))"

definition suspend_post :: "task_ptr \<Rightarrow> fr_wait_reason \<Rightarrow> u32 \<Rightarrow> u32 \<Rightarrow> kernel \<Rightarrow> kernel \<Rightarrow> bool" where
  "suspend_post p r a ticks s s' \<longleftrightarrow>
     queue_waiters r a s' = insert p (queue_waiters r a s) \<and> objects s' = objects s \<and> ram s' = ram s \<and>
     pendsv_pending s' \<and> wait_has_deadline (tcb s' p) = (ticks \<noteq> FR_WAIT_FOREVER) \<and>
     (ticks \<noteq> FR_WAIT_FOREVER \<longrightarrow> wait_deadline (tcb s' p) = g_fr_kernel_tick_count s + ticks) \<and>
     (\<forall>x. x \<noteq> p \<longrightarrow> tcb s' x = tcb s x)"

definition queue_send_post ::
    "task_ptr \<Rightarrow> u32 \<Rightarrow> fr_queue \<Rightarrow> u32 \<Rightarrow> bool \<Rightarrow> u32 \<Rightarrow> kernel \<Rightarrow> bool call \<Rightarrow> kernel \<Rightarrow> bool" where
  "queue_send_post p a q item wait ticks s r s' \<longleftrightarrow>
     (if length (queue_items q (ram s)) < unat (q_capacity q)
      then r = Returned True \<and>
        (\<exists>q'. objects s' a = Queue q' \<and> q_storage q' = q_storage q \<and> q_capacity q' = q_capacity q \<and>
           q_item_size q' = q_item_size q \<and>
           queue_items q' (ram s') = queue_items q (ram s) @ [buffer (ram s) item (unat (q_item_size q))]) \<and>
        (\<forall>b. b \<noteq> a \<longrightarrow> objects s' b = objects s b) \<and>
        (\<forall>x. x \<notin> storage_region q \<longrightarrow> ram s' x = ram s x) \<and> wake_post WAIT_QUEUE_RECEIVE a s s'
      else if wait then r = Suspended \<and> suspend_post p WAIT_QUEUE_SEND a ticks s s'
      else r = Returned False \<and> s' = s)"

definition queue_receive_post ::
    "task_ptr \<Rightarrow> u32 \<Rightarrow> fr_queue \<Rightarrow> u32 \<Rightarrow> bool \<Rightarrow> u32 \<Rightarrow> kernel \<Rightarrow> bool call \<Rightarrow> kernel \<Rightarrow> bool" where
  "queue_receive_post p a q item wait ticks s r s' \<longleftrightarrow>
     (if queue_items q (ram s) \<noteq> []
      then r = Returned True \<and>
        (\<exists>q'. objects s' a = Queue q' \<and> q_storage q' = q_storage q \<and> q_capacity q' = q_capacity q \<and>
           q_item_size q' = q_item_size q \<and>
           queue_items q (ram s) = buffer (ram s') item (unat (q_item_size q)) # queue_items q' (ram s')) \<and>
        (\<forall>b. b \<noteq> a \<longrightarrow> objects s' b = objects s b) \<and>
        (\<forall>x. x \<notin> region item (unat (q_item_size q)) \<longrightarrow> ram s' x = ram s x) \<and> wake_post WAIT_QUEUE_SEND a s s'
      else if wait then r = Suspended \<and> suspend_post p WAIT_QUEUE_RECEIVE a ticks s s'
      else r = Returned False \<and> s' = s)"

lemma length_queue_items [simp]: "length (queue_items q m) = unat (q_count q)"
  by (simp add: queue_items_def)

lemma queue_items_Nil: "queue_items q m = [] \<longleftrightarrow> q_count q = 0"
  by (metis length_0_conv length_queue_items unat_eq_0)

lemma queue_wake_post:
  assumes "caller p s" and "tcb t = tcb s" and "g_fr_task_count t = g_fr_task_count s"
    and "g_fr_scheduler_current_task t = g_fr_scheduler_current_task s"
    and "pendsv_pending t = pendsv_pending s"
    and "a \<noteq> 0" and "r \<in> {WAIT_QUEUE_SEND, WAIT_QUEUE_RECEIVE}" and "kernel_ok t"
  shows "kernel_ok (queue_wake r a t)" "wake_post r a s (queue_wake r a t)"
proof -
  have wt: "waiting r a t w = waiting r a s w" for w using assms(2,3) by (simp add: waiting_def registered_def)
  have pr: "prio t = prio s" using assms(2) by (simp add: prio_def fun_eq_iff)
  have "kernel_ok (queue_wake r a t) \<and> wake_post r a s (queue_wake r a t)"
  proof (cases "fr_scheduler_select_waiter_locked r a t")
    case None
    then have "\<not> waiting r a t w" for w using select_waiter_None [OF assms(6), of r t] assms(7) by auto
    then show ?thesis using None assms by (simp add: queue_wake_def wake_post_def queue_waiters_def wt)
  next
    case (Some w)
    note sel = select_waiter_Some [OF Some]
    have w: "w \<in> registered t" "task_state (tcb t w) = STATE_BLOCKED" "wait_reason (tcb t w) \<noteq> WAIT_MUTEX"
      using sel(1) assms(7) by (auto simp: waiting_def)
    have wp: "w \<noteq> p" using w(2) caller_facts(11) [OF assms(1)] assms(2) by auto
    let ?t' = "fr_scheduler_request_if_needed_locked (woken w RESULT_SIGNALED t)"
    have k: "kernel_ok ?t'" by (intro kernel_ok_request kernel_ok_woken [OF assms(8)] w)
    have "waiting r a ?t' x \<longleftrightarrow> waiting r a t x \<and> x \<noteq> w" for x by (auto simp: waiting_def)
    then have "wake_post r a s ?t'"
      using sel wp assms(2,4) caller_facts(5) [OF assms(1)]
      by (auto simp: wake_post_def queue_waiters_def wt pr intro!: exI [of _ w])
    then show ?thesis using Some k by (simp add: queue_wake_def)
  qed
  then show "kernel_ok (queue_wake r a t)" "wake_post r a s (queue_wake r a t)" by auto
qed

lemma kernel_ok_queue_write:
  assumes "kernel_ok s" and "objects s a = Queue q" and "queue_ok q'"
  shows "kernel_ok (set_object a (Queue q') (set_ram m s))"
proof (rule kernel_ok_set_object)
  show "kernel_ok (set_ram m s)" by (rule kernel_ok_set_ram [OF assms(1)])
  show "object_ok (registered (set_ram m s)) (Queue q')" using assms(3) by (simp add: queue_ok_def)
  fix x assume x: "x \<in> registered (set_ram m s)" "task_state (tcb (set_ram m s) x) = STATE_BLOCKED"
  then have "wait_ok (objects s) (tcb s x)"
    using base_okD(5) [OF kernel_okD(1) [OF assms(1)]] by (simp add: waits_ok_def)
  then show "wait_ok ((objects (set_ram m s))(a := Queue q')) (tcb (set_ram m s) x)"
    using assms(2) by (auto simp: wait_ok_def sem_tokens_def split: fr_wait_reason.splits)
qed (use assms(2) in auto)

lemma suspended_post:
  assumes "caller p s" and "objects s a = Queue q" and "wait_args_ok r a n"
    and "r \<in> {WAIT_QUEUE_SEND, WAIT_QUEUE_RECEIVE}"
  shows "kernel_ok (suspended p r a n s)" "suspend_post p r a n s (suspended p r a n s)"
proof -
  note cf = caller_facts [OF assms(1)]
  show "kernel_ok (suspended p r a n s)"
    using assms(2-4) running_flag_fields [OF cf(2,7), of r]
    by (intro kernel_ok_suspended [OF cf(1,7)]) (auto simp: wait_ok_def)
  show "suspend_post p r a n s (suspended p r a n s)"
    using cf(8) by (auto simp: suspend_post_def queue_waiters_def waiting_def)
qed

lemma send_pass_post:
  assumes "caller p s" and "objects s a = Queue q" and "a \<noteq> 0"
    and "region item (unat (q_item_size q)) \<inter> storage_region q = {}"
    and "fr_wait_timeout_remaining to s = (mo, n)"
  shows "\<exists>r s'. fr_queue_send_pass a item to s = Ret r s' \<and> kernel_ok s' \<and>
           queue_send_post p a q item (mo \<and> wait_args_ok WAIT_QUEUE_SEND a n) n s r s'"
proof (cases "q_count q \<noteq> q_capacity q")
  case True
  note cf = caller_facts [OF assms(1)]
  have qok: "queue_ok q" by (rule queue_object_ok [OF cf(2) assms(2)])
  have lt: "unat (q_count q) < unat (q_capacity q)"
    using queue_okD(6) [OF qok] True by (simp add: word_le_nat_alt word_unat_eq_iff)
  let ?m = "send_ram q item (ram s)"
  note it = send_items [OF qok True assms(4) fun_cong [OF send_ram_def] sent_def]
  let ?t = "set_object a (Queue (sent q)) (set_ram ?m s)"
  have "kernel_ok ?t" by (rule kernel_ok_queue_write [OF cf(1) assms(2) it(1)])
  note wk = queue_wake_post [OF assms(1) _ _ _ _ assms(3), of ?t WAIT_QUEUE_RECEIVE, simplified, OF this]
  show ?thesis
    using send_pass_closed [OF assms(1,2,5), of item] True lt wk it(2,3)
    by (auto simp: queue_send_post_def)
next
  case False
  then show ?thesis
    using send_pass_closed [OF assms(1,2,5), of item] caller_facts(1) [OF assms(1)]
      suspended_post [OF assms(1,2), of WAIT_QUEUE_SEND n]
    by (auto simp: queue_send_post_def)
qed

lemma receive_pass_post:
  assumes "caller p s" and "objects s a = Queue q" and "a \<noteq> 0"
    and "region item (unat (q_item_size q)) \<inter> storage_region q = {}"
    and "fr_wait_timeout_remaining to s = (mo, n)"
  shows "\<exists>r s'. fr_queue_receive_pass a item to s = Ret r s' \<and> kernel_ok s' \<and>
           queue_receive_post p a q item (mo \<and> wait_args_ok WAIT_QUEUE_RECEIVE a n) n s r s'"
proof (cases "q_count q \<noteq> 0")
  case True
  note cf = caller_facts [OF assms(1)]
  have qok: "queue_ok q" by (rule queue_object_ok [OF cf(2) assms(2)])
  let ?m = "receive_ram q item (ram s)"
  note it = receive_items [OF qok True assms(4) fun_cong [OF receive_ram_def] received_def]
  let ?t = "set_object a (Queue (received q)) (set_ram ?m s)"
  have "kernel_ok ?t" by (rule kernel_ok_queue_write [OF cf(1) assms(2) it(1)])
  note wk = queue_wake_post [OF assms(1) _ _ _ _ assms(3), of ?t WAIT_QUEUE_SEND, simplified, OF this]
  show ?thesis
    using receive_pass_closed [OF assms(1,2,5), of item] True wk it(2,3)
    by (auto simp: queue_receive_post_def queue_items_Nil)
next
  case False
  then show ?thesis
    using receive_pass_closed [OF assms(1,2,5), of item] caller_facts(1) [OF assms(1)]
      suspended_post [OF assms(1,2), of WAIT_QUEUE_RECEIVE n]
    by (auto simp: queue_receive_post_def queue_items_Nil)
qed

lemma send_wait_post:
  assumes "caller p s" and "objects s a = Queue q" and "a \<noteq> 0" and "item \<noteq> 0"
    and "region item (unat (q_item_size q)) \<inter> storage_region q = {}"
    and "ticks \<le> FR_WAIT_MAX_FINITE_TICKS \<or> ticks = FR_WAIT_FOREVER"
  shows "\<exists>r s'. fr_queue_send_wait a item ticks s = Ret r s' \<and> kernel_ok s' \<and>
           queue_send_post p a q item (ticks \<noteq> 0) ticks s r s'"
proof -
  obtain to where to: "fr_wait_timeout_start ticks s = Some to"
    by (rule timeout_start_legal [OF assms(6)])
  have "ticks \<noteq> 0 \<and> wait_args_ok WAIT_QUEUE_SEND a ticks \<longleftrightarrow> ticks \<noteq> 0"
    using start_remaining_args [OF to _ assms(3), of WAIT_QUEUE_SEND] by auto
  then show ?thesis
    using send_pass_post [OF assms(1-3,5) start_remaining [OF to]] to assms(3,4) caller_facts(3) [OF assms(1)]
    by (simp add: fr_queue_send_wait_def queue_context_allowed_eq)
qed

lemma receive_wait_post:
  assumes "caller p s" and "objects s a = Queue q" and "a \<noteq> 0" and "item \<noteq> 0"
    and "region item (unat (q_item_size q)) \<inter> storage_region q = {}"
    and "ticks \<le> FR_WAIT_MAX_FINITE_TICKS \<or> ticks = FR_WAIT_FOREVER"
  shows "\<exists>r s'. fr_queue_receive_wait a item ticks s = Ret r s' \<and> kernel_ok s' \<and>
           queue_receive_post p a q item (ticks \<noteq> 0) ticks s r s'"
proof -
  obtain to where to: "fr_wait_timeout_start ticks s = Some to"
    by (rule timeout_start_legal [OF assms(6)])
  have "ticks \<noteq> 0 \<and> wait_args_ok WAIT_QUEUE_RECEIVE a ticks \<longleftrightarrow> ticks \<noteq> 0"
    using start_remaining_args [OF to _ assms(3), of WAIT_QUEUE_RECEIVE] by auto
  then show ?thesis
    using receive_pass_post [OF assms(1-3,5) start_remaining [OF to]] to assms(3,4) caller_facts(3) [OF assms(1)]
    by (simp add: fr_queue_receive_wait_def queue_context_allowed_eq)
qed


section \<open>Properties\<close>

lemma queue_init_ok:
  "kernel_ok s \<Longrightarrow> \<not> g_fr_scheduler_running s \<Longrightarrow>
   kernel_ok (snd (fr_queue_init a storage capacity item_size s))"
  by (auto simp: fr_queue_init_def not_less word_gt_0 intro!: object_init_ok)

text \<open>
  C7. The queue refines a bounded FIFO of byte strings. Called from a task with a legal timeout and an
  item buffer that does not overlap the storage: send appends exactly the bytes of the buffer when
  there is room, receive takes the oldest item into the buffer when there is one; otherwise the call
  fails at once for a zero timeout and leaves the caller waiting with its deadline for any other. A
  successful call signals one waiter of the opposite side, of the highest priority, and touches no
  memory outside the storage (send) or the buffer (receive). The invariant is kept.
\<close>

theorem queue_refines_fifo:
  assumes "caller p s" and "objects s a = Queue q" and "a \<noteq> 0" and "item \<noteq> 0"
    and "region item (unat (q_item_size q)) \<inter> storage_region q = {}"
    and "ticks \<le> FR_WAIT_MAX_FINITE_TICKS \<or> ticks = FR_WAIT_FOREVER"
  shows "(\<exists>r s'. fr_queue_send_wait a item ticks s = Ret r s' \<and> kernel_ok s' \<and>
            queue_send_post p a q item (ticks \<noteq> 0) ticks s r s') \<and>
         (\<exists>r s'. fr_queue_receive_wait a item ticks s = Ret r s' \<and> kernel_ok s' \<and>
            queue_receive_post p a q item (ticks \<noteq> 0) ticks s r s')"
  using send_wait_post [OF assms] receive_wait_post [OF assms] by blast

definition small_queue :: fr_queue where
  "small_queue = \<lparr>q_magic = FR_QUEUE_MAGIC, q_storage = 0x20004000, q_capacity = 2, q_item_size = 4,
     q_head = 0, q_tail = 0, q_count = 0\<rparr>"

lemma small_queue_facts:
  "queue_ok small_queue" "q_item_size small_queue = 4" "queue_items small_queue m = []"
  "q_capacity small_queue = 2"
  "storage_region small_queue = {0x20004000, 0x20004001, 0x20004002, 0x20004003, 0x20004004, 0x20004005, 0x20004006, 0x20004007}"
proof -
  show "queue_ok small_queue" by (simp add: queue_ok_def small_queue_def word_le_nat_alt unat_div)
  have "{..<8 :: nat} = {0, 1, 2, 3, 4, 5, 6, 7}" by auto
  then show "storage_region small_queue = {0x20004000, 0x20004001, 0x20004002, 0x20004003, 0x20004004, 0x20004005, 0x20004006, 0x20004007}"
    by (simp add: storage_region_def region_def small_queue_def)
qed (simp_all add: small_queue_def queue_items_def)

lemma region4: "region x 4 = {x, x + 1, x + 2, x + 3}"
proof -
  have "{..<4 :: nat} = {0, 1, 2, 3}" by auto
  then show ?thesis by (simp add: region_def)
qed

abbreviation queue_kernel :: kernel where
  "queue_kernel \<equiv> set_object 0x20003000 (Queue small_queue) two_running"

lemma queue_kernel_caller: "caller (Pool 0) queue_kernel"
  using small_queue_facts(1) by (intro two_running_object) (simp add: queue_ok_def)

theorem queue_refines_fifo_witness:
  "(\<exists>s' q'. fr_queue_send_wait 0x20003000 0x20005000 0 queue_kernel = Ret (Returned True) s' \<and>
      objects s' 0x20003000 = Queue q' \<and>
      queue_items q' (ram s') = [buffer (ram queue_kernel) 0x20005000 4]) \<and>
   (\<exists>s'. fr_queue_receive_wait 0x20003000 0x20005000 0 queue_kernel = Ret (Returned False) s')"
proof -
  have d: "region 0x20005000 (unat (q_item_size small_queue)) \<inter> storage_region small_queue = {}"
    by (simp add: small_queue_facts region4)
  from queue_refines_fifo [OF queue_kernel_caller _ _ _ d, of "0x20003000" 0] show ?thesis
    by (auto simp: queue_send_post_def queue_receive_post_def small_queue_facts)
qed

text \<open>
  C24. A retry keeps the original deadline. When a task that blocked in send or receive with a budget of
  \<open>d\<close> ticks is signalled, finds the queue full (empty) again and \<open>k\<close> ticks have passed, it waits again
  with the deadline of the first wait while \<open>k < d\<close> and returns false once \<open>d \<le> k\<close>; a task whose wait
  timed out returns false without looking at the queue.
\<close>

theorem queue_retry_keeps_deadline:
  assumes "caller p s" and "objects s a = Queue q" and "a \<noteq> 0"
    and "region item (unat (q_item_size q)) \<inter> storage_region q = {}"
    and "fr_wait_timeout_start (of_nat d) s0 = Some to" and "d < 2147483648"
    and "g_fr_kernel_tick_count s = g_fr_kernel_tick_count s0 + of_nat k" and "k < d + 2147483648"
  shows "(wait_result (tcb s p) = RESULT_TIMEOUT \<longrightarrow>
            fr_queue_send_resume a item to p s = Ret (Returned False) s \<and>
            fr_queue_receive_resume a item to p s = Ret (Returned False) s) \<and>
         (wait_result (tcb s p) = RESULT_SIGNALED \<longrightarrow>
            (q_count q = q_capacity q \<longrightarrow>
               (if k < d then \<exists>s'. fr_queue_send_resume a item to p s = Ret Suspended s' \<and>
                     wait_has_deadline (tcb s' p) \<and>
                     wait_deadline (tcb s' p) = g_fr_kernel_tick_count s0 + of_nat d
                else fr_queue_send_resume a item to p s = Ret (Returned False) s)) \<and>
            (q_count q = 0 \<longrightarrow>
               (if k < d then \<exists>s'. fr_queue_receive_resume a item to p s = Ret Suspended s' \<and>
                     wait_has_deadline (tcb s' p) \<and>
                     wait_deadline (tcb s' p) = g_fr_kernel_tick_count s0 + of_nat d
                else fr_queue_receive_resume a item to p s = Ret (Returned False) s)))"
proof -
  note rem = remaining_budget [OF assms(5,6) _ assms(8), of s, unfolded fr_tick_now_def, OF assms(7)]
  have le: "k < d \<Longrightarrow> (of_nat (d - k) :: u32) \<le> 2147483647 \<and> (of_nat (d - k) :: u32) \<noteq> 0"
    using assms(6) unat_of_nat32 [of "d - k"]
    by (auto simp: word_le_nat_alt word_unat_eq_iff simp del: of_nat_diff of_nat_diff_if)
  have dl: "k < d \<Longrightarrow> g_fr_kernel_tick_count s + of_nat (d - k) = g_fr_kernel_tick_count s0 + of_nat d"
    using assms(7) by (simp add: of_nat_diff)
  have args: "k < d \<Longrightarrow> r \<in> {WAIT_QUEUE_SEND, WAIT_QUEUE_RECEIVE} \<Longrightarrow> wait_args_ok r a (of_nat (d - k))" for r
    using le assms(3) by (auto simp: wait_args_ok_def)
  show ?thesis
  proof (cases "k < d")
    case True
    then show ?thesis
      using send_pass_closed [OF assms(1,2), of to True "of_nat (d - k)" item]
        receive_pass_closed [OF assms(1,2), of to True "of_nat (d - k)" item] rem args dl
        queue_okD(3) [OF queue_object_ok [OF caller_facts(2) [OF assms(1)] assms(2)]]
      by (auto simp: fr_queue_send_resume_def fr_queue_receive_resume_def)
  next
    case False
    then show ?thesis
      using send_pass_closed [OF assms(1,2), of to False 0 item]
        receive_pass_closed [OF assms(1,2), of to False 0 item] rem
      by (auto simp: fr_queue_send_resume_def fr_queue_receive_resume_def)
  qed
qed

text \<open>For the witness: a task that runs again after being signalled, on a full queue.\<close>

lemma stack_fields_wait_result [simp]:
  "fr_kernel_stack_geometry_valid (t\<lparr>wait_result := r\<rparr>) = fr_kernel_stack_geometry_valid t"
  "fr_kernel_saved_sp_valid (t\<lparr>wait_result := r\<rparr>) = fr_kernel_saved_sp_valid t"
  "task_state t \<noteq> STATE_BLOCKED \<Longrightarrow> fr_kernel_wait_state_valid (t\<lparr>wait_result := r\<rparr>) = fr_kernel_wait_state_valid t"
  by (simp_all add: fr_kernel_stack_geometry_valid_def fr_kernel_saved_sp_valid_def fr_kernel_wait_state_valid_def)

lemma kernel_ok_wait_result:
  assumes "kernel_ok s" and "p \<in> registered s" and "task_state (tcb s p) = STATE_RUNNING"
  shows "kernel_ok (upd_task p (\<lambda>t. t\<lparr>wait_result := r\<rparr>) s)"
proof (rule kernel_ok_new_tcb [OF assms(1,2)])
  show "task_ok i ((tcb s p)\<lparr>wait_result := r\<rparr>)" if "p = Pool i" for i
    using task_ok_registered [OF kernel_okD(1) [OF assms(1)] assms(2)] that assms(3) by (auto simp: task_ok_def)
qed (use assms(3) in \<open>simp_all add: upd_task_def waits_for_def\<close>)

definition retry_kernel :: kernel where
  "retry_kernel = (upd_task (Pool 0) (\<lambda>t. t\<lparr>wait_result := RESULT_SIGNALED\<rparr>)
     (set_object 0x20003000 (Queue (small_queue\<lparr>q_count := 2\<rparr>)) two_running))\<lparr>g_fr_kernel_tick_count := 3\<rparr>"

lemma retry_kernel_caller: "caller (Pool 0) retry_kernel"
proof -
  let ?s = "set_object 0x20003000 (Queue (small_queue\<lparr>q_count := 2\<rparr>)) two_running"
  have "object_ok {Pool 0, Pool 1} (Queue (small_queue\<lparr>q_count := 2\<rparr>))"
    by (simp add: small_queue_def word_le_nat_alt unat_div)
  from two_running_object [OF this] have c: "caller (Pool 0) ?s" by simp
  have "kernel_ok (upd_task (Pool 0) (\<lambda>t. t\<lparr>wait_result := RESULT_SIGNALED\<rparr>) ?s)"
    by (rule kernel_ok_wait_result [OF caller_facts(1,8,11) [OF c]])
  then have "kernel_ok retry_kernel"
    unfolding retry_kernel_def by (rule kernel_ok_same [rotated]) (simp add: same_kernel_def)
  then show ?thesis
    using c by (simp add: caller_def retry_kernel_def thread_context_allowed_def)
qed

theorem queue_retry_keeps_deadline_witness:
  "\<exists>to s'. fr_wait_timeout_start 10 two_running = Some to \<and>
     fr_queue_send_resume 0x20003000 0x20005000 to (Pool 0) retry_kernel = Ret Suspended s' \<and>
     wait_deadline (tcb s' (Pool 0)) = 10"
proof -
  obtain to where to: "fr_wait_timeout_start (of_nat 10) two_running = Some to"
    by (rule timeout_start_legal [of "of_nat 10" two_running]) simp_all
  let ?q = "small_queue\<lparr>q_count := 2\<rparr>"
  have o: "objects retry_kernel 0x20003000 = Queue ?q" by (simp add: retry_kernel_def)
  have d: "region 0x20005000 (unat (q_item_size ?q)) \<inter> storage_region ?q = {}"
    using small_queue_facts(2,5) by (simp add: region4 storage_region_def)
  have k: "g_fr_kernel_tick_count retry_kernel = g_fr_kernel_tick_count two_running + of_nat 3"
    by (simp add: retry_kernel_def two_running_facts(8))
  have w: "wait_result (tcb retry_kernel (Pool 0)) = RESULT_SIGNALED" "q_count ?q = q_capacity ?q"
    by (simp_all add: retry_kernel_def small_queue_def)
  from queue_retry_keeps_deadline [OF retry_kernel_caller o _ d to _ k] w
  obtain s' where "fr_queue_send_resume 0x20003000 0x20005000 to (Pool 0) retry_kernel = Ret Suspended s'"
    "wait_deadline (tcb s' (Pool 0)) = 10"
    by (auto simp: two_running_facts(8))
  with to show ?thesis by auto
qed

lemma copy_outside: "x \<notin> region dst (unat n) \<Longrightarrow> fr_queue_copy_bytes dst src n m x = m x"
proof -
  assume x: "x \<notin> region dst (unat n)"
  have "fold (\<lambda>i m. m(dst + of_nat i := m (src + of_nat i))) [0..<k] m x = m x" if "k \<le> unat n" for k
    using that x by (induction k) (auto simp: region_def)
  then show ?thesis by (simp add: fr_queue_copy_bytes_def)
qed

lemma next_index_less: "i < c \<Longrightarrow> fr_queue_next_index i c < c"
  using queue_ring.advance_less [of i c] by (simp add: word_less_nat_alt)

lemma valid_after:
  assumes "fr_queue_state_valid_locked q"
  shows "q_count q \<noteq> q_capacity q \<Longrightarrow> fr_queue_state_valid_locked (sent q)"
    "q_count q \<noteq> 0 \<Longrightarrow> fr_queue_state_valid_locked (received q)"
proof -
  have v: "q_head q < q_capacity q" "q_tail q < q_capacity q" "q_count q \<le> q_capacity q"
    using assms by (auto simp: fr_queue_state_valid_locked_def not_le not_less split: if_splits)
  have "q_count q + 1 \<le> q_capacity q" if "q_count q \<noteq> q_capacity q"
    using that v(3) unat_Suc_word [of "q_count q" "q_capacity q"]
    by (simp add: word_le_nat_alt word_less_nat_alt word_unat_eq_iff)
  then show "q_count q \<noteq> q_capacity q \<Longrightarrow> fr_queue_state_valid_locked (sent q)"
    using assms next_index_less [OF v(2)]
    by (auto simp: fr_queue_state_valid_locked_def sent_def not_le not_less split: if_splits)
  have "q_count q - 1 \<le> q_capacity q" if "q_count q \<noteq> 0"
    using that v(3) by (simp add: word_le_nat_alt unat_minus_one)
  then show "q_count q \<noteq> 0 \<Longrightarrow> fr_queue_state_valid_locked (received q)"
    using assms next_index_less [OF v(1)]
    by (auto simp: fr_queue_state_valid_locked_def received_def not_le not_less split: if_splits)
qed

lemma try_send_closed:
  "fr_queue_try_send_locked a q item s =
     (if q_count q = q_capacity q then Ret False s
      else Ret True (queue_wake WAIT_QUEUE_RECEIVE a (set_object a (Queue (sent q)) (set_ram (send_ram q item (ram s)) s))))"
  by (simp add: fr_queue_try_send_locked_def wake_closed sent_def send_ram_def Let_def)

lemma try_receive_closed:
  "fr_queue_try_receive_locked a q item s =
     (if q_count q = 0 then Ret False s
      else Ret True (queue_wake WAIT_QUEUE_SEND a (set_object a (Queue (received q)) (set_ram (receive_ram q item (ram s)) s))))"
  by (simp add: fr_queue_try_receive_locked_def wake_closed received_def receive_ram_def Let_def)

text \<open>
  C25. Queue operations stay in bounds. Whatever the queue's contents, once the validity check has
  passed, a send writes only bytes of the storage (capacity times item size, starting at the storage
  pointer) and a receive writes only the \<open>item_size\<close> bytes of the destination, and the queue passes the
  validity check again afterwards: the indices stay below the capacity and the count at most at it.
\<close>

theorem queue_copies_in_bounds:
  assumes "fr_queue_state_valid_locked q" and "objects s a = Queue q"
  shows "(\<exists>r s' q'. fr_queue_try_send_locked a q item s = Ret r s' \<and> objects s' a = Queue q' \<and>
            fr_queue_state_valid_locked q' \<and>
            {x. ram s' x \<noteq> ram s x} \<subseteq>
              (\<lambda>j. q_storage q + of_nat j) ` {..<unat (q_capacity q) * unat (q_item_size q)}) \<and>
         (\<exists>r s' q'. fr_queue_try_receive_locked a q item s = Ret r s' \<and> objects s' a = Queue q' \<and>
            fr_queue_state_valid_locked q' \<and>
            {x. ram s' x \<noteq> ram s x} \<subseteq> (\<lambda>j. item + of_nat j) ` {..<unat (q_item_size q)})"
proof -
  have t: "unat (q_tail q) < unat (q_capacity q)"
    using assms(1) by (auto simp: fr_queue_state_valid_locked_def not_le word_less_nat_alt split: if_splits)
  have "region (q_storage q + q_tail q * q_item_size q) (unat (q_item_size q)) \<subseteq> storage_region q"
    using slot_region [OF t] by (simp add: slot_addr_def)
  then have s: "{x. send_ram q item (ram s) x \<noteq> ram s x} \<subseteq> storage_region q"
    unfolding send_ram_def using copy_outside by blast
  have r: "{x. receive_ram q item (ram s) x \<noteq> ram s x} \<subseteq> region item (unat (q_item_size q))"
    unfolding receive_ram_def using copy_outside by blast
  show ?thesis
    using s r valid_after [OF assms(1)] assms
    by (auto simp: try_send_closed try_receive_closed storage_region_def [unfolded region_def] region_def)
qed

theorem queue_copies_in_bounds_witness:
  "\<exists>r s' q'. fr_queue_try_send_locked 0x20003000 small_queue 0x20005000 queue_kernel = Ret r s' \<and>
     objects s' 0x20003000 = Queue q' \<and> fr_queue_state_valid_locked q'"
  using queue_copies_in_bounds [OF queue_okD(10) [OF small_queue_facts(1)], of queue_kernel "0x20003000" "0x20005000"]
  by auto


section \<open>Sending and receiving many items\<close>

primrec send_all :: "u32 \<Rightarrow> u32 list \<Rightarrow> kernel \<Rightarrow> kernel option" where
  "send_all a [] s = Some s"
| "send_all a (x # xs) s = (case fr_queue_send a x s of Ret (Returned True) s' \<Rightarrow> send_all a xs s' | _ \<Rightarrow> None)"

primrec receive_all :: "u32 \<Rightarrow> u32 list \<Rightarrow> kernel \<Rightarrow> kernel option" where
  "receive_all a [] s = Some s"
| "receive_all a (y # ys) s = (case fr_queue_receive a y s of Ret (Returned True) s' \<Rightarrow> receive_all a ys s' | _ \<Rightarrow> None)"

text \<open>A queue that task \<open>p\<close> can use, with storage \<open>S\<close>, items of \<open>n\<close> bytes and nobody waiting.\<close>

definition quiet_queue :: "task_ptr \<Rightarrow> u32 \<Rightarrow> nat \<Rightarrow> nat \<Rightarrow> u32 set \<Rightarrow> u8 list list \<Rightarrow> kernel \<Rightarrow> bool" where
  "quiet_queue p a c n S items s \<longleftrightarrow> caller p s \<and> a \<noteq> 0 \<and>
     (\<exists>q. objects s a = Queue q \<and> unat (q_capacity q) = c \<and> unat (q_item_size q) = n \<and>
        storage_region q = S \<and> queue_items q (ram s) = items) \<and>
     queue_waiters WAIT_QUEUE_SEND a s = {} \<and> queue_waiters WAIT_QUEUE_RECEIVE a s = {}"

lemma wake_nobody:
  assumes "queue_waiters r a s = {}" and "tcb t = tcb s" and "g_fr_task_count t = g_fr_task_count s"
    and "r \<in> {WAIT_QUEUE_SEND, WAIT_QUEUE_RECEIVE}" and "a \<noteq> 0"
  shows "queue_wake r a t = t"
proof -
  have "\<not> waiting r a t w" for w using assms(1-3) by (auto simp: queue_waiters_def waiting_def registered_def)
  then have "fr_scheduler_select_waiter_locked r a t = None" using select_waiter_None [OF assms(5), of r t] assms(4) by auto
  then show ?thesis by (simp add: queue_wake_def)
qed

lemma caller_queue_write:
  "caller p s \<Longrightarrow> kernel_ok (set_object a ob (set_ram m s)) \<Longrightarrow> caller p (set_object a ob (set_ram m s))"
  by (simp add: caller_def thread_context_allowed_def)

lemma quiet_send:
  assumes "quiet_queue p a c n S items s" and "length items < c" and "x \<noteq> 0" and "region x n \<inter> S = {}"
  obtains s' where "fr_queue_send a x s = Ret (Returned True) s'"
    "quiet_queue p a c n S (items @ [buffer (ram s) x n]) s'" "\<And>b. b \<notin> S \<Longrightarrow> ram s' b = ram s b"
proof -
  from assms(1) obtain q where c: "caller p s" "a \<noteq> 0" "objects s a = Queue q" "unat (q_capacity q) = c"
    "unat (q_item_size q) = n" "storage_region q = S" "queue_items q (ram s) = items"
    and nw: "queue_waiters WAIT_QUEUE_SEND a s = {}" "queue_waiters WAIT_QUEUE_RECEIVE a s = {}"
    by (auto simp: quiet_queue_def)
  have qok: "queue_ok q" by (rule queue_object_ok [OF caller_facts(2) [OF c(1)] c(3)])
  have room: "q_count q \<noteq> q_capacity q" using assms(2) c(4,7) by (metis length_queue_items less_irrefl)
  have dis: "region x (unat (q_item_size q)) \<inter> storage_region q = {}" using assms(4) c(5,6) by simp
  let ?s = "set_object a (Queue (sent q)) (set_ram (send_ram q x (ram s)) s)"
  note it = send_items [OF qok room dis fun_cong [OF send_ram_def] sent_def]
  have k: "caller p ?s" by (intro caller_queue_write c(1) kernel_ok_queue_write [OF _ c(3) it(1)] caller_facts(1) [OF c(1)])
  obtain to where to: "fr_wait_timeout_start 0 s = Some to" by (rule timeout_start_legal [of 0]) simp_all
  have "fr_queue_send a x s = Ret (Returned True) ?s"
    using send_pass_closed [OF c(1,3) start_remaining [OF to], of x] room to c(2) assms(3) caller_facts(3) [OF c(1)]
      wake_nobody [OF nw(2), of ?s] by (simp add: fr_queue_send_def fr_queue_send_wait_def queue_context_allowed_eq)
  moreover have "storage_region (sent q) = S" using c(6) by (simp add: storage_region_def)
  then have "quiet_queue p a c n S (items @ [buffer (ram s) x n]) ?s"
    using k c it(2) [of "ram s"] nw by (simp add: quiet_queue_def queue_waiters_def)
  ultimately show thesis using that [of ?s] it(3) c(6) by simp
qed

lemma quiet_receive:
  assumes "quiet_queue p a c n S (item # items) s" and "y \<noteq> 0" and "region y n \<inter> S = {}"
  obtains s' where "fr_queue_receive a y s = Ret (Returned True) s'"
    "quiet_queue p a c n S items s'" "buffer (ram s') y n = item" "\<And>b. b \<notin> region y n \<Longrightarrow> ram s' b = ram s b"
proof -
  from assms(1) obtain q where c: "caller p s" "a \<noteq> 0" "objects s a = Queue q" "unat (q_capacity q) = c"
    "unat (q_item_size q) = n" "storage_region q = S" "queue_items q (ram s) = item # items"
    and nw: "queue_waiters WAIT_QUEUE_SEND a s = {}" "queue_waiters WAIT_QUEUE_RECEIVE a s = {}"
    by (auto simp: quiet_queue_def)
  have qok: "queue_ok q" by (rule queue_object_ok [OF caller_facts(2) [OF c(1)] c(3)])
  have some: "q_count q \<noteq> 0" using c(7) by (metis list.distinct(1) queue_items_Nil)
  have dis: "region y (unat (q_item_size q)) \<inter> storage_region q = {}" using assms(3) c(5,6) by simp
  let ?s = "set_object a (Queue (received q)) (set_ram (receive_ram q y (ram s)) s)"
  note it = receive_items [OF qok some dis fun_cong [OF receive_ram_def] received_def]
  have k: "caller p ?s" by (intro caller_queue_write c(1) kernel_ok_queue_write [OF _ c(3) it(1)] caller_facts(1) [OF c(1)])
  obtain to where to: "fr_wait_timeout_start 0 s = Some to" by (rule timeout_start_legal [of 0]) simp_all
  have "fr_queue_receive a y s = Ret (Returned True) ?s"
    using receive_pass_closed [OF c(1,3) start_remaining [OF to], of y] some to c(2) assms(2) caller_facts(3) [OF c(1)]
      wake_nobody [OF nw(1), of ?s] by (simp add: fr_queue_receive_def fr_queue_receive_wait_def queue_context_allowed_eq)
  moreover have "storage_region (received q) = S" using c(6) by (simp add: storage_region_def)
  then have "quiet_queue p a c n S items ?s" "buffer (ram ?s) y n = item"
    using k c it(2) [of "ram s"] nw by (simp_all add: quiet_queue_def queue_waiters_def)
  ultimately show thesis using that [of ?s] it(3) c(5) by simp
qed

lemma quiet_send_all:
  assumes "quiet_queue p a c n S items s" and "length items + length xs \<le> c"
    and "\<forall>x \<in> set xs. x \<noteq> 0 \<and> region x n \<inter> S = {}"
  shows "\<exists>s'. send_all a xs s = Some s' \<and> quiet_queue p a c n S (items @ map (\<lambda>x. buffer (ram s) x n) xs) s'"
  using assms
proof (induction xs arbitrary: items s)
  case Nil
  then show ?case by simp
next
  case (Cons x xs)
  obtain s' where s': "fr_queue_send a x s = Ret (Returned True) s'"
    "quiet_queue p a c n S (items @ [buffer (ram s) x n]) s'" "\<And>b. b \<notin> S \<Longrightarrow> ram s' b = ram s b"
    by (rule quiet_send [OF Cons.prems(1), of x]) (use Cons.prems in auto)
  have m: "map (\<lambda>x. buffer (ram s') x n) xs = map (\<lambda>x. buffer (ram s) x n) xs"
  proof (intro map_cong refl buffer_cong)
    show "ram s' b = ram s b" if "z \<in> set xs" "b \<in> region z n" for z b
      by (rule s'(3)) (use that Cons.prems(3) in auto)
  qed
  have "\<exists>t. send_all a xs s' = Some t \<and>
      quiet_queue p a c n S ((items @ [buffer (ram s) x n]) @ map (\<lambda>x. buffer (ram s') x n) xs) t"
    by (rule Cons.IH [OF s'(2)]) (use Cons.prems in auto)
  then show ?case unfolding m using s'(1) by simp
qed

lemma quiet_receive_all:
  assumes "quiet_queue p a c n S items s" and "length ys = length items"
    and "\<forall>y \<in> set ys. y \<noteq> 0 \<and> region y n \<inter> S = {}" and "sorted_wrt (\<lambda>y z. region y n \<inter> region z n = {}) ys"
  shows "\<exists>s'. receive_all a ys s = Some s' \<and> quiet_queue p a c n S [] s' \<and> map (\<lambda>y. buffer (ram s') y n) ys = items \<and>
           (\<forall>b. b \<notin> (\<Union>y \<in> set ys. region y n) \<longrightarrow> ram s' b = ram s b)"
  using assms
proof (induction ys arbitrary: items s)
  case Nil
  then show ?case by simp
next
  case (Cons y ys)
  then obtain item rest where it: "items = item # rest" by (cases items) auto
  obtain s1 where s1: "fr_queue_receive a y s = Ret (Returned True) s1" "quiet_queue p a c n S rest s1"
    "buffer (ram s1) y n = item" "\<And>b. b \<notin> region y n \<Longrightarrow> ram s1 b = ram s b"
    by (rule quiet_receive [OF Cons.prems(1) [unfolded it], of y]) (use Cons.prems in auto)
  obtain s' where s': "receive_all a ys s1 = Some s'" "quiet_queue p a c n S [] s'"
    "map (\<lambda>y. buffer (ram s') y n) ys = rest" "\<And>b. b \<notin> (\<Union>y \<in> set ys. region y n) \<Longrightarrow> ram s' b = ram s1 b"
    using Cons.IH [OF s1(2)] Cons.prems it by auto
  have "buffer (ram s') y n = buffer (ram s1) y n"
    by (intro buffer_cong s'(4)) (use Cons.prems(4) in auto)
  then show ?case using s1 s' it by simp
qed

text \<open>
  C23. Round trip. On a queue that nobody waits for, sending any list of items that fits and then
  receiving as many items as are queued, into pairwise disjoint buffers outside the storage, succeeds
  call by call and fills the buffers with what was queued before followed by the sent bytes, in order.
\<close>

theorem queue_roundtrip:
  assumes "quiet_queue p a c n S items s" and "length items + length xs \<le> c"
    and "length ys = length items + length xs"
    and "\<forall>z \<in> set (xs @ ys). z \<noteq> 0 \<and> region z n \<inter> S = {}"
    and "sorted_wrt (\<lambda>y z. region y n \<inter> region z n = {}) ys"
  shows "\<exists>s1 s2. send_all a xs s = Some s1 \<and> receive_all a ys s1 = Some s2 \<and>
           map (\<lambda>y. buffer (ram s2) y n) ys = items @ map (\<lambda>x. buffer (ram s) x n) xs"
proof -
  obtain s1 where s1: "send_all a xs s = Some s1"
    "quiet_queue p a c n S (items @ map (\<lambda>x. buffer (ram s) x n) xs) s1"
    using quiet_send_all [OF assms(1,2)] assms(4) by auto
  with quiet_receive_all [OF s1(2), of ys] assms(3-5) show ?thesis by auto
qed

theorem queue_roundtrip_witness:
  "\<exists>s1 s2. send_all 0x20003000 [0x20005000, 0x20005004] queue_kernel = Some s1 \<and>
     receive_all 0x20003000 [0x20006000, 0x20006004] s1 = Some s2 \<and>
     map (\<lambda>y. buffer (ram s2) y 4) [0x20006000, 0x20006004] =
       map (\<lambda>x. buffer (ram queue_kernel) x 4) [0x20005000, 0x20005004]"
proof -
  have q: "quiet_queue (Pool 0) 0x20003000 2 4 (storage_region small_queue) [] queue_kernel"
    by (simp add: quiet_queue_def queue_kernel_caller small_queue_facts queue_waiters_def two_running_unblocked)
  show ?thesis
    using queue_roundtrip [OF q, of "[0x20005000, 0x20005004]" "[0x20006000, 0x20006004]"]
    by (simp add: small_queue_facts region4)
qed

end
