(* ===== verification/Event_Service.thy ===== *)
theory Event_Service
  imports Critical_Sections
begin

text \<open>
  Event flags (\<open>kernel/event_flags.c\<close>): a word of bits that tasks set, clear, read and wait on. Set
  examines every waiting task against one snapshot of the bits taken before any clear-on-exit mask is
  applied, so the order of the tasks in the registry does not matter.
\<close>


section \<open>Operations\<close>

definition fr_event_flags_thread_context_allowed :: "kernel \<Rightarrow> bool" where
  "fr_event_flags_thread_context_allowed s =
     (cpu_ipsr (cpu s) = 0 \<and> cpu_primask (cpu s) AND 1 = 0 \<and> cpu_faultmask (cpu s) AND 1 = 0 \<and>
      cpu_basepri (cpu s) = 0)"

text \<open>The condition and, as second component, the value stored through \<open>matched_bits\<close>.\<close>

definition fr_event_flags_condition_met :: "u32 \<Rightarrow> u32 \<Rightarrow> bool \<Rightarrow> bool \<times> u32" where
  "fr_event_flags_condition_met current_bits flags_mask wait_all =
     (let matched = current_bits AND flags_mask
      in (if wait_all then matched = flags_mask else matched \<noteq> 0, matched))"

definition event_bits :: "u32 \<Rightarrow> kernel \<Rightarrow> u32" where
  "event_bits a s = (case objects s a of EventFlags f \<Rightarrow> ef_bits f | _ \<Rightarrow> 0)"

definition event_magic_ok :: "u32 \<Rightarrow> kernel \<Rightarrow> bool" where
  "event_magic_ok a s = (case objects s a of EventFlags f \<Rightarrow> ef_magic f = FR_EVENT_FLAGS_MAGIC | _ \<Rightarrow> False)"

definition set_event_bits :: "u32 \<Rightarrow> u32 \<Rightarrow> kernel \<Rightarrow> kernel" where
  "set_event_bits a v s =
     (case objects s a of EventFlags f \<Rightarrow> set_object a (EventFlags (f\<lparr>ef_bits := v\<rparr>)) s | _ \<Rightarrow> s)"

text \<open>A store through an optional \<open>uint32_t *\<close> result pointer.\<close>

definition write_result :: "u32 \<Rightarrow> u32 \<Rightarrow> kernel \<Rightarrow> kernel" where
  "write_result out v s = (if out = 0 then s else set_ram (store32 (ram s) out v) s)"

definition fr_event_flags_init :: "u32 \<Rightarrow> kernel \<Rightarrow> bool \<times> kernel" where
  "fr_event_flags_init flags s =
     (if flags = 0 \<or> fr_scheduler_is_running s then (False, s)
      else (True, set_object flags (EventFlags \<lparr>ef_magic = FR_EVENT_FLAGS_MAGIC, ef_bits = 0\<rparr>) s))"

text \<open>
  The loop of \<open>fr_event_flags_set\<close> over the task registry, with \<open>clear_mask\<close> and \<open>task_woken\<close> as
  accumulators.
\<close>

fun event_set_loop :: "u32 \<Rightarrow> u32 \<Rightarrow> nat list \<Rightarrow> u32 \<Rightarrow> bool \<Rightarrow> kernel \<Rightarrow> (u32 \<times> bool) outcome" where
  "event_set_loop flags current_bits [] clear_mask task_woken s = Ret (clear_mask, task_woken) s"
| "event_set_loop flags current_bits (i # is) clear_mask task_woken s =
     (case fr_task_internal_at i s of
        None \<Rightarrow> event_set_loop flags current_bits is clear_mask task_woken s
      | Some waiter \<Rightarrow>
          let w = tcb s waiter
          in if task_state w \<noteq> STATE_BLOCKED \<or> wait_reason w \<noteq> WAIT_EVENT_FLAGS \<or>
                wait_result w \<noteq> RESULT_PENDING \<or> wait_object w \<noteq> flags \<or> wait_flags_mask w = 0
             then event_set_loop flags current_bits is clear_mask task_woken s
             else let (met, matched) = fr_event_flags_condition_met current_bits (wait_flags_mask w) (wait_flags_all w)
                  in if \<not> met then event_set_loop flags current_bits is clear_mask task_woken s
                     else let waiter_mask = wait_flags_mask w;
                              clear_on_exit = wait_flags_clear_on_exit w;
                              s = upd_task waiter (\<lambda>t. t\<lparr>wait_flags_result := matched\<rparr>) s
                          in and_then (fr_scheduler_unblock_task_locked (Some waiter) RESULT_SIGNALED s)
                               (\<lambda>ok s.
                                  if ok
                                  then event_set_loop flags current_bits is
                                         (if clear_on_exit then clear_mask OR waiter_mask else clear_mask) True s
                                  else event_set_loop flags current_bits is clear_mask task_woken s))"

definition fr_event_flags_set :: "u32 \<Rightarrow> u32 \<Rightarrow> kernel \<Rightarrow> bool outcome" where
  "fr_event_flags_set flags bits s =
     (if flags = 0 \<or> bits = 0 \<or> \<not> fr_event_flags_thread_context_allowed s then Ret False s
      else let (critical_state, s) = fr_critical_enter s
           in if critical_state \<noteq> 0 \<or> \<not> event_magic_ok flags s \<or> \<not> fr_scheduler_is_running s \<or>
                 fr_scheduler_current_task s = None
              then Ret False (fr_critical_exit critical_state s)
              else let s = set_event_bits flags (event_bits flags s OR bits) s;
                       current_bits = event_bits flags s
                   in and_then (event_set_loop flags current_bits [0..<unat (fr_task_internal_count s)] 0 False s)
                        (\<lambda>(clear_mask, task_woken) s.
                           let s = set_event_bits flags (event_bits flags s AND NOT clear_mask) s;
                               s = (if task_woken then fr_scheduler_request_if_needed_locked s else s)
                           in Ret True (fr_critical_exit critical_state s)))"

definition fr_event_flags_clear :: "u32 \<Rightarrow> u32 \<Rightarrow> kernel \<Rightarrow> bool \<times> kernel" where
  "fr_event_flags_clear flags bits s =
     (if flags = 0 \<or> bits = 0 \<or> \<not> fr_event_flags_thread_context_allowed s then (False, s)
      else let (critical_state, s) = fr_critical_enter s
           in if critical_state \<noteq> 0 \<or> \<not> event_magic_ok flags s \<or> \<not> fr_scheduler_is_running s \<or>
                 fr_scheduler_current_task s = None
              then (False, fr_critical_exit critical_state s)
              else (True, fr_critical_exit critical_state
                            (set_event_bits flags (event_bits flags s AND NOT bits) s)))"

definition fr_event_flags_get :: "u32 \<Rightarrow> u32 \<Rightarrow> kernel \<Rightarrow> bool \<times> kernel" where
  "fr_event_flags_get flags bits s =
     (if flags = 0 \<or> bits = 0 \<or> \<not> fr_event_flags_thread_context_allowed s then (False, s)
      else let (critical_state, s) = fr_critical_enter s
           in if critical_state \<noteq> 0 \<or> \<not> event_magic_ok flags s \<or> \<not> fr_scheduler_is_running s \<or>
                 fr_scheduler_current_task s = None
              then (False, fr_critical_exit critical_state s)
              else (True, fr_critical_exit critical_state (write_result bits (event_bits flags s) s)))"

definition fr_event_flags_wait_section ::
    "u32 \<Rightarrow> u32 \<Rightarrow> bool \<Rightarrow> bool \<Rightarrow> fr_wait_timeout \<Rightarrow> u32 \<Rightarrow> kernel \<Rightarrow> bool call outcome" where
  "fr_event_flags_wait_section flags flags_mask wait_all clear_on_exit timeout matched_bits s =
     (let (critical_state, s) = fr_critical_enter s
      in case fr_scheduler_current_task s of
           None \<Rightarrow> Ret (Returned False) (fr_critical_exit critical_state s)
         | Some current_task \<Rightarrow>
             if critical_state \<noteq> 0 \<or> \<not> event_magic_ok flags s \<or> \<not> fr_scheduler_is_running s
             then Ret (Returned False) (fr_critical_exit critical_state s)
             else let (met, matched) = fr_event_flags_condition_met (event_bits flags s) flags_mask wait_all
                  in if met
                     then let s = (if clear_on_exit
                                   then set_event_bits flags (event_bits flags s AND NOT flags_mask) s else s)
                          in Ret (Returned True) (fr_critical_exit critical_state (write_result matched_bits matched s))
                     else let (more, wait_ticks) = fr_wait_timeout_remaining timeout s
                          in if \<not> more then Ret (Returned False) (fr_critical_exit critical_state s)
                             else let s = upd_task current_task
                                        (\<lambda>t. t\<lparr>wait_flags_mask := flags_mask, wait_flags_result := 0,
                                               wait_flags_all := wait_all,
                                               wait_flags_clear_on_exit := clear_on_exit\<rparr>) s
                                  in and_then (fr_scheduler_block_current_locked WAIT_EVENT_FLAGS flags wait_ticks s)
                                       (\<lambda>blocked s.
                                          if blocked then Ret Suspended (fr_critical_exit critical_state s)
                                          else Ret (Returned False) (fr_critical_exit critical_state
                                                 (upd_task current_task
                                                    (\<lambda>t. t\<lparr>wait_flags_mask := 0, wait_flags_all := False,
                                                           wait_flags_clear_on_exit := False\<rparr>) s))))"

definition fr_event_flags_wait ::
    "u32 \<Rightarrow> u32 \<Rightarrow> bool \<Rightarrow> bool \<Rightarrow> u32 \<Rightarrow> u32 \<Rightarrow> kernel \<Rightarrow> bool call outcome" where
  "fr_event_flags_wait flags flags_mask wait_all clear_on_exit timeout_ticks matched_bits s =
     (let s = write_result matched_bits 0 s
      in case fr_wait_timeout_start timeout_ticks s of
           None \<Rightarrow> Ret (Returned False) s
         | Some timeout \<Rightarrow>
             if flags = 0 \<or> flags_mask = 0 \<or> \<not> fr_event_flags_thread_context_allowed s
             then Ret (Returned False) s
             else fr_event_flags_wait_section flags flags_mask wait_all clear_on_exit timeout matched_bits s)"

text \<open>The end of a wait that had blocked, once its task runs again.\<close>

definition fr_event_flags_wait_resume :: "u32 \<Rightarrow> task_ptr \<Rightarrow> kernel \<Rightarrow> bool \<times> kernel" where
  "fr_event_flags_wait_resume matched_bits current_task s =
     (if wait_result (tcb s current_task) \<noteq> RESULT_SIGNALED then (False, s)
      else (True, write_result matched_bits (wait_flags_result (tcb s current_task)) s))"


section \<open>Closed forms\<close>

lemma event_context_allowed_eq: "fr_event_flags_thread_context_allowed s = thread_context_allowed s"
  by (simp add: fr_event_flags_thread_context_allowed_def thread_context_allowed_def)

lemma condition_met_eq:
  "fr_event_flags_condition_met b m al = (flags_met b m al, b AND m)"
  by (simp add: fr_event_flags_condition_met_def flags_met_def Let_def)

lemma event_cpu [cpu_free]:
  "event_bits a (s\<lparr>cpu := c\<rparr>) = event_bits a s"
  "event_magic_ok a (s\<lparr>cpu := c\<rparr>) = event_magic_ok a s"
  "set_event_bits a v (s\<lparr>cpu := c\<rparr>) = (set_event_bits a v s)\<lparr>cpu := c\<rparr>"
  "write_result out v (s\<lparr>cpu := c\<rparr>) = (write_result out v s)\<lparr>cpu := c\<rparr>"
  by (simp_all add: event_bits_def event_magic_ok_def set_event_bits_def write_result_def cpu_free split: kobj.splits)


section \<open>Signalling the waiters\<close>

text \<open>Task \<open>q\<close> waits for event flags \<open>a\<close> and the bits \<open>b\<close> satisfy it.\<close>

definition met :: "u32 \<Rightarrow> u32 \<Rightarrow> kernel \<Rightarrow> task_ptr \<Rightarrow> bool" where
  "met a b s q \<longleftrightarrow> waiting WAIT_EVENT_FLAGS a s q \<and> wait_flags_mask (tcb s q) \<noteq> 0 \<and>
     flags_met b (wait_flags_mask (tcb s q)) (wait_flags_all (tcb s q))"

definition flagged :: "task_ptr \<Rightarrow> u32 \<Rightarrow> kernel \<Rightarrow> kernel" where
  "flagged q v s = upd_task q (\<lambda>t. t\<lparr>wait_flags_result := v\<rparr>) s"

definition signalled :: "u32 \<Rightarrow> task_ptr \<Rightarrow> kernel \<Rightarrow> kernel" where
  "signalled b q s = woken q RESULT_SIGNALED (flagged q (b AND wait_flags_mask (tcb s q)) s)"

lemma flagged_frame [simp]:
  "tcb (flagged q v s) = (tcb s)(q := (tcb s q)\<lparr>wait_flags_result := v\<rparr>)"
  "registered (flagged q v s) = registered s" "objects (flagged q v s) = objects s"
  "g_fr_task_count (flagged q v s) = g_fr_task_count s" "cpu (flagged q v s) = cpu s" "ram (flagged q v s) = ram s"
  "g_fr_scheduler_current_task (flagged q v s) = g_fr_scheduler_current_task s"
  "g_fr_scheduler_running (flagged q v s) = g_fr_scheduler_running s"
  "g_fr_kernel_tick_count (flagged q v s) = g_fr_kernel_tick_count s"
  "pendsv_pending (flagged q v s) = pendsv_pending s"
  by (simp_all add: flagged_def) (simp add: upd_task_def)

lemma signalled_frame [simp]:
  "tcb (signalled b q s) = (tcb s)(q := wake_task RESULT_SIGNALED (g_fr_scheduler_current_task s = Some q)
     ((tcb s q)\<lparr>wait_flags_result := b AND wait_flags_mask (tcb s q)\<rparr>))"
  "registered (signalled b q s) = registered s" "objects (signalled b q s) = objects s"
  "g_fr_task_count (signalled b q s) = g_fr_task_count s" "cpu (signalled b q s) = cpu s" "ram (signalled b q s) = ram s"
  "g_fr_scheduler_current_task (signalled b q s) = g_fr_scheduler_current_task s"
  "g_fr_scheduler_running (signalled b q s) = g_fr_scheduler_running s"
  "g_fr_kernel_tick_count (signalled b q s) = g_fr_kernel_tick_count s"
  "pendsv_pending (signalled b q s) = pendsv_pending s"
  by (simp_all add: signalled_def)

lemma signalled_set_object: "signalled b q (set_object a ob s) = set_object a ob (signalled b q s)"
proof -
  have "flagged q v (set_object a ob s) = set_object a ob (flagged q v s)" for v
    by (simp add: flagged_def upd_task_def set_object_def)
  then show ?thesis by (simp add: signalled_def woken_set_object)
qed

lemma valid_flags_result [simp]:
  "fr_kernel_stack_geometry_valid (t\<lparr>wait_flags_result := v\<rparr>) = fr_kernel_stack_geometry_valid t"
  "fr_kernel_saved_sp_valid (t\<lparr>wait_flags_result := v\<rparr>) = fr_kernel_saved_sp_valid t"
  "fr_kernel_wait_state_valid (t\<lparr>wait_flags_result := v\<rparr>) = fr_kernel_wait_state_valid t"
  "wait_ok obs (t\<lparr>wait_flags_result := v\<rparr>) = wait_ok obs t"
  by (simp_all add: fr_kernel_stack_geometry_valid_def fr_kernel_saved_sp_valid_def
      fr_kernel_wait_state_valid_def wait_ok_def cong: fr_wait_reason.case_cong)

lemma kernel_ok_flagged:
  assumes "kernel_ok s" and "q \<in> registered s"
  shows "kernel_ok (flagged q v s)"
proof (rule kernel_ok_new_tcb [OF assms])
  show "task_ok i ((tcb s q)\<lparr>wait_flags_result := v\<rparr>)" if "q = Pool i" for i
    using task_ok_registered [OF kernel_okD(1) [OF assms(1)] assms(2)] that by (auto simp: task_ok_def)
  show "task_state ((tcb s q)\<lparr>wait_flags_result := v\<rparr>) = STATE_BLOCKED \<longrightarrow>
      wait_ok (objects s) ((tcb s q)\<lparr>wait_flags_result := v\<rparr>)"
    using base_okD(5) [OF kernel_okD(1) [OF assms(1)]] assms(2) by (simp add: waits_ok_def)
qed (simp_all add: waits_for_def mutex_magic_ok_def mutex_owner_def)

lemma kernel_ok_signalled:
  assumes "kernel_ok s" and "waiting WAIT_EVENT_FLAGS a s q"
  shows "kernel_ok (signalled b q s)"
  unfolding signalled_def
  using assms(2) by (intro kernel_ok_woken kernel_ok_flagged [OF assms(1)]) (simp_all add: waiting_def)

lemma met_signalled: "x \<noteq> q \<Longrightarrow> met a b (signalled c q s) x = met a b s x"
  by (simp add: met_def waiting_def)

definition loop_post :: "u32 \<Rightarrow> u32 \<Rightarrow> task_ptr set \<Rightarrow> u32 \<Rightarrow> bool \<Rightarrow> kernel \<Rightarrow> u32 \<Rightarrow> bool \<Rightarrow> kernel \<Rightarrow> bool" where
  "loop_post a b Q cm tw s cm' tw' s' \<longleftrightarrow>
     (\<forall>q. tcb s' q = (if q \<in> Q \<and> met a b s q then tcb (signalled b q s) q else tcb s q)) \<and>
     objects s' = objects s \<and> g_fr_task_count s' = g_fr_task_count s \<and> cpu s' = cpu s \<and> ram s' = ram s \<and>
     g_fr_scheduler_current_task s' = g_fr_scheduler_current_task s \<and>
     g_fr_scheduler_running s' = g_fr_scheduler_running s \<and>
     g_fr_kernel_tick_count s' = g_fr_kernel_tick_count s \<and> pendsv_pending s' = pendsv_pending s \<and>
     (\<forall>ob. kernel_ok (set_object a ob s) \<longrightarrow> kernel_ok (set_object a ob s')) \<and>
     (\<forall>n. bit cm' n \<longleftrightarrow> bit cm n \<or>
        (\<exists>q \<in> Q. met a b s q \<and> wait_flags_clear_on_exit (tcb s q) \<and> bit (wait_flags_mask (tcb s q)) n)) \<and>
     (tw' \<longleftrightarrow> tw \<or> (\<exists>q \<in> Q. met a b s q))"

lemma loop_step:
  assumes "i < unat (g_fr_task_count s)"
  shows "event_set_loop a b (i # is) cm tw s =
    (if met a b s (Pool i)
     then event_set_loop a b is (if wait_flags_clear_on_exit (tcb s (Pool i))
            then cm OR wait_flags_mask (tcb s (Pool i)) else cm) True (signalled b (Pool i) s)
     else event_set_loop a b is cm tw s)"
  using assms
  by (auto simp: met_def waiting_def condition_met_eq unblock_closed signalled_def flagged_def
      fr_task_internal_at_def Let_def word_less_nat_alt)

lemma set_loop:
  assumes "distinct is" and "\<forall>i \<in> set is. i < unat (g_fr_task_count s)"
  shows "\<exists>cm' tw' s'. event_set_loop a b is cm tw s = Ret (cm', tw') s' \<and>
           loop_post a b (Pool ` set is) cm tw s cm' tw' s'"
  using assms
proof (induction "is" arbitrary: cm tw s)
  case Nil
  then show ?case by (simp add: loop_post_def)
next
  case (Cons i "is")
  have i: "i < unat (g_fr_task_count s)" using Cons.prems by simp
  show ?case
  proof (cases "met a b s (Pool i)")
    case False
    with Cons.IH [of s cm tw] Cons.prems obtain cm' tw' s' where
      r: "event_set_loop a b is cm tw s = Ret (cm', tw') s'" "loop_post a b (Pool ` set is) cm tw s cm' tw' s'"
      by auto
    have "loop_post a b (Pool ` set (i # is)) cm tw s cm' tw' s'"
      using r(2) False unfolding loop_post_def by (auto; blast)
    then show ?thesis using r(1) False by (auto simp: loop_step [OF i] simp del: event_set_loop.simps)
  next
    case True
    let ?t = "signalled b (Pool i) s"
    let ?cm = "if wait_flags_clear_on_exit (tcb s (Pool i)) then cm OR wait_flags_mask (tcb s (Pool i)) else cm"
    from Cons.IH [of ?t ?cm True] Cons.prems obtain cm' tw' s' where
      r: "event_set_loop a b is ?cm True ?t = Ret (cm', tw') s'" "loop_post a b (Pool ` set is) ?cm True ?t cm' tw' s'"
      by auto
    have ni: "Pool i \<notin> Pool ` set is" using Cons.prems(1) by auto
    have m: "met a b ?t q = met a b s q" if "q \<in> Pool ` set is" for q
      using that ni by (intro met_signalled) auto
    have k: "kernel_ok (set_object a ob s) \<Longrightarrow> kernel_ok (set_object a ob ?t)" for ob
      using kernel_ok_signalled [of "set_object a ob s" a "Pool i" b] True
      by (simp add: signalled_set_object met_def)
    have tq: "tcb (signalled b q ?t) q = tcb (signalled b q s) q" "tcb ?t q = tcb s q" if "q \<noteq> Pool i" for q
      using that by simp_all
    have "loop_post a b (Pool ` set (i # is)) cm tw s cm' tw' s'"
      unfolding loop_post_def
    proof (intro conjI allI)
      fix q show "tcb s' q = (if q \<in> Pool ` set (i # is) \<and> met a b s q then tcb (signalled b q s) q else tcb s q)"
        using r(2) True m [of q] tq [of q] ni unfolding loop_post_def by (cases "q = Pool i") auto
    next
      fix n show "bit cm' n \<longleftrightarrow> bit cm n \<or> (\<exists>q \<in> Pool ` set (i # is). met a b s q \<and>
          wait_flags_clear_on_exit (tcb s q) \<and> bit (wait_flags_mask (tcb s q)) n)"
      proof -
        have "bit cm' n \<longleftrightarrow> bit ?cm n \<or> (\<exists>q \<in> Pool ` set is. met a b ?t q \<and>
            wait_flags_clear_on_exit (tcb ?t q) \<and> bit (wait_flags_mask (tcb ?t q)) n)"
          using r(2) by (simp add: loop_post_def)
        also have "(\<exists>q \<in> Pool ` set is. met a b ?t q \<and>
            wait_flags_clear_on_exit (tcb ?t q) \<and> bit (wait_flags_mask (tcb ?t q)) n) \<longleftrightarrow>
          (\<exists>q \<in> Pool ` set is. met a b s q \<and> wait_flags_clear_on_exit (tcb s q) \<and> bit (wait_flags_mask (tcb s q)) n)"
          using m tq(2) ni by (intro bex_cong refl) metis
        finally show ?thesis using True by (auto simp: bit_simps)
      qed
    qed (use r(2) k True in \<open>auto simp: loop_post_def\<close>)
    then show ?thesis using r(1) True by (auto simp: loop_step [OF i] simp del: event_set_loop.simps)
  qed
qed


section \<open>The contract\<close>

definition event_set_post :: "u32 \<Rightarrow> u32 \<Rightarrow> kernel \<Rightarrow> kernel \<Rightarrow> bool" where
  "event_set_post a bits s s' \<longleftrightarrow>
     (let b = event_bits a s OR bits
      in (\<forall>q. if met a b s q
              then task_state (tcb s' q) = STATE_READY \<and> wait_result (tcb s' q) = RESULT_SIGNALED \<and>
                   wait_flags_result (tcb s' q) = b AND wait_flags_mask (tcb s q)
              else tcb s' q = tcb s q) \<and>
         (\<forall>n. bit (event_bits a s') n \<longleftrightarrow> bit b n \<and>
            \<not> (\<exists>q. met a b s q \<and> wait_flags_clear_on_exit (tcb s q) \<and> bit (wait_flags_mask (tcb s q)) n)) \<and>
         (\<forall>c. c \<noteq> a \<longrightarrow> objects s' c = objects s c))"

lemma event_set_postD:
  assumes "event_set_post a bits s s'"
  shows "met a (event_bits a s OR bits) s q \<Longrightarrow> task_state (tcb s' q) = STATE_READY"
    "met a (event_bits a s OR bits) s q \<Longrightarrow> wait_result (tcb s' q) = RESULT_SIGNALED"
    "met a (event_bits a s OR bits) s q \<Longrightarrow>
       wait_flags_result (tcb s' q) = (event_bits a s OR bits) AND wait_flags_mask (tcb s q)"
    "\<not> met a (event_bits a s OR bits) s q \<Longrightarrow> tcb s' q = tcb s q"
    "c \<noteq> a \<Longrightarrow> objects s' c = objects s c"
  using assms unfolding event_set_post_def Let_def by metis+

lemma flags_met_mono:
  assumes "flags_met (b AND c) m al"
  shows "flags_met b m al"
proof -
  have "bit m n \<Longrightarrow> bit b n" if "(b AND c) AND m = m" for n
    using that by (metis bit_and_iff)
  then show ?thesis
    using assms by (auto simp: flags_met_def bit_eq_iff bit_simps split: if_splits)
qed

lemma event_object:
  assumes "base_ok s" and "objects s a = EventFlags f"
  shows "event_magic_ok a s" "event_bits a s = ef_bits f" "ef_magic f = FR_EVENT_FLAGS_MAGIC"
    "\<And>v. set_event_bits a v s = set_object a (EventFlags (f\<lparr>ef_bits := v\<rparr>)) s"
  using base_okD(4) [OF assms(1), of a] assms(2)
  by (simp_all add: event_magic_ok_def event_bits_def set_event_bits_def)

lemma unmet_waiter:
  assumes "base_ok s" and "waiting WAIT_EVENT_FLAGS a s q" and "objects s a = EventFlags f"
  shows "\<not> flags_met (ef_bits f) (wait_flags_mask (tcb s q)) (wait_flags_all (tcb s q))"
proof -
  have "wait_ok (objects s) (tcb s q)" using base_okD(5) [OF assms(1)] assms(2) by (simp add: waits_ok_def waiting_def)
  then show ?thesis using assms(2,3) by (auto simp: wait_ok_def waiting_def)
qed

text \<open>Event bits may change as long as no waiting task is satisfied by the new bits.\<close>

lemma kernel_ok_event_write:
  assumes "kernel_ok s" and "objects s a = EventFlags f"
    and "\<And>q. waiting WAIT_EVENT_FLAGS a s q \<Longrightarrow> \<not> flags_met v (wait_flags_mask (tcb s q)) (wait_flags_all (tcb s q))"
  shows "kernel_ok (set_object a (EventFlags (f\<lparr>ef_bits := v\<rparr>)) s)"
proof (rule kernel_ok_set_object [OF assms(1)])
  note base = kernel_okD(1) [OF assms(1)]
  show "object_ok (registered s) (EventFlags (f\<lparr>ef_bits := v\<rparr>))" using event_object(3) [OF base assms(2)] by simp
  fix q assume q: "q \<in> registered s" "task_state (tcb s q) = STATE_BLOCKED" "wait_object (tcb s q) = a"
  have w: "wait_ok (objects s) (tcb s q)" using base_okD(5) [OF base] q(1,2) by (simp add: waits_ok_def)
  have "waiting (wait_reason (tcb s q)) a s q" using blocked_task(3) [OF base q(1,2)] q(3) by simp
  then show "wait_ok ((objects s)(a := EventFlags (f\<lparr>ef_bits := v\<rparr>))) (tcb s q)"
    using w q(3) assms(2) assms(3) [of q]
    by (auto simp: wait_ok_def sem_tokens_def split: fr_wait_reason.splits)
qed (use assms(2) in auto)

text \<open>The loop, run on a state whose event bits have just been raised to \<open>b\<close>.\<close>

lemma raised_loop:
  assumes "kernel_ok s" and "objects s a = EventFlags f" and "t = set_object a (EventFlags (f\<lparr>ef_bits := b\<rparr>)) s"
  obtains cm tw t' where "event_set_loop a b [0..<unat (g_fr_task_count t)] 0 False t = Ret (cm, tw) t'"
    "\<And>q. tcb t' q = (if met a b s q then tcb (signalled b q s) q else tcb s q)"
    "objects t' = objects t" "cpu t' = cpu s" "g_fr_task_count t' = g_fr_task_count s"
    "kernel_ok (set_object a (EventFlags f) t')"
    "\<And>n. bit cm n \<longleftrightarrow> (\<exists>q. met a b s q \<and> wait_flags_clear_on_exit (tcb s q) \<and> bit (wait_flags_mask (tcb s q)) n)"
    "g_fr_scheduler_current_task t' = g_fr_scheduler_current_task s"
    "g_fr_scheduler_running t' = g_fr_scheduler_running s"
    "g_fr_kernel_tick_count t' = g_fr_kernel_tick_count s" "tw \<longleftrightarrow> (\<exists>q. met a b s q)"
proof -
  have m: "met a b t q = met a b s q" for q by (simp add: assms(3) met_def)
  have mr: "met a b s q \<Longrightarrow> q \<in> registered s" for q by (simp add: met_def waiting_def)
  obtain cm tw t' where l: "event_set_loop a b [0..<unat (g_fr_task_count t)] 0 False t = Ret (cm, tw) t'"
    "loop_post a b (registered t) 0 False t cm tw t'"
    using set_loop [of "[0..<unat (g_fr_task_count t)]" t a b 0 False] by (auto simp: registered_def atLeast0LessThan)
  have "set_object a (EventFlags f) t = s" using assms(2) by (simp add: assms(3) set_object_def fun_upd_idem)
  then have k: "kernel_ok (set_object a (EventFlags f) t')" using l(2) assms(1) by (simp add: loop_post_def)
  have "tcb t' q = (if q \<in> registered s \<and> met a b s q then tcb (signalled b q t) q else tcb t q)" for q
    using l(2) m by (simp add: loop_post_def assms(3))
  then have tcb: "tcb t' q = (if met a b s q then tcb (signalled b q s) q else tcb s q)" for q
    using mr [of q] by (auto simp: assms(3))
  have "bit cm n \<longleftrightarrow> (\<exists>q. met a b s q \<and> wait_flags_clear_on_exit (tcb s q) \<and> bit (wait_flags_mask (tcb s q)) n)" for n
    using l(2) m mr by (auto simp: loop_post_def assms(3))
  moreover have "tw \<longleftrightarrow> (\<exists>q. met a b s q)" using l(2) m mr by (auto simp: loop_post_def assms(3))
  ultimately show thesis using that [OF l(1) tcb] l(2) k by (simp add: loop_post_def assms(3))
qed

lemma no_satisfied_waiter_left:
  assumes "kernel_ok s" and "g_fr_task_count t' = g_fr_task_count s" and "waiting WAIT_EVENT_FLAGS a t' q"
    and "\<And>q. tcb t' q = (if met a b s q then tcb (signalled b q s) q else tcb s q)"
  shows "\<not> flags_met (b AND c) (wait_flags_mask (tcb t' q)) (wait_flags_all (tcb t' q))"
proof
  assume "flags_met (b AND c) (wait_flags_mask (tcb t' q)) (wait_flags_all (tcb t' q))"
  then have fm: "flags_met b (wait_flags_mask (tcb t' q)) (wait_flags_all (tcb t' q))" by (rule flags_met_mono)
  have nm: "\<not> met a b s q" using assms(3) assms(4) [of q] by (auto simp: waiting_def)
  then have eq: "tcb t' q = tcb s q" by (simp add: assms(4))
  have wq: "waiting WAIT_EVENT_FLAGS a s q"
    using assms(3) registered_cong [OF assms(2)] by (simp add: waiting_def eq)
  then have "wait_flags_mask (tcb s q) \<noteq> 0"
    using task_ok_registered [OF kernel_okD(1) [OF assms(1)], of q]
    by (auto simp: waiting_def task_ok_def fr_kernel_wait_state_valid_def split: if_split_asm)
  with wq fm nm show False by (simp add: met_def eq)
qed

lemma event_set_postI:
  assumes "caller p s" and "b = event_bits a s OR bits"
    and "\<And>q. tcb v q = (if met a b s q then tcb (signalled b q s) q else tcb s q)"
    and "event_bits a v = b AND NOT cm"
    and "\<And>n. bit cm n \<longleftrightarrow> (\<exists>q. met a b s q \<and> wait_flags_clear_on_exit (tcb s q) \<and> bit (wait_flags_mask (tcb s q)) n)"
    and "\<And>x. x \<noteq> a \<Longrightarrow> objects v x = objects s x"
  shows "event_set_post a bits s v"
proof -
  have B: "bit (event_bits a v) n \<longleftrightarrow> bit b n \<and>
      \<not> (\<exists>q. met a b s q \<and> wait_flags_clear_on_exit (tcb s q) \<and> bit (wait_flags_mask (tcb s q)) n)" for n
    using assms(5) by (auto simp: assms(4) bit_and_iff bit_not_iff dest: bit_imp_le_length)
  have "q \<noteq> p" if "met a b s q" for q
    using that caller_facts(11) [OF assms(1)] by (auto simp: met_def waiting_def)
  then have "if met a b s q
      then task_state (tcb v q) = STATE_READY \<and> wait_result (tcb v q) = RESULT_SIGNALED \<and>
           wait_flags_result (tcb v q) = b AND wait_flags_mask (tcb s q)
      else tcb v q = tcb s q" for q
    using assms(3) [of q] caller_facts(5) [OF assms(1)] by auto
  then show ?thesis
    unfolding event_set_post_def Let_def assms(2) [symmetric] using B assms(6) by simp
qed

lemma set_post:
  assumes "caller p s" and "objects s a = EventFlags f" and "a \<noteq> 0" and "bits \<noteq> 0"
  shows "\<exists>s'. fr_event_flags_set a bits s = Ret True s' \<and> kernel_ok s' \<and> event_set_post a bits s s' \<and>
    cpu s' = cpu s \<and> g_fr_task_count s' = g_fr_task_count s \<and>
    g_fr_scheduler_current_task s' = g_fr_scheduler_current_task s \<and>
    g_fr_scheduler_running s' = g_fr_scheduler_running s \<and> g_fr_kernel_tick_count s' = g_fr_kernel_tick_count s \<and>
    (\<exists>g. objects s' a = EventFlags g) \<and> (tcb s' = tcb s \<or> settled s') \<and>
    (\<forall>q. met a (event_bits a s OR bits) s q \<longrightarrow> tcb s' q = tcb (signalled (event_bits a s OR bits) q s) q)"
proof -
  note cf = caller_facts [OF assms(1)] and ev = event_object [OF caller_facts(2) [OF assms(1)] assms(2)]
  obtain c where c: "fr_critical_enter s = (cpu_basepri (cpu s), s\<lparr>cpu := c\<rparr>)"
    "\<And>t. cpu t = cpu s \<Longrightarrow> fr_critical_exit (cpu_basepri (cpu s)) (t\<lparr>cpu := c\<rparr>) = t"
    using critical_section [of s] by blast
  define b where "b = ef_bits f OR bits"
  define t where "t = set_object a (EventFlags (f\<lparr>ef_bits := b\<rparr>)) (s\<lparr>cpu := c\<rparr>)"
  have sc: "kernel_ok (s\<lparr>cpu := c\<rparr>)" "objects (s\<lparr>cpu := c\<rparr>) a = EventFlags f"
    using cf(1) assms(2) cpu_free_reads(11) [of c s] by simp_all
  have m: "met a b (s\<lparr>cpu := c\<rparr>) q = met a b s q" for q by (simp add: met_def waiting_def registered_def)
  have sg: "tcb (signalled b q (s\<lparr>cpu := c\<rparr>)) q = tcb (signalled b q s) q" "tcb (s\<lparr>cpu := c\<rparr>) = tcb s" for q by simp_all
  obtain cm tw t' where l: "event_set_loop a b [0..<unat (g_fr_task_count t)] 0 False t = Ret (cm, tw) t'"
    "\<And>q. tcb t' q = (if met a b s q then tcb (signalled b q s) q else tcb s q)"
    "objects t' = objects t" "cpu t' = c" "g_fr_task_count t' = g_fr_task_count s"
    "kernel_ok (set_object a (EventFlags f) t')"
    "\<And>n. bit cm n \<longleftrightarrow> (\<exists>q. met a b s q \<and> wait_flags_clear_on_exit (tcb s q) \<and> bit (wait_flags_mask (tcb s q)) n)"
    "g_fr_scheduler_current_task t' = g_fr_scheduler_current_task s"
    "g_fr_scheduler_running t' = g_fr_scheduler_running s"
    "g_fr_kernel_tick_count t' = g_fr_kernel_tick_count s" "tw \<longleftrightarrow> (\<exists>q. met a b s q)"
    by (rule raised_loop [OF sc t_def, unfolded m sg]) simp
  let ?u = "set_object a (EventFlags (f\<lparr>ef_bits := b AND NOT cm\<rparr>)) t'"
  have "kernel_ok (set_object a (EventFlags (f\<lparr>ef_bits := b AND NOT cm\<rparr>)) (set_object a (EventFlags f) t'))"
    using no_satisfied_waiter_left [OF cf(1) l(5) _ l(2)] by (intro kernel_ok_event_write l(6)) simp_all
  then have ok: "kernel_ok ?u" by (simp add: set_object_def)
  define v where "v = (if tw then fr_scheduler_request_if_needed_locked ?u else ?u)"
  have vf: "kernel_ok v" "cpu v = c" "tcb v = tcb t'" "objects v = objects ?u"
    "g_fr_task_count v = g_fr_task_count s" "g_fr_scheduler_current_task v = g_fr_scheduler_current_task s"
    "g_fr_scheduler_running v = g_fr_scheduler_running s" "g_fr_kernel_tick_count v = g_fr_kernel_tick_count s"
    using ok kernel_ok_request [OF ok] l(4,5,8-10) by (simp_all add: v_def)
  have o: "objects t' a = EventFlags (f\<lparr>ef_bits := b\<rparr>)" by (simp add: l(3) t_def)
  have bits: "event_bits a t = b" "event_bits a t' = b" "\<And>w. set_event_bits a w t' = set_object a (EventFlags (f\<lparr>ef_bits := w\<rparr>)) t'"
    using o by (simp_all add: event_bits_def t_def set_event_bits_def)
  have "fr_event_flags_set a bits s = Ret True (fr_critical_exit (cpu_basepri (cpu s)) v)"
    using cf(3,4,9,10) assms(3,4) l(1) ev bits
    by (simp add: fr_event_flags_set_def event_context_allowed_eq c(1) cpu_free fr_scheduler_is_running_def
        fr_task_internal_count_def Let_def v_def t_def [symmetric] b_def [symmetric])
       (simp add: t_def cpu_free)
  moreover have "v\<lparr>cpu := c\<rparr> = v" by (simp flip: vf(2))
  then have "fr_critical_exit (cpu_basepri (cpu s)) v = v\<lparr>cpu := cpu s\<rparr>"
    using c(2) [of "v\<lparr>cpu := cpu s\<rparr>"] by simp
  moreover have "event_set_post a bits s (v\<lparr>cpu := cpu s\<rparr>)"
    by (rule event_set_postI [OF assms(1), of b]) (use vf l(2,3,7) ev(2) in \<open>simp_all add: event_bits_def b_def t_def\<close>)
  moreover have "tcb v = tcb s \<or> settled v" using l(2,11) vf(3) by (auto simp: v_def fun_eq_iff)
  moreover have "met a (event_bits a s OR bits) s q \<longrightarrow> tcb v q = tcb (signalled (event_bits a s OR bits) q s) q" for q
    using l(2) [of q] ev(2) unfolding vf(3) b_def by simp
  ultimately show ?thesis using vf(1,4-8) cpu_free_reads(11) [of "cpu s" v] by auto
qed

lemma write_result_frame [simp]:
  "tcb (write_result out v s) = tcb s" "objects (write_result out v s) = objects s" "cpu (write_result out v s) = cpu s"
  "registered (write_result out v s) = registered s"
  "g_fr_scheduler_current_task (write_result out v s) = g_fr_scheduler_current_task s"
  "g_fr_kernel_tick_count (write_result out v s) = g_fr_kernel_tick_count s"
  "g_fr_scheduler_running (write_result out v s) = g_fr_scheduler_running s"
  "pendsv_pending (write_result out v s) = pendsv_pending s"
  "event_bits a (write_result out v s) = event_bits a s"
  by (simp_all add: write_result_def event_bits_def)

lemma write_result_load: "out \<noteq> 0 \<Longrightarrow> load32 (ram (write_result out v s)) out = v"
  by (simp add: write_result_def load32_store32_same)

lemma kernel_ok_write_result: "kernel_ok s \<Longrightarrow> kernel_ok (write_result out v s)"
  by (simp add: write_result_def kernel_ok_set_ram)

lemma caller_write_result: "caller p s \<Longrightarrow> caller p (write_result out v s)"
  by (simp add: caller_def kernel_ok_write_result thread_context_allowed_def)

definition wait_fields :: "u32 \<Rightarrow> bool \<Rightarrow> bool \<Rightarrow> fr_task \<Rightarrow> fr_task" where
  "wait_fields m al cl t = t\<lparr>wait_flags_mask := m, wait_flags_result := 0, wait_flags_all := al,
     wait_flags_clear_on_exit := cl\<rparr>"

definition event_suspended :: "task_ptr \<Rightarrow> u32 \<Rightarrow> u32 \<Rightarrow> bool \<Rightarrow> bool \<Rightarrow> u32 \<Rightarrow> kernel \<Rightarrow> kernel" where
  "event_suspended p a m al cl n s = suspended p WAIT_EVENT_FLAGS a n (upd_task p (wait_fields m al cl) s)"

lemma wait_fields_frame [simp]:
  "task_state (wait_fields m al cl t) = task_state t" "priority (wait_fields m al cl t) = priority t"
  "base_priority (wait_fields m al cl t) = base_priority t" "task_id (wait_fields m al cl t) = task_id t"
  "wait_flags_mask (wait_fields m al cl t) = m" "wait_flags_all (wait_fields m al cl t) = al"
  "wait_flags_clear_on_exit (wait_fields m al cl t) = cl"
  "fr_kernel_stack_geometry_valid (wait_fields m al cl t) = fr_kernel_stack_geometry_valid t"
  "fr_kernel_saved_sp_valid (wait_fields m al cl t) = fr_kernel_saved_sp_valid t"
  by (simp_all add: wait_fields_def fr_kernel_stack_geometry_valid_def fr_kernel_saved_sp_valid_def)

lemma event_suspended_tcb [simp]:
  "tcb (event_suspended p a m al cl n s) =
     (tcb s)(p := sleep_task WAIT_EVENT_FLAGS a n (g_fr_kernel_tick_count s) (wait_fields m al cl (tcb s p)))"
  by (simp add: event_suspended_def) (simp add: upd_task_def)

lemma kernel_ok_event_suspended:
  assumes "caller p s" and "objects s a = EventFlags f" and "wait_args_ok WAIT_EVENT_FLAGS a n" and "m \<noteq> 0"
    and "\<not> flags_met (ef_bits f) m al"
  shows "kernel_ok (event_suspended p a m al cl n s)"
proof (rule kernel_ok_new_tcb)
  note cf = caller_facts [OF assms(1)]
  let ?T = "sleep_task WAIT_EVENT_FLAGS a n (g_fr_kernel_tick_count s) (wait_fields m al cl (tcb s p))"
  show "kernel_ok s" "p \<in> registered s" using cf by simp_all
  show "task_ok i ?T" if "p = Pool i" for i
    using task_ok_registered [OF cf(2,8)] that assms(3,4) cf(11)
    by (auto simp: task_ok_def fr_kernel_wait_state_valid_def fr_kernel_wait_reason_uses_object_def wait_args_ok_def)
  show "waits_for (event_suspended p a m al cl n s) p z = waits_for s p z" for z
    using cf(11) by (simp add: waits_for_def)
  show "task_state ?T = STATE_BLOCKED \<longrightarrow> wait_ok (objects s) ?T"
    using assms(2,5) by (simp add: wait_ok_def)
qed (use caller_facts(11) [OF assms(1)] in \<open>simp_all add: event_suspended_def\<close>, simp add: upd_task_def)

lemma wait_section_closed:
  assumes "caller p s" and "objects s a = EventFlags f" and "fr_wait_timeout_remaining to s = (mo, n)"
    and "mo \<longrightarrow> wait_args_ok WAIT_EVENT_FLAGS a n"
  shows "fr_event_flags_wait_section a m al cl to out s =
    (if flags_met (ef_bits f) m al
     then Ret (Returned True) (write_result out (ef_bits f AND m)
            (if cl then set_object a (EventFlags (f\<lparr>ef_bits := ef_bits f AND NOT m\<rparr>)) s else s))
     else if mo then Ret Suspended (event_suspended p a m al cl n s)
     else Ret (Returned False) s)"
proof -
  note cf = caller_facts [OF assms(1)] and ev = event_object [OF caller_facts(2) [OF assms(1)] assms(2)]
  obtain c where c: "fr_critical_enter s = (cpu_basepri (cpu s), s\<lparr>cpu := c\<rparr>)"
    "\<And>t. cpu t = cpu s \<Longrightarrow> fr_critical_exit (cpu_basepri (cpu s)) (t\<lparr>cpu := c\<rparr>) = t"
    using critical_section [of s] by blast
  have cb: "can_block p (upd_task p (wait_fields m al cl) s)"
    using cf(7) by (simp add: can_block_def)
  show ?thesis
    using cf(4,5,9,10) c(2) ev(1,2) ev(4) assms(4) cb
    by (simp add: fr_event_flags_wait_section_def c(1) cpu_free block_closed fr_scheduler_is_running_def
        condition_met_eq assms(3) wait_fields_def [abs_def] event_suspended_def Let_def)
qed

definition event_wait_post ::
    "task_ptr \<Rightarrow> u32 \<Rightarrow> u32 \<Rightarrow> bool \<Rightarrow> bool \<Rightarrow> u32 \<Rightarrow> u32 \<Rightarrow> kernel \<Rightarrow> bool call \<Rightarrow> kernel \<Rightarrow> bool" where
  "event_wait_post p a m al cl ticks out s r s' \<longleftrightarrow>
     (\<forall>b. b \<noteq> a \<longrightarrow> objects s' b = objects s b) \<and> (\<forall>q. q \<noteq> p \<longrightarrow> tcb s' q = tcb s q) \<and>
     (if m \<noteq> 0 \<and> (ticks \<le> FR_WAIT_MAX_FINITE_TICKS \<or> ticks = FR_WAIT_FOREVER) \<and> flags_met (event_bits a s) m al
      then r = Returned True \<and> tcb s' p = tcb s p \<and>
        event_bits a s' = (if cl then event_bits a s AND NOT m else event_bits a s) \<and>
        (out \<noteq> 0 \<longrightarrow> load32 (ram s') out = event_bits a s AND m)
      else event_bits a s' = event_bits a s \<and> (out \<noteq> 0 \<longrightarrow> load32 (ram s') out = 0) \<and>
        (if m \<noteq> 0 \<and> ticks \<noteq> 0 \<and> (ticks \<le> FR_WAIT_MAX_FINITE_TICKS \<or> ticks = FR_WAIT_FOREVER)
         then r = Suspended \<and> waiting WAIT_EVENT_FLAGS a s' p \<and> pendsv_pending s' \<and>
           wait_flags_mask (tcb s' p) = m \<and> wait_flags_all (tcb s' p) = al \<and>
           wait_flags_clear_on_exit (tcb s' p) = cl \<and>
           wait_has_deadline (tcb s' p) = (ticks \<noteq> FR_WAIT_FOREVER) \<and>
           (ticks \<noteq> FR_WAIT_FOREVER \<longrightarrow> wait_deadline (tcb s' p) = g_fr_kernel_tick_count s + ticks)
         else r = Returned False \<and> tcb s' p = tcb s p))"

lemma wait_illegal: "\<not> (ticks \<le> FR_WAIT_MAX_FINITE_TICKS \<or> ticks = FR_WAIT_FOREVER) \<longleftrightarrow> fr_wait_timeout_start ticks s = None"
  by (auto simp: fr_wait_timeout_start_def not_le not_less)

lemma wait_post:
  assumes "caller p s" and "objects s a = EventFlags f" and "a \<noteq> 0"
  shows "\<exists>r s'. fr_event_flags_wait a m al cl ticks out s = Ret r s' \<and> kernel_ok s' \<and>
           event_wait_post p a m al cl ticks out s r s'"
proof -
  let ?s = "write_result out 0 s"
  have c: "caller p ?s" by (rule caller_write_result [OF assms(1)])
  have o: "objects ?s a = EventFlags f" using assms(2) by simp
  note cf = caller_facts [OF c] and ev = event_object [OF caller_facts(2) [OF assms(1)] assms(2)]
  show ?thesis
  proof (cases "m = 0 \<or> fr_wait_timeout_start ticks ?s = None")
    case True
    then have "fr_event_flags_wait a m al cl ticks out s = Ret (Returned False) ?s"
      by (auto simp: fr_event_flags_wait_def Let_def split: option.splits)
    moreover have "event_wait_post p a m al cl ticks out s (Returned False) ?s"
      using True wait_illegal [of ticks ?s] by (auto simp: event_wait_post_def write_result_load)
    ultimately show ?thesis using cf(1) by blast
  next
    case False
    then obtain to where to: "fr_wait_timeout_start ticks ?s = Some to" and m: "m \<noteq> 0" by auto
    have legal: "ticks \<le> FR_WAIT_MAX_FINITE_TICKS \<or> ticks = FR_WAIT_FOREVER" using wait_illegal [of ticks ?s] to by auto
    have args: "ticks \<noteq> 0 \<longrightarrow> wait_args_ok WAIT_EVENT_FLAGS a ticks"
      using start_remaining_args [OF to _ assms(3), of WAIT_EVENT_FLAGS] by auto
    have eq: "fr_event_flags_wait a m al cl ticks out s = fr_event_flags_wait_section a m al cl to out ?s"
      using to m assms(3) cf(3) by (simp add: fr_event_flags_wait_def event_context_allowed_eq)
    note closed = wait_section_closed [OF c o start_remaining [OF to] args, of m al cl out]
    show ?thesis
    proof (cases "flags_met (ef_bits f) m al")
      case True
      let ?u = "if cl then set_object a (EventFlags (f\<lparr>ef_bits := ef_bits f AND NOT m\<rparr>)) ?s else ?s"
      have "\<not> flags_met (ef_bits f AND NOT m) (wait_flags_mask (tcb ?s q)) (wait_flags_all (tcb ?s q))"
        if "waiting WAIT_EVENT_FLAGS a ?s q" for q
        using unmet_waiter [OF cf(2) that o] by (auto dest: flags_met_mono)
      then have "kernel_ok ?u" using kernel_ok_event_write [OF cf(1) o] cf(1) by simp
      then have k: "kernel_ok (write_result out (ef_bits f AND m) ?u)" by (rule kernel_ok_write_result)
      have "event_wait_post p a m al cl ticks out s (Returned True) (write_result out (ef_bits f AND m) ?u)"
        using True m legal ev(2) by (simp add: event_wait_post_def write_result_load) (simp add: event_bits_def assms(2))
      then show ?thesis using eq closed True k by auto
    next
      case False
      have "event_wait_post p a m al cl ticks out s Suspended (event_suspended p a m al cl ticks ?s)" if "ticks \<noteq> 0"
        using False m legal ev(2) that cf(8)
        by (simp add: event_wait_post_def write_result_load event_bits_def waiting_def)
           (simp add: event_suspended_def write_result_load)
      moreover have "event_wait_post p a m al cl ticks out s (Returned False) ?s" if "ticks = 0"
        using False m legal ev(2) that by (simp add: event_wait_post_def write_result_load)
      ultimately show ?thesis
        using eq closed False cf(1) kernel_ok_event_suspended [OF c o _ m, of ticks al cl] args by auto
    qed
  qed
qed

lemma event_init_ok:
  "kernel_ok s \<Longrightarrow> \<not> g_fr_scheduler_running s \<Longrightarrow>
   kernel_ok (snd (fr_event_flags_init a s))"
  by (auto simp: fr_event_flags_init_def intro!: object_init_ok)

lemma clear_closed:
  assumes "caller p s" and "objects s a = EventFlags f" and "a \<noteq> 0" and "bits \<noteq> 0"
  shows "fr_event_flags_clear a bits s = (True, set_object a (EventFlags (f\<lparr>ef_bits := ef_bits f AND NOT bits\<rparr>)) s)"
    "kernel_ok (set_object a (EventFlags (f\<lparr>ef_bits := ef_bits f AND NOT bits\<rparr>)) s)"
proof -
  note cf = caller_facts [OF assms(1)] and ev = event_object [OF caller_facts(2) [OF assms(1)] assms(2)]
  obtain c where c: "fr_critical_enter s = (cpu_basepri (cpu s), s\<lparr>cpu := c\<rparr>)"
    "\<And>t. cpu t = cpu s \<Longrightarrow> fr_critical_exit (cpu_basepri (cpu s)) (t\<lparr>cpu := c\<rparr>) = t"
    using critical_section [of s] by blast
  show "fr_event_flags_clear a bits s = (True, set_object a (EventFlags (f\<lparr>ef_bits := ef_bits f AND NOT bits\<rparr>)) s)"
    using cf(3,4,9,10) c(2) ev assms(3,4)
    by (simp add: fr_event_flags_clear_def event_context_allowed_eq c(1) cpu_free fr_scheduler_is_running_def Let_def)
  show "kernel_ok (set_object a (EventFlags (f\<lparr>ef_bits := ef_bits f AND NOT bits\<rparr>)) s)"
    using unmet_waiter [OF cf(2) _ assms(2)]
    by (intro kernel_ok_event_write [OF cf(1) assms(2)]) (auto dest: flags_met_mono)
qed

lemma get_closed:
  assumes "caller p s" and "objects s a = EventFlags f" and "a \<noteq> 0" and "out \<noteq> 0"
  shows "fr_event_flags_get a out s = (True, write_result out (ef_bits f) s)"
proof -
  note cf = caller_facts [OF assms(1)] and ev = event_object [OF caller_facts(2) [OF assms(1)] assms(2)]
  obtain c where c: "fr_critical_enter s = (cpu_basepri (cpu s), s\<lparr>cpu := c\<rparr>)"
    "\<And>t. cpu t = cpu s \<Longrightarrow> fr_critical_exit (cpu_basepri (cpu s)) (t\<lparr>cpu := c\<rparr>) = t"
    using critical_section [of s] by blast
  show ?thesis
    using cf(3,4,9,10) c(2) ev assms(3,4)
    by (simp add: fr_event_flags_get_def event_context_allowed_eq c(1) cpu_free fr_scheduler_is_running_def Let_def)
qed


section \<open>Properties\<close>

text \<open>
  C26. Setting event flags. With \<open>b\<close> the old bits or-ed with the new ones, a set from a task wakes exactly
  the tasks waiting for these flags whose condition (all or any of their mask) \<open>b\<close> satisfies: all are
  judged against the same \<open>b\<close>, become ready, and their wait call returns true and stores \<open>b\<close> restricted to
  their mask; no other task changes. Afterwards the bits are \<open>b\<close> without the masks of exactly those woken
  tasks that asked for clear-on-exit. The invariant is kept, so no satisfied waiter is left behind.
\<close>

theorem event_set_wakes_satisfied:
  assumes "caller p s" and "objects s a = EventFlags f" and "a \<noteq> 0" and "bits \<noteq> 0"
  shows "\<exists>s'. fr_event_flags_set a bits s = Ret True s' \<and> kernel_ok s' \<and> event_set_post a bits s s' \<and>
    (\<forall>q out. met a (ef_bits f OR bits) s q \<and> out \<noteq> 0 \<longrightarrow>
       (\<exists>s''. fr_event_flags_wait_resume out q s' = (True, s'') \<and>
          load32 (ram s'') out = (ef_bits f OR bits) AND wait_flags_mask (tcb s q)))"
proof -
  obtain s' where s': "fr_event_flags_set a bits s = Ret True s'" "kernel_ok s'" "event_set_post a bits s s'"
    using set_post [OF assms] by blast
  have "event_bits a s = ef_bits f" by (rule event_object(2) [OF caller_facts(2) [OF assms(1)] assms(2)])
  then have "fr_event_flags_wait_resume out q s' =
      (True, write_result out ((ef_bits f OR bits) AND wait_flags_mask (tcb s q)) s')"
    if "met a (ef_bits f OR bits) s q" for q out
    using s'(3) that by (simp add: event_set_post_def Let_def fr_event_flags_wait_resume_def)
  then show ?thesis using s' by (auto simp: write_result_load)
qed

definition example_flags :: fr_event_flags where
  "example_flags = \<lparr>ef_magic = FR_EVENT_FLAGS_MAGIC, ef_bits = 2\<rparr>"

text \<open>Task 0 waits for both bits of mask 6, task 1 runs.\<close>

definition event_kernel :: kernel where
  "event_kernel = handover (Pool 1) (event_suspended (Pool 0) 0x20003000 6 True True FR_WAIT_FOREVER
     (set_object 0x20003000 (EventFlags example_flags) two_running))"

lemma event_kernel_caller:
  "caller (Pool 1) event_kernel" "objects event_kernel 0x20003000 = EventFlags example_flags"
  "met 0x20003000 (2 OR 4) event_kernel (Pool 0)" "wait_flags_mask (tcb event_kernel (Pool 0)) = 6"
proof -
  let ?s = "set_object 0x20003000 (EventFlags example_flags) two_running"
  let ?t = "event_suspended (Pool 0) 0x20003000 6 True True FR_WAIT_FOREVER ?s"
  have c: "caller (Pool 0) ?s" by (rule two_running_object) (simp add: example_flags_def)
  have "kernel_ok ?t"
    by (rule kernel_ok_event_suspended [OF c, of _ example_flags])
       (simp_all add: wait_args_ok_def example_flags_def flags_met_def)
  then show "caller (Pool 1) event_kernel"
    unfolding event_kernel_def
    using two_running_facts(4)
    by (intro handover_caller [where c = "Pool 0"])
       (simp_all add: event_suspended_def ready_def two_running_facts thread_context_allowed_def [symmetric]
         two_running_facts(13) [unfolded thread_context_allowed_def] thread_context_allowed_def)
  show "objects event_kernel 0x20003000 = EventFlags example_flags"
    by (simp add: event_kernel_def event_suspended_def)
  show "met 0x20003000 (2 OR 4) event_kernel (Pool 0)" "wait_flags_mask (tcb event_kernel (Pool 0)) = 6"
    by (simp_all add: event_kernel_def met_def waiting_def flags_met_def two_running_facts(7) event_suspended_def
        upd_task_def registered_def)
qed

theorem event_set_wakes_satisfied_witness:
  "\<exists>s'. fr_event_flags_set 0x20003000 4 event_kernel = Ret True s' \<and>
     task_state (tcb s' (Pool 0)) = STATE_READY \<and> wait_flags_result (tcb s' (Pool 0)) = 6 \<and>
     (\<exists>s''. fr_event_flags_wait_resume 0x20005000 (Pool 0) s' = (True, s'') \<and> load32 (ram s'') 0x20005000 = 6)"
proof -
  note ev = event_kernel_caller
  have b: "event_bits 0x20003000 event_kernel = 2" "ef_bits example_flags = 2"
    by (simp_all add: event_bits_def ev(2)) (simp_all add: example_flags_def)
  have six: "(2 OR 4) AND 6 = (6 :: u32)" by simp
  obtain s' where s': "fr_event_flags_set 0x20003000 4 event_kernel = Ret True s'"
    "event_set_post 0x20003000 4 event_kernel s'"
    "\<forall>q out. met 0x20003000 (2 OR 4) event_kernel q \<and> out \<noteq> 0 \<longrightarrow>
       (\<exists>s''. fr_event_flags_wait_resume out q s' = (True, s'') \<and>
          load32 (ram s'') out = (2 OR 4) AND wait_flags_mask (tcb event_kernel q))"
    using event_set_wakes_satisfied [OF ev(1,2), of 4] unfolding b(2) by auto
  have "task_state (tcb s' (Pool 0)) = STATE_READY" "wait_flags_result (tcb s' (Pool 0)) = 6"
    using s'(2) ev(3) by (auto simp only: event_set_post_def Let_def b(1) ev(4) six if_True)
  moreover have "\<exists>s''. fr_event_flags_wait_resume 0x20005000 (Pool 0) s' = (True, s'') \<and> load32 (ram s'') 0x20005000 = 6"
    using s'(3) [rule_format, of "Pool 0" "0x20005000"] ev(3) by (simp only: ev(4) six) auto
  ultimately show ?thesis using s'(1) by blast
qed

text \<open>
  C27. Waiting for event flags. The result location is zeroed first. An empty mask or an illegal timeout
  is rejected. If the bits satisfy the condition at once, the call returns true, stores the matched bits
  and clears the whole mask exactly when asked to; otherwise it fails for a zero timeout and leaves the
  caller waiting with its condition and deadline recorded for any other. No other task and no other
  object changes, and the kernel invariant is kept.
\<close>

theorem event_wait_contract:
  assumes "caller p s" and "objects s a = EventFlags f" and "a \<noteq> 0"
  shows "\<exists>r s'. fr_event_flags_wait a m al cl ticks out s = Ret r s' \<and> kernel_ok s' \<and>
           event_wait_post p a m al cl ticks out s r s'"
  by (rule wait_post [OF assms])

theorem event_wait_contract_witness:
  "\<exists>s'. fr_event_flags_wait 0x20003000 3 False True 0 0x20005000
      (set_object 0x20003000 (EventFlags example_flags) two_running) = Ret (Returned True) s' \<and>
     event_bits 0x20003000 s' = 0 \<and> load32 (ram s') 0x20005000 = 2"
proof -
  let ?s = "set_object 0x20003000 (EventFlags example_flags) two_running"
  have c: "caller (Pool 0) ?s" by (rule two_running_object) (simp add: example_flags_def)
  have b: "event_bits 0x20003000 ?s = 2" by (simp add: event_bits_def example_flags_def)
  show ?thesis
    using event_wait_contract [OF c, of "0x20003000" example_flags 3 False True 0 "0x20005000"]
    by (auto simp: event_wait_post_def b flags_met_def)
qed

end
