(* ===== verification/Services.thy ===== *)
theory Services
  imports Semaphore Mutex_Service Queue_Service Event_Service
begin

text \<open>
  Every service a task can call, as one type, with what all of them have in common: called from a task
  they return (no assertion fails), keep the kernel invariant and the processor registers, change at
  most the object they are called on, wake only tasks waiting for that object, and suspend at most the
  caller. The theory \<open>System\<close> composes them with interrupts.
\<close>


section \<open>Services and continuations\<close>

datatype service =
    Yield
  | Sleep u32
  | TakeBinary u32 u32
  | GiveBinary u32
  | TakeCounting u32 u32
  | GiveCounting u32
  | Lock u32 u32
  | Unlock u32
  | Send u32 u32 u32
  | Receive u32 u32 u32
  | SetFlags u32 u32
  | ClearFlags u32 u32
  | GetFlags u32 u32
  | WaitFlags u32 u32 bool bool u32 u32

fun returns :: "bool outcome \<Rightarrow> bool call outcome" where
  "returns (Ret b s) = Ret (Returned b) s"
| "returns (Halt s) = Halt s"

fun exec :: "service \<Rightarrow> kernel \<Rightarrow> bool call outcome" where
  "exec Yield s = Ret (Returned True) (fr_task_yield s)"
| "exec (Sleep d) s = fr_task_sleep d s"
| "exec (TakeBinary a t) s = fr_binary_semaphore_take a t s"
| "exec (GiveBinary a) s = returns (fr_binary_semaphore_give a s)"
| "exec (TakeCounting a t) s = fr_counting_semaphore_take a t s"
| "exec (GiveCounting a) s = returns (fr_counting_semaphore_give a s)"
| "exec (Lock a t) s = fr_mutex_lock a t s"
| "exec (Unlock a) s = returns (fr_mutex_unlock a s)"
| "exec (Send a item t) s = fr_queue_send_wait a item t s"
| "exec (Receive a item t) s = fr_queue_receive_wait a item t s"
| "exec (SetFlags a b) s = returns (fr_event_flags_set a b s)"
| "exec (ClearFlags a b) s = (case fr_event_flags_clear a b s of (r, s') \<Rightarrow> Ret (Returned r) s')"
| "exec (GetFlags a out) s = (case fr_event_flags_get a out s of (r, s') \<Rightarrow> Ret (Returned r) s')"
| "exec (WaitFlags a m al cl t out) s = fr_event_flags_wait a m al cl t out s"

text \<open>What a suspended call still has to do when its task runs again.\<close>

datatype continuation =
    AfterSleep
  | AfterTake u32
  | AfterLock u32
  | AfterSend u32 u32 fr_wait_timeout
  | AfterReceive u32 u32 fr_wait_timeout
  | AfterWait u32 u32

definition started_timeout :: "u32 \<Rightarrow> kernel \<Rightarrow> fr_wait_timeout" where
  "started_timeout t s = (case fr_wait_timeout_start t s of Some to \<Rightarrow> to
     | None \<Rightarrow> \<lparr>to_wait_forever = False, to_deadline = 0\<rparr>)"

fun continuation_of :: "service \<Rightarrow> kernel \<Rightarrow> continuation" where
  "continuation_of (TakeBinary a t) s = AfterTake a"
| "continuation_of (TakeCounting a t) s = AfterTake a"
| "continuation_of (Lock a t) s = AfterLock a"
| "continuation_of (Send a item t) s = AfterSend a item (started_timeout t s)"
| "continuation_of (Receive a item t) s = AfterReceive a item (started_timeout t s)"
| "continuation_of (WaitFlags a m al cl t out) s = AfterWait a out"
| "continuation_of _ s = AfterSleep"

fun resume :: "continuation \<Rightarrow> task_ptr \<Rightarrow> kernel \<Rightarrow> bool call outcome" where
  "resume AfterSleep p s = Ret (Returned (fr_task_sleep_resume p s)) s"
| "resume (AfterTake a) p s = Ret (Returned (fr_semaphore_take_resume p s)) s"
| "resume (AfterLock a) p s = Ret (Returned (fr_mutex_lock_resume a p s)) s"
| "resume (AfterSend a item to) p s = fr_queue_send_resume a item to p s"
| "resume (AfterReceive a item to) p s = fr_queue_receive_resume a item to p s"
| "resume (AfterWait a out) p s = (case fr_event_flags_wait_resume out p s of (r, s') \<Rightarrow> Ret (Returned r) s')"

text \<open>What the task of a continuation was blocked on.\<close>

fun wait_of :: "continuation \<Rightarrow> fr_wait_reason \<times> u32" where
  "wait_of AfterSleep = (WAIT_SLEEP, 0)"
| "wait_of (AfterTake a) = (WAIT_SYNC, a)"
| "wait_of (AfterLock a) = (WAIT_MUTEX, a)"
| "wait_of (AfterSend a item to) = (WAIT_QUEUE_SEND, a)"
| "wait_of (AfterReceive a item to) = (WAIT_QUEUE_RECEIVE, a)"
| "wait_of (AfterWait a out) = (WAIT_EVENT_FLAGS, a)"


section \<open>The view of waits\<close>

fun mutex_owner_of :: "kobj \<Rightarrow> task_ptr option" where
  "mutex_owner_of (Mutex m) = mx_owner m"
| "mutex_owner_of _ = None"

lemma mutex_owner_eq: "mutex_owner a s = mutex_owner_of (objects s a)"
  by (cases "objects s a") (simp_all add: mutex_owner_def)

definition blocked_on :: "kernel \<Rightarrow> task_ptr \<Rightarrow> (fr_wait_reason \<times> u32) option" where
  "blocked_on s q = (if task_state (tcb s q) = STATE_BLOCKED
     then Some (wait_reason (tcb s q), wait_object (tcb s q)) else None)"

definition wview :: "kernel \<Rightarrow> task_ptr \<Rightarrow> (fr_wait_reason \<times> u32) option \<times> fr_wait_result" where
  "wview s q = (blocked_on s q, wait_result (tcb s q))"

lemma wview_cong: "tcb s' q = tcb s q \<Longrightarrow> wview s' q = wview s q"
  by (simp add: wview_def blocked_on_def)

lemma wview_frame [simp]:
  "wview (with_prio s f) = wview s" "wview (set_object a ob s) = wview s" "wview (set_ram m s) = wview s"
  "wview (fr_scheduler_request_if_needed_locked s) = wview s" "wview (fr_port_request_context_switch s) = wview s"
  "wview (write_result out v s) = wview s" "wview (s\<lparr>cpu := c\<rparr>) = wview s"
  by (simp_all add: wview_def blocked_on_def fun_eq_iff)

lemma wview_woken [simp]: "wview (woken w r s) = (wview s)(w := (None, r))"
  by (simp add: wview_def blocked_on_def fun_eq_iff)

lemma wview_suspended [simp]: "wview (suspended p r a n s) = (wview s)(p := (Some (r, a), RESULT_PENDING))"
  by (simp add: wview_def blocked_on_def fun_eq_iff)

lemma waiting_blocked_on: "waiting r a s q \<Longrightarrow> blocked_on s q = Some (r, a)"
  by (simp add: waiting_def blocked_on_def)

lemma blocked_on_waiting:
  assumes "base_ok s" and "q \<in> registered s"
  shows "waiting r a s q \<longleftrightarrow> blocked_on s q = Some (r, a)"
  using blocked_task [OF assms] assms(2) by (auto simp: waiting_def blocked_on_def)

text \<open>
  What a service does to the deadlines of tasks: it keeps them, makes a task ready, or blocks a task with
  a deadline that has not been reached. No task is ever put back into the state CREATED.
\<close>

definition timely :: "kernel \<Rightarrow> kernel \<Rightarrow> bool" where
  "timely s s' \<longleftrightarrow> (\<forall>q.
     task_state (tcb s' q) = task_state (tcb s q) \<and> wait_has_deadline (tcb s' q) = wait_has_deadline (tcb s q) \<and>
       wait_deadline (tcb s' q) = wait_deadline (tcb s q) \<or>
     task_state (tcb s' q) = STATE_READY \<or>
     task_state (tcb s' q) = STATE_BLOCKED \<and> \<not> expires (g_fr_kernel_tick_count s) (tcb s' q))"

lemma timely_same [simp]: "tcb s' = tcb s \<Longrightarrow> timely s s'"
  by (simp add: timely_def)

lemma timely_frame [simp]:
  "timely s (with_prio u f) = timely s u" "timely s (set_object a ob u) = timely s u" "timely s (set_ram m u) = timely s u"
  "timely s (fr_scheduler_request_if_needed_locked u) = timely s u" "timely s (fr_port_request_context_switch u) = timely s u"
  "timely s (write_result out v u) = timely s u" "timely s (u\<lparr>cpu := c\<rparr>) = timely s u"
  by (simp_all add: timely_def expires_def)

lemma timely_woken [simp]: "tcb u = tcb s \<Longrightarrow> g_fr_scheduler_current_task u \<noteq> Some w \<Longrightarrow> timely s (woken w r u)"
  by (auto simp: timely_def)

lemma fresh_deadline:
  assumes "wait_args_ok r a n" and "n \<noteq> FR_WAIT_FOREVER"
  shows "\<not> fr_tick_deadline_reached now (now + n)"
proof -
  have n: "unat n < 2147483648" "n \<noteq> 0" using assms by (auto simp: wait_args_ok_def word_le_nat_alt)
  then show ?thesis using deadline_reached_iff [OF n(1), of 0 now] by (simp add: unat_eq_0)
qed

lemma timely_suspended [simp]:
  assumes "wait_args_ok r a n" and "tcb u = tcb s" and "g_fr_kernel_tick_count u = g_fr_kernel_tick_count s"
  shows "timely s (suspended p r a n u)" "timely s (event_suspended p a m al cl n u)"
  using fresh_deadline [OF assms(1)] assms(2,3) by (auto simp: timely_def expires_def event_suspended_def)

text \<open>
  What no service changes in a task control block: the saved stack pointer, the stack and the other
  fields set at creation; and no task enters or leaves the state CREATED.
\<close>

definition fixed :: "fr_task \<Rightarrow> u32 \<times> u32 \<times> u32 \<times> u32 \<times> u32 \<times> u32 \<times> u32 \<times> u8" where
  "fixed t = (saved_sp t, stack_base t, stack_top t, entry t, argument t, stack_size_words t, task_id t, base_priority t)"

definition steady :: "kernel \<Rightarrow> kernel \<Rightarrow> bool" where
  "steady s s' \<longleftrightarrow> (\<forall>q. fixed (tcb s' q) = fixed (tcb s q) \<and>
     (task_state (tcb s' q) = STATE_CREATED \<longleftrightarrow> task_state (tcb s q) = STATE_CREATED))"

lemma steady_same [simp]: "tcb s' = tcb s \<Longrightarrow> steady s s'"
  by (simp add: steady_def)

lemma steady_frame [simp]:
  "steady s (with_prio u f) = steady s u" "steady s (set_object a ob u) = steady s u" "steady s (set_ram m u) = steady s u"
  "steady s (fr_scheduler_request_if_needed_locked u) = steady s u" "steady s (fr_port_request_context_switch u) = steady s u"
  "steady s (write_result out v u) = steady s u" "steady s (u\<lparr>cpu := c\<rparr>) = steady s u"
  by (simp_all add: steady_def fixed_def)

lemma steady_woken [simp]: "tcb u = tcb s \<Longrightarrow> task_state (tcb s w) \<noteq> STATE_CREATED \<Longrightarrow> steady s (woken w r u)"
  by (auto simp: steady_def fixed_def wake_task_def)

lemma steady_suspended [simp]:
  assumes "tcb u = tcb s" and "task_state (tcb s p) \<noteq> STATE_CREATED"
  shows "steady s (suspended p r a n u)" "steady s (event_suspended p a m al cl n u)"
  using assms by (auto simp: steady_def fixed_def event_suspended_def sleep_task_def wait_fields_def)

lemma waiting_not_created: "waiting r a s w \<Longrightarrow> task_state (tcb s w) \<noteq> STATE_CREATED"
  by (simp add: waiting_def)

lemma caller_not_created: "caller p s \<Longrightarrow> task_state (tcb s p) \<noteq> STATE_CREATED"
  using caller_facts(11) [of p s] by simp

text \<open>
  The common contract of a call by task \<open>p\<close> on object \<open>a\<close>: suspension with reason \<open>rs\<close>, wake-ups of tasks
  waiting with reason \<open>rw\<close>, writes to \<open>a\<close> only when it is an object of kind \<open>K\<close>.
\<close>

definition served ::
    "task_ptr \<Rightarrow> u32 \<Rightarrow> fr_wait_reason \<Rightarrow> fr_wait_reason \<Rightarrow> (kobj \<Rightarrow> bool) \<Rightarrow> kernel \<Rightarrow> bool call \<Rightarrow> kernel \<Rightarrow> bool" where
  "served p a rs rw K s r s' \<longleftrightarrow> kernel_ok s' \<and> cpu s' = cpu s \<and> registered s' = registered s \<and>
     g_fr_scheduler_current_task s' = g_fr_scheduler_current_task s \<and> g_fr_scheduler_running s' \<and>
     g_fr_kernel_tick_count s' = g_fr_kernel_tick_count s \<and>
     (\<forall>x. objects s' x \<noteq> objects s x \<longrightarrow> x = a \<and> K (objects s x) \<and> K (objects s' x)) \<and>
     (r = Suspended \<longrightarrow> wview s' p = (Some (rs, a), RESULT_PENDING) \<and> pendsv_pending s') \<and>
     (\<forall>q. wview s' q = wview s q \<or> waiting rw a s q \<and> wview s' q = (None, RESULT_SIGNALED) \<or>
        q = p \<and> r = Suspended) \<and>
     timely s s' \<and> steady s s' \<and> (tcb s' = tcb s \<or> settled s')"

lemma served_objects: "served p a rs rw K s r s' \<Longrightarrow> b \<noteq> a \<Longrightarrow> objects s' b = objects s b"
  by (auto simp: served_def)

lemma served_refl: "caller p s \<Longrightarrow> served p a rs rw K s (Returned b) s"
  by (simp add: served_def caller_def)

lemma served_set_object:
  assumes "caller p s" and "kernel_ok (set_object a ob s)" and "K (objects s a)" and "K ob"
  shows "served p a rs rw K s (Returned b) (set_object a ob s)"
  using assms caller_facts(4) [OF assms(1)] by (simp add: served_def)

lemma served_suspended:
  "caller p s \<Longrightarrow> kernel_ok (suspended p rs a n s) \<Longrightarrow> wait_args_ok rs a n \<Longrightarrow>
   served p a rs rw K s Suspended (suspended p rs a n s)"
  using caller_not_created [of p s] by (auto simp: served_def caller_def settled_pending)


section \<open>Yield and sleep\<close>

lemma yield_cases: "fr_task_yield s = s \<or> fr_task_yield s = fr_port_request_context_switch s"
  by (simp add: fr_task_yield_def split_beta Let_def)

lemma yield_served:
  assumes "caller p s"
  shows "served p a rs rw K s (Returned True) (fr_task_yield s)"
  using yield_cases [of s] yield_ok [of s] assms by (auto simp: served_def caller_def settled_pending)

lemma sleep_call:
  assumes "caller p s" and "d \<noteq> 0" and "d \<le> FR_TASK_SLEEP_MAX_TICKS"
  shows "fr_task_sleep d s = Ret Suspended (suspended p WAIT_SLEEP 0 d s)"
proof -
  note cf = caller_facts [OF assms(1)]
  obtain c where c: "fr_critical_enter s = (cpu_basepri (cpu s), s\<lparr>cpu := c\<rparr>)"
    "\<And>t. cpu t = cpu s \<Longrightarrow> fr_critical_exit (cpu_basepri (cpu s)) (t\<lparr>cpu := c\<rparr>) = t"
    using critical_section [of s] by blast
  have "fr_critical_exit 0 (suspended p WAIT_SLEEP 0 d (snd (fr_critical_enter s))) = suspended p WAIT_SLEEP 0 d s"
    using c(2) [of "suspended p WAIT_SLEEP 0 d s"] cf(10) by (simp add: c(1) cpu_free)
  then show ?thesis using assms(2,3) cf(3,5,7) by (simp add: sleep_closed)
qed

lemma sleep_served:
  assumes "caller p s"
  shows "\<exists>r s'. fr_task_sleep d s = Ret r s' \<and> served p 0 WAIT_SLEEP rw K s r s'"
proof (cases "d \<noteq> 0 \<and> d \<le> FR_TASK_SLEEP_MAX_TICKS")
  case False
  then have "fr_task_sleep d s = Ret (Returned False) s" by (auto simp: sleep_closed split: option.splits)
  then show ?thesis using served_refl [OF assms] by blast
next
  case True
  note cf = caller_facts [OF assms]
  have "kernel_ok (suspended p WAIT_SLEEP 0 d s)"
    using True running_flag_fields [OF cf(2,7), of WAIT_SLEEP]
    by (intro kernel_ok_suspended [OF cf(1,7)]) (auto simp: wait_args_ok_def wait_ok_def)
  moreover have "wait_args_ok WAIT_SLEEP 0 d" using True by (simp add: wait_args_ok_def)
  ultimately show ?thesis using sleep_call [OF assms] served_suspended [OF assms] True by blast
qed


section \<open>Semaphores\<close>

definition is_semaphore :: "kobj \<Rightarrow> bool" where
  "is_semaphore ob \<longleftrightarrow> sem_tokens ob \<noteq> None"

lemma woken_served:
  assumes "caller p s" and "waiting rw a s w" and "rw \<noteq> WAIT_MUTEX"
  shows "served p a rs rw K s (Returned True) (fr_scheduler_request_if_needed_locked (woken w RESULT_SIGNALED s))"
proof -
  note cf = caller_facts [OF assms(1)]
  have "kernel_ok (fr_scheduler_request_if_needed_locked (woken w RESULT_SIGNALED s))"
    using assms(2,3) by (intro kernel_ok_request kernel_ok_woken [OF cf(1)]) (simp_all add: waiting_def)
  then show ?thesis
    using cf(4,5) assms(2) waiter_is_not_caller [OF assms(1,2)] waiting_not_created [OF assms(2)] by (simp add: served_def)
qed

context token_semaphore
begin

lemma write_served:
  assumes "caller p s" and "valid a s" and "v \<le> limit a s" and "\<And>q. \<not> waiting WAIT_SYNC a s q"
  shows "served p a rs rw is_semaphore s (Returned b) (write_count (ref a) v s)"
proof -
  obtain ob where ob: "write_count (ref a) v s = set_object a ob s" "sem_tokens ob = Some v"
    using write_law [OF assms(2,3)] by blast
  show ?thesis
    unfolding ob(1)
    by (rule served_set_object [OF assms(1)])
      (use write_ok(1) [OF caller_facts(1) [OF assms(1)] assms(2-4)] tokens_read [OF assms(2)] in
        \<open>simp_all add: ob is_semaphore_def\<close>)
qed

lemma take_served:
  assumes "caller p s" and "valid a s"
  shows "\<exists>r s'. fr_semaphore_take_common (ref a) a ticks s = Ret r s' \<and> served p a WAIT_SYNC rw is_semaphore s r s'"
proof (cases "fr_wait_timeout_start ticks s")
  case None
  then have "fr_semaphore_take_common (ref a) a ticks s = Ret (Returned False) s"
    by (simp add: fr_semaphore_take_common_def)
  then show ?thesis using served_refl [OF assms(1)] by blast
next
  case (Some to)
  note cf = caller_facts [OF assms(1)] and nn = valid_nonnull [OF assms(2)]
  have eq: "fr_semaphore_take_common (ref a) a ticks s = fr_semaphore_take_section (ref a) a to s"
    using Some nn ref_nonnull [of a] cf(3) by (simp add: fr_semaphore_take_common_def context_allowed_eq)
  note closed = take_section_closed [OF assms(1), of a to, unfolded start_remaining [OF Some]]
  show ?thesis
  proof (cases "read_count (ref a) s = 0")
    case False
    have "read_count (ref a) s - 1 \<le> limit a s"
      using tokens_le [OF assms(2)] False by (simp add: word_le_nat_alt unat_minus_one)
    from write_served [OF assms this no_token_waiter [OF cf(2) assms(2) False]]
    show ?thesis using eq closed False by auto
  next
    case True
    have "kernel_ok (suspended p WAIT_SYNC a n s)" if "wait_args_ok WAIT_SYNC a n" for n
      using that True tokens_read [OF assms(2)] running_flag_fields [OF cf(2,7), of WAIT_SYNC]
      by (intro kernel_ok_suspended [OF cf(1,7)]) (simp_all add: wait_ok_def)
    then show ?thesis
      using eq closed True served_refl [OF assms(1)] served_suspended [OF assms(1)] by auto
  qed
qed

lemma give_served:
  assumes "caller p s" and "valid a s"
  shows "\<exists>r s'. fr_semaphore_give_common (ref a) (limit a s) a s = Ret r s' \<and>
           served p a rs WAIT_SYNC is_semaphore s (Returned r) s'"
proof (cases "fr_scheduler_select_waiter_locked WAIT_SYNC a s")
  case None
  then have nw: "\<not> waiting WAIT_SYNC a s q" for q
    using valid_nonnull [OF assms(2)] select_waiter_None [of a WAIT_SYNC s] by simp
  show ?thesis
  proof (cases "read_count (ref a) s < limit a s")
    case True
    then have "read_count (ref a) s + 1 \<le> limit a s"
      using unat_Suc_word [OF True] by (simp add: word_le_nat_alt word_less_nat_alt)
    from write_served [OF assms this nw] show ?thesis using True None by (auto simp: give_closed [OF assms])
  next
    case False
    then show ?thesis using None served_refl [OF assms(1)] by (auto simp: give_closed [OF assms])
  qed
next
  case (Some w)
  from woken_served [OF assms(1) select_waiter_Some(1) [OF Some]] show ?thesis
    using Some by (auto simp: give_closed [OF assms])
qed

end

lemma semaphores_served:
  assumes "caller p s"
  shows "\<exists>r s'. fr_binary_semaphore_take a t s = Ret r s' \<and> served p a WAIT_SYNC WAIT_SYNC is_semaphore s r s'"
    "\<exists>r s'. fr_binary_semaphore_give a s = Ret r s' \<and> served p a WAIT_SYNC WAIT_SYNC is_semaphore s (Returned r) s'"
    "\<exists>r s'. fr_counting_semaphore_take a t s = Ret r s' \<and> served p a WAIT_SYNC WAIT_SYNC is_semaphore s r s'"
    "\<exists>r s'. fr_counting_semaphore_give a s = Ret r s' \<and> served p a WAIT_SYNC WAIT_SYNC is_semaphore s (Returned r) s'"
  using binary.take_served [OF assms, of a t WAIT_SYNC] binary.give_served [OF assms, of a WAIT_SYNC]
    counting.take_served [OF assms, of a t WAIT_SYNC] counting.give_served [OF assms, of a WAIT_SYNC] served_refl [OF assms]
  by (auto simp: fr_binary_semaphore_take_def fr_binary_semaphore_give_def
      fr_counting_semaphore_take_def fr_counting_semaphore_give_def)


section \<open>Mutexes\<close>

fun is_mutex :: "kobj \<Rightarrow> bool" where
  "is_mutex (Mutex m) = True"
| "is_mutex _ = False"

lemma is_mutexE: "is_mutex ob \<Longrightarrow> (\<And>m. ob = Mutex m \<Longrightarrow> P) \<Longrightarrow> P"
  by (cases ob) auto

lemma no_mutex:
  assumes "caller p s" and "\<not> is_mutex (objects s a)"
  shows "fr_mutex_lock_section a to s = Ret (Returned False) s" "fr_mutex_unlock a s = Ret False s"
proof -
  note cf = caller_facts [OF assms(1)]
  obtain c where c: "fr_critical_enter s = (cpu_basepri (cpu s), s\<lparr>cpu := c\<rparr>)"
    "\<And>t. cpu t = cpu s \<Longrightarrow> fr_critical_exit (cpu_basepri (cpu s)) (t\<lparr>cpu := c\<rparr>) = t"
    using critical_section [of s] by blast
  have m: "\<not> mutex_magic_ok a s" using assms(2) by (cases "objects s a") (simp_all add: mutex_magic_ok_def)
  show "fr_mutex_lock_section a to s = Ret (Returned False) s" "fr_mutex_unlock a s = Ret False s"
    using cf(9,10) c(2) [of s] m
    by (simp_all add: fr_mutex_lock_section_def fr_mutex_unlock_def c(1) cpu_free mutex_context_allowed_eq)
qed

lemma lock_served:
  assumes "caller p s"
  shows "\<exists>r s'. fr_mutex_lock a t s = Ret r s' \<and> served p a WAIT_MUTEX WAIT_MUTEX is_mutex s r s' \<and>
    (mutex_owner a s' = mutex_owner a s \<or> mutex_owner a s = None \<and> mutex_owner a s' = Some p) \<and>
    (\<forall>q. q \<noteq> p \<longrightarrow> wview s' q = wview s q) \<and> (r = Returned True \<longrightarrow> mutex_owner a s' = Some p)"
proof (cases "a = 0 \<or> fr_wait_timeout_start t s = None")
  case True
  then have "fr_mutex_lock a t s = Ret (Returned False) s" by (auto simp: fr_mutex_lock_def)
  then show ?thesis using served_refl [OF assms] by auto
next
  case False
  note cf = caller_facts [OF assms]
  obtain to where to: "fr_wait_timeout_start t s = Some to" using False by auto
  have eq: "fr_mutex_lock a t s = fr_mutex_lock_section a to s"
    using False to cf(3) by (simp add: fr_mutex_lock_def mutex_context_allowed_eq)
  show ?thesis
  proof (cases "is_mutex (objects s a)")
    case False
    then show ?thesis using eq no_mutex(1) [OF assms False] served_refl [OF assms] by auto
  next
    case True
    then obtain m where m: "objects s a = Mutex m" by (rule is_mutexE)
    obtain r s' where rs: "fr_mutex_lock a t s = Ret r s'" "kernel_ok s'" "mutex_lock_post p a t s r s'"
      using lock_post [OF assms m, of t] False by blast
    note closed = lock_section_closed [OF assms m start_remaining [OF to]]
    have "served p a WAIT_MUTEX WAIT_MUTEX is_mutex s r s' \<and> (\<forall>q. q \<noteq> p \<longrightarrow> wview s' q = wview s q)"
    proof (cases "mx_owner m")
      case None
      then show ?thesis using closed eq rs(1,2) cf(4) m by (auto simp: served_def)
    next
      case (Some z)
      obtain f where f: "fr_mutex_inherit_priority_chain_locked (Some z) (prio s p) (suspended p WAIT_MUTEX a t s) =
          with_prio (suspended p WAIT_MUTEX a t s) f"
        by (rule inherit_chain_with_prio)
      show ?thesis
        using closed eq rs(1,2) Some cf(4) served_refl [OF assms] caller_not_created [OF assms]
        by (auto simp: served_def f settled_pending split: if_splits)
    qed
    then show ?thesis
      using rs by (auto simp: mutex_lock_post_def split: if_splits) (auto simp: mutex_owner_def)
  qed
qed

lemma unlock_served:
  assumes "caller p s"
  shows "\<exists>r s'. fr_mutex_unlock a s = Ret r s' \<and> served p a WAIT_MUTEX WAIT_MUTEX is_mutex s (Returned r) s' \<and>
    (mutex_owner a s' = mutex_owner a s \<or> mutex_owner a s = Some p) \<and>
    (\<forall>q. wview s' q = wview s q \<or> wview s' q = (None, RESULT_SIGNALED) \<and> mutex_owner a s' = Some q)"
proof (cases "a \<noteq> 0 \<and> is_mutex (objects s a)")
  case False
  then have "fr_mutex_unlock a s = Ret False s" using no_mutex(2) [OF assms, of a] by (auto simp: fr_mutex_unlock_def)
  then show ?thesis using served_refl [OF assms] by auto
next
  case True
  note cf = caller_facts [OF assms]
  obtain m where m: "objects s a = Mutex m" using True by (auto elim: is_mutexE)
  obtain r s' where rs: "fr_mutex_unlock a s = Ret r s'" "kernel_ok s'" "mutex_unlock_post p a s r s'"
    using unlock_post [OF assms m] True by blast
  note closed = unlock_closed [OF assms m conjunct1 [OF True]]
  have own: "mutex_owner a s = mx_owner m" by (simp add: mutex_owner_def m)
  show ?thesis
  proof (cases "mx_owner m = Some p")
    case False
    then show ?thesis using closed served_refl [OF assms] by auto
  next
    case mine: True
    show ?thesis
    proof (cases "fr_scheduler_select_waiter_locked WAIT_MUTEX a s")
      case None
      obtain f where f: "fr_mutex_recompute_priority_chain_locked (Some p) (set_object a (Mutex (m\<lparr>mx_owner := None\<rparr>)) s) =
          with_prio (set_object a (Mutex (m\<lparr>mx_owner := None\<rparr>)) s) f"
        by (rule recompute_chain_with_prio)
      have "mutex_waiters a s = {}"
        using select_waiter_None [of a WAIT_MUTEX s] True None by (auto simp: mutex_waiters_def)
      then have "tcb s' = tcb s" using rs(3) mine own by (simp add: mutex_unlock_post_def)
      then show ?thesis using closed rs(1,2) mine None own cf(4) m by (auto simp: served_def f)
    next
      case (Some w)
      let ?t = "woken w RESULT_SIGNALED (set_object a (Mutex (m\<lparr>mx_owner := Some w\<rparr>)) s)"
      obtain f where f: "fr_mutex_recompute_priority_chain_locked (Some p) ?t = with_prio ?t f"
        by (rule recompute_chain_with_prio)
      show ?thesis
        using closed rs(1,2) mine Some own cf(4,5) m select_waiter_Some(1) [OF Some]
          waiter_is_not_caller [OF assms select_waiter_Some(1) [OF Some]]
          waiting_not_created [OF select_waiter_Some(1) [OF Some]]
        by (auto simp: served_def f) (auto simp: mutex_owner_def)
    qed
  qed
qed


section \<open>Queues\<close>

fun is_queue :: "kobj \<Rightarrow> bool" where
  "is_queue (Queue q) = True"
| "is_queue _ = False"

lemma is_queueE: "is_queue ob \<Longrightarrow> (\<And>q. ob = Queue q \<Longrightarrow> P) \<Longrightarrow> P"
  by (cases ob) auto

lemma no_queue:
  assumes "caller p s" and "\<not> is_queue (objects s a)"
  shows "fr_queue_send_pass a item to s = Ret (Returned False) s"
    "fr_queue_receive_pass a item to s = Ret (Returned False) s"
proof -
  obtain c where c: "fr_critical_enter s = (cpu_basepri (cpu s), s\<lparr>cpu := c\<rparr>)"
    "\<And>t. cpu t = cpu s \<Longrightarrow> fr_critical_exit (cpu_basepri (cpu s)) (t\<lparr>cpu := c\<rparr>) = t"
    using critical_section [of s] by blast
  have ob: "objects (s\<lparr>cpu := c\<rparr>) a = objects s a" by simp
  show "fr_queue_send_pass a item to s = Ret (Returned False) s"
    unfolding fr_queue_send_pass_def c(1) Let_def prod.case ob
    using assms(2) by (cases "objects s a") (simp_all only: kobj.case c(2) [OF refl] is_queue.simps simp_thms)
  show "fr_queue_receive_pass a item to s = Ret (Returned False) s"
    unfolding fr_queue_receive_pass_def c(1) Let_def prod.case ob
    using assms(2) by (cases "objects s a") (simp_all only: kobj.case c(2) [OF refl] is_queue.simps simp_thms)
qed

lemma queue_ok_sent:
  assumes "queue_ok q" and "q_count q \<noteq> q_capacity q"
  shows "queue_ok (sent q)" "unat (q_count (sent q)) = Suc (unat (q_count q))"
proof -
  note ok = queue_okD [OF assms(1)]
  have lt: "q_count q < q_capacity q" using ok(6) assms(2) by simp
  then have cnt: "unat (q_count q + 1) = Suc (unat (q_count q))" by (rule unat_Suc_word)
  have pos: "unat (q_head q) < unat (q_capacity q)" "unat (q_count q) < unat (q_capacity q)"
    using ok(5) lt by (simp_all add: word_less_nat_alt)
  show "queue_ok (sent q)"
    using assms(1) queue_ring.ring_put(2) [OF pos ok(8)] cnt pos by (simp add: queue_ok_def sent_def word_le_nat_alt)
  show "unat (q_count (sent q)) = Suc (unat (q_count q))" by (simp add: sent_def cnt)
qed

lemma queue_ok_received:
  assumes "queue_ok q" and "q_count q \<noteq> 0"
  shows "queue_ok (received q)" "unat (q_count (received q)) = unat (q_count q) - 1"
proof -
  note ok = queue_okD [OF assms(1)]
  have cnt: "unat (q_count q - 1) = unat (q_count q) - 1" "unat (q_count q) \<noteq> 0"
    using assms(2) by (simp_all add: unat_minus_one unat_eq_0)
  have h: "unat (q_head q) < unat (q_capacity q)" using ok(5) by (simp add: word_less_nat_alt)
  show "queue_ok (received q)"
    using assms(1) queue_ring.ring_get(2) [OF h cnt(2)] cnt queue_ring.advance_less [OF h]
    by (auto simp: queue_ok_def received_def word_le_nat_alt word_less_nat_alt)
  show "unat (q_count (received q)) = unat (q_count q) - 1" by (simp add: received_def cnt)
qed

lemma queue_wake_served:
  assumes "caller p s" and "objects s a = Queue q" and "queue_ok q'" and "rw \<in> {WAIT_QUEUE_SEND, WAIT_QUEUE_RECEIVE}"
    and "a \<noteq> 0"
  shows "served p a rs rw is_queue s (Returned b) (queue_wake rw a (set_object a (Queue q') (set_ram m s)))"
proof -
  let ?t = "set_object a (Queue q') (set_ram m s)"
  note cf = caller_facts [OF assms(1)]
  have k: "kernel_ok ?t" by (rule kernel_ok_queue_write [OF cf(1) assms(2,3)])
  have "kernel_ok (queue_wake rw a ?t)"
    by (rule queue_wake_post(1) [OF assms(1) _ _ _ _ assms(5,4) k]) simp_all
  then show ?thesis
    using assms(2) cf(4,5) select_waiter_Some(1) [of rw a ?t] waiter_is_not_caller [OF assms(1), of rw a, symmetric]
      waiting_not_created [of rw a s]
    by (auto simp: served_def queue_wake_def split: option.splits)
qed

lemma queue_pass_served:
  assumes "caller p s" and "a \<noteq> 0"
  shows "\<exists>r s'. fr_queue_send_pass a item to s = Ret r s' \<and> served p a WAIT_QUEUE_SEND WAIT_QUEUE_RECEIVE is_queue s r s'"
    "\<exists>r s'. fr_queue_receive_pass a item to s = Ret r s' \<and> served p a WAIT_QUEUE_RECEIVE WAIT_QUEUE_SEND is_queue s r s'"
proof -
  note cf = caller_facts [OF assms(1)]
  obtain mo n where rem: "fr_wait_timeout_remaining to s = (mo, n)" by (cases "fr_wait_timeout_remaining to s")
  have "(\<exists>r s'. fr_queue_send_pass a item to s = Ret r s' \<and> served p a WAIT_QUEUE_SEND WAIT_QUEUE_RECEIVE is_queue s r s') \<and>
    (\<exists>r s'. fr_queue_receive_pass a item to s = Ret r s' \<and> served p a WAIT_QUEUE_RECEIVE WAIT_QUEUE_SEND is_queue s r s')"
  proof (cases "is_queue (objects s a)")
    case False
    then show ?thesis using no_queue [OF assms(1) False] served_refl [OF assms(1)] by auto
  next
    case True
    then obtain q where q: "objects s a = Queue q" by (rule is_queueE)
    have qok: "queue_ok q" by (rule queue_object_ok [OF cf(2) q])
    have "\<exists>r s'. fr_queue_send_pass a item to s = Ret r s' \<and> served p a WAIT_QUEUE_SEND WAIT_QUEUE_RECEIVE is_queue s r s'"
      using send_pass_closed [OF assms(1) q rem, of item] queue_wake_served [OF assms(1) q queue_ok_sent(1) [OF qok] _ assms(2)]
        served_refl [OF assms(1)] served_suspended [OF assms(1) suspended_post(1) [OF assms(1) q]] by auto
    moreover have "\<exists>r s'. fr_queue_receive_pass a item to s = Ret r s' \<and> served p a WAIT_QUEUE_RECEIVE WAIT_QUEUE_SEND is_queue s r s'"
      using receive_pass_closed [OF assms(1) q rem, of item] queue_wake_served [OF assms(1) q queue_ok_received(1) [OF qok] _ assms(2)]
        served_refl [OF assms(1)] served_suspended [OF assms(1) suspended_post(1) [OF assms(1) q]] by auto
    ultimately show ?thesis by blast
  qed
  then show "\<exists>r s'. fr_queue_send_pass a item to s = Ret r s' \<and> served p a WAIT_QUEUE_SEND WAIT_QUEUE_RECEIVE is_queue s r s'"
    "\<exists>r s'. fr_queue_receive_pass a item to s = Ret r s' \<and> served p a WAIT_QUEUE_RECEIVE WAIT_QUEUE_SEND is_queue s r s'"
    by blast+
qed


section \<open>Event flags\<close>

fun is_flags :: "kobj \<Rightarrow> bool" where
  "is_flags (EventFlags f) = True"
| "is_flags _ = False"

lemma is_flagsE: "is_flags ob \<Longrightarrow> (\<And>f. ob = EventFlags f \<Longrightarrow> P) \<Longrightarrow> P"
  by (cases ob) auto

lemma no_flags:
  assumes "caller p s" and "\<not> is_flags (objects s a)"
  shows "fr_event_flags_set a b s = Ret False s" "fr_event_flags_clear a b s = (False, s)"
    "fr_event_flags_get a out s = (False, s)"
    "fr_event_flags_wait_section a m al cl to out s = Ret (Returned False) s"
proof -
  note cf = caller_facts [OF assms(1)]
  obtain c where c: "fr_critical_enter s = (cpu_basepri (cpu s), s\<lparr>cpu := c\<rparr>)"
    "\<And>t. cpu t = cpu s \<Longrightarrow> fr_critical_exit (cpu_basepri (cpu s)) (t\<lparr>cpu := c\<rparr>) = t"
    using critical_section [of s] by blast
  have m: "\<not> event_magic_ok a s" using assms(2) by (cases "objects s a") (simp_all add: event_magic_ok_def)
  show "fr_event_flags_set a b s = Ret False s" "fr_event_flags_clear a b s = (False, s)"
    "fr_event_flags_get a out s = (False, s)"
    "fr_event_flags_wait_section a m al cl to out s = Ret (Returned False) s"
    using cf(9) c(2) [of s] m
    by (simp_all add: fr_event_flags_set_def fr_event_flags_clear_def fr_event_flags_get_def
        fr_event_flags_wait_section_def c(1) cpu_free)
qed

lemma served_write_result:
  assumes "caller p s"
  shows "served p a rs rw K s (Returned b) (write_result out v s)"
  using kernel_ok_write_result [OF caller_facts(1) [OF assms]] caller_facts(4) [OF assms] by (simp add: served_def)

lemma set_flags_served:
  assumes "caller p s"
  shows "\<exists>r s'. fr_event_flags_set a b s = Ret r s' \<and> served p a WAIT_EVENT_FLAGS WAIT_EVENT_FLAGS is_flags s (Returned r) s'"
proof (cases "a \<noteq> 0 \<and> b \<noteq> 0 \<and> is_flags (objects s a)")
  case False
  then have "fr_event_flags_set a b s = Ret False s" using no_flags(1) [OF assms, of a b] by (auto simp: fr_event_flags_set_def)
  then show ?thesis using served_refl [OF assms] by blast
next
  case True
  then obtain f where f: "objects s a = EventFlags f" by (auto elim: is_flagsE)
  obtain s' where s': "fr_event_flags_set a b s = Ret True s'" "kernel_ok s'" "event_set_post a b s s'"
    "cpu s' = cpu s" "g_fr_task_count s' = g_fr_task_count s"
    "g_fr_scheduler_current_task s' = g_fr_scheduler_current_task s"
    "g_fr_scheduler_running s' = g_fr_scheduler_running s" "g_fr_kernel_tick_count s' = g_fr_kernel_tick_count s"
    "\<exists>g. objects s' a = EventFlags g" "tcb s' = tcb s \<or> settled s'"
    "\<And>q. met a (event_bits a s OR b) s q \<Longrightarrow> tcb s' q = tcb (signalled (event_bits a s OR b) q s) q"
    using set_post [OF assms f] True by blast
  have "wview s' q = wview s q \<or> waiting WAIT_EVENT_FLAGS a s q \<and> wview s' q = (None, RESULT_SIGNALED)" for q
  proof (cases "met a (event_bits a s OR b) s q")
    case True
    then have "task_state (tcb s' q) = STATE_READY" "wait_result (tcb s' q) = RESULT_SIGNALED" "waiting WAIT_EVENT_FLAGS a s q"
      using event_set_postD(1,2) [OF s'(3)] by (auto simp: met_def)
    then show ?thesis by (simp add: wview_def blocked_on_def)
  next
    case False
    then show ?thesis using wview_cong [OF event_set_postD(4) [OF s'(3)]] by simp
  qed
  moreover have "objects s' x \<noteq> objects s x \<longrightarrow> x = a \<and> is_flags (objects s x) \<and> is_flags (objects s' x)" for x
    using event_set_postD(5) [OF s'(3), of x] f s'(9) by (cases "x = a") auto
  moreover have "timely s s'"
    unfolding timely_def using event_set_postD(1,4) [OF s'(3)] by metis
  moreover have "steady s s'"
  proof -
    have "fixed (tcb s' q) = fixed (tcb s q) \<and> (task_state (tcb s' q) = STATE_CREATED \<longleftrightarrow> task_state (tcb s q) = STATE_CREATED)" for q
    proof (cases "met a (event_bits a s OR b) s q")
      case True
      then show ?thesis
        using s'(11) [OF True] event_set_postD(1) [OF s'(3) True] by (auto simp: fixed_def wake_task_def signalled_def met_def waiting_def)
    next
      case False
      then show ?thesis using event_set_postD(4) [OF s'(3)] by simp
    qed
    then show ?thesis by (simp add: steady_def)
  qed
  moreover have "Returned True \<noteq> Suspended" by simp
  ultimately have "served p a WAIT_EVENT_FLAGS WAIT_EVENT_FLAGS is_flags s (Returned True) s'"
    unfolding served_def using s'(2,4,6,8,10) s'(7) caller_facts(4) [OF assms] registered_cong [OF s'(5)] by blast
  then show ?thesis using s'(1) by blast
qed

lemma wview_event_suspended [simp]:
  "wview (event_suspended p a m al cl n s) = (wview s)(p := (Some (WAIT_EVENT_FLAGS, a), RESULT_PENDING))"
  by (simp add: wview_def blocked_on_def fun_eq_iff)

lemma event_suspended_frame [simp]:
  "objects (event_suspended p a m al cl n s) = objects s" "cpu (event_suspended p a m al cl n s) = cpu s"
  "registered (event_suspended p a m al cl n s) = registered s" "pendsv_pending (event_suspended p a m al cl n s)"
  "g_fr_scheduler_current_task (event_suspended p a m al cl n s) = g_fr_scheduler_current_task s"
  "g_fr_scheduler_running (event_suspended p a m al cl n s) = g_fr_scheduler_running s"
  "g_fr_kernel_tick_count (event_suspended p a m al cl n s) = g_fr_kernel_tick_count s"
  by (simp_all add: event_suspended_def)

lemma wait_flags_served:
  assumes "caller p s"
  shows "\<exists>r s'. fr_event_flags_wait a m al cl t out s = Ret r s' \<and>
           served p a WAIT_EVENT_FLAGS WAIT_EVENT_FLAGS is_flags s r s'"
proof (cases "a \<noteq> 0 \<and> m \<noteq> 0 \<and> fr_wait_timeout_start t (write_result out 0 s) \<noteq> None \<and> is_flags (objects s a)")
  case False
  let ?s = "write_result out 0 s"
  have c: "caller p ?s" by (rule caller_write_result [OF assms])
  have "fr_event_flags_wait a m al cl t out s = Ret (Returned False) ?s"
    using False no_flags(4) [OF c, of a m al cl _ out]
    by (auto simp: fr_event_flags_wait_def Let_def split: option.splits)
  then show ?thesis using served_write_result [OF assms] by blast
next
  case True
  let ?s = "write_result out 0 s"
  obtain f where f: "objects ?s a = EventFlags f" using True by (auto elim: is_flagsE)
  have c: "caller p ?s" by (rule caller_write_result [OF assms])
  obtain to where to: "fr_wait_timeout_start t ?s = Some to" using True by auto
  have eq: "fr_event_flags_wait a m al cl t out s = fr_event_flags_wait_section a m al cl to out ?s"
    using to True caller_facts(3) [OF c] by (simp add: fr_event_flags_wait_def event_context_allowed_eq)
  have args: "t \<noteq> 0 \<longrightarrow> wait_args_ok WAIT_EVENT_FLAGS a t"
    using start_remaining_args [OF to _ _, of a WAIT_EVENT_FLAGS] True by auto
  obtain r s' where rs: "fr_event_flags_wait a m al cl t out s = Ret r s'" "kernel_ok s'"
    using wait_post [OF assms, of a f m al cl t out] f True by auto
  have "served p a WAIT_EVENT_FLAGS WAIT_EVENT_FLAGS is_flags s r s'"
    using wait_section_closed [OF c f start_remaining [OF to] args, of m al cl out] rs eq True args caller_facts(4) [OF assms]
      caller_not_created [OF assms]
    by (auto simp: served_def settled_pending split: if_splits)
  then show ?thesis using rs(1) by blast
qed

lemma clear_get_served:
  assumes "caller p s"
  shows "served p a WAIT_EVENT_FLAGS WAIT_EVENT_FLAGS is_flags s (Returned (fst (fr_event_flags_clear a b s))) (snd (fr_event_flags_clear a b s))"
    "served p a WAIT_EVENT_FLAGS WAIT_EVENT_FLAGS is_flags s (Returned (fst (fr_event_flags_get a out s))) (snd (fr_event_flags_get a out s))"
proof -
  have "fr_event_flags_clear a b s = (False, s) \<or> (\<exists>f v. objects s a = EventFlags f \<and>
      fr_event_flags_clear a b s = (True, set_object a (EventFlags (f\<lparr>ef_bits := v\<rparr>)) s) \<and>
      kernel_ok (set_object a (EventFlags (f\<lparr>ef_bits := v\<rparr>)) s))"
    using no_flags(2) [OF assms, of a b] clear_closed [OF assms, of a _ b]
    by (cases "a \<noteq> 0 \<and> b \<noteq> 0 \<and> is_flags (objects s a)") (auto simp: fr_event_flags_clear_def elim!: is_flagsE)
  then show "served p a WAIT_EVENT_FLAGS WAIT_EVENT_FLAGS is_flags s (Returned (fst (fr_event_flags_clear a b s))) (snd (fr_event_flags_clear a b s))"
    using served_refl [OF assms] served_set_object [OF assms, of a _ is_flags] by auto
  have "fr_event_flags_get a out s = (False, s) \<or> (\<exists>v. fr_event_flags_get a out s = (True, write_result out v s))"
    using no_flags(3) [OF assms, of a out] get_closed [OF assms, of a _ out]
    by (cases "a \<noteq> 0 \<and> out \<noteq> 0 \<and> is_flags (objects s a)") (auto simp: fr_event_flags_get_def elim!: is_flagsE)
  then show "served p a WAIT_EVENT_FLAGS WAIT_EVENT_FLAGS is_flags s (Returned (fst (fr_event_flags_get a out s))) (snd (fr_event_flags_get a out s))"
    using served_refl [OF assms] served_write_result [OF assms] by auto
qed


section \<open>All services\<close>

fun target :: "service \<Rightarrow> u32" where
  "target Yield = 0"
| "target (Sleep d) = 0"
| "target (TakeBinary a t) = a"
| "target (GiveBinary a) = a"
| "target (TakeCounting a t) = a"
| "target (GiveCounting a) = a"
| "target (Lock a t) = a"
| "target (Unlock a) = a"
| "target (Send a item t) = a"
| "target (Receive a item t) = a"
| "target (SetFlags a b) = a"
| "target (ClearFlags a b) = a"
| "target (GetFlags a out) = a"
| "target (WaitFlags a m al cl t out) = a"

fun suspends_with :: "service \<Rightarrow> fr_wait_reason" where
  "suspends_with Yield = WAIT_SLEEP"
| "suspends_with (Sleep d) = WAIT_SLEEP"
| "suspends_with (TakeBinary a t) = WAIT_SYNC"
| "suspends_with (GiveBinary a) = WAIT_SYNC"
| "suspends_with (TakeCounting a t) = WAIT_SYNC"
| "suspends_with (GiveCounting a) = WAIT_SYNC"
| "suspends_with (Lock a t) = WAIT_MUTEX"
| "suspends_with (Unlock a) = WAIT_MUTEX"
| "suspends_with (Send a item t) = WAIT_QUEUE_SEND"
| "suspends_with (Receive a item t) = WAIT_QUEUE_RECEIVE"
| "suspends_with (SetFlags a b) = WAIT_EVENT_FLAGS"
| "suspends_with (ClearFlags a b) = WAIT_EVENT_FLAGS"
| "suspends_with (GetFlags a out) = WAIT_EVENT_FLAGS"
| "suspends_with (WaitFlags a m al cl t out) = WAIT_EVENT_FLAGS"

fun opposite :: "fr_wait_reason \<Rightarrow> fr_wait_reason" where
  "opposite WAIT_QUEUE_SEND = WAIT_QUEUE_RECEIVE"
| "opposite WAIT_QUEUE_RECEIVE = WAIT_QUEUE_SEND"
| "opposite WAIT_SLEEP = WAIT_NONE"
| "opposite r = r"

fun kind_of :: "fr_wait_reason \<Rightarrow> kobj \<Rightarrow> bool" where
  "kind_of WAIT_SYNC ob = is_semaphore ob"
| "kind_of WAIT_MUTEX ob = is_mutex ob"
| "kind_of WAIT_QUEUE_SEND ob = is_queue ob"
| "kind_of WAIT_QUEUE_RECEIVE ob = is_queue ob"
| "kind_of WAIT_EVENT_FLAGS ob = is_flags ob"
| "kind_of _ ob = False"

text \<open>
  A service that waits with reason \<open>r\<close> wakes tasks waiting with the same reason, or with the opposite one
  for queues, and writes objects of the kind that goes with the reason. No service wakes a sleeper.
\<close>

abbreviation serves :: "task_ptr \<Rightarrow> u32 \<Rightarrow> fr_wait_reason \<Rightarrow> kernel \<Rightarrow> bool call \<Rightarrow> kernel \<Rightarrow> bool" where
  "serves p a r \<equiv> served p a r (opposite r) (kind_of r)"

lemma kind_of_eta:
  "kind_of WAIT_SYNC = is_semaphore" "kind_of WAIT_MUTEX = is_mutex" "kind_of WAIT_QUEUE_SEND = is_queue"
  "kind_of WAIT_QUEUE_RECEIVE = is_queue" "kind_of WAIT_EVENT_FLAGS = is_flags"
  by (simp_all add: fun_eq_iff)

lemma wait_never_none: "fr_queue_send_wait a item t s = Ret r s' \<Longrightarrow> r = Suspended \<Longrightarrow> a \<noteq> 0"
  "fr_queue_receive_wait a item t s = Ret r s' \<Longrightarrow> r = Suspended \<Longrightarrow> a \<noteq> 0"
  by (auto simp: fr_queue_send_wait_def fr_queue_receive_wait_def)

lemma queue_wait_served:
  assumes "caller p s"
  shows "\<exists>r s'. fr_queue_send_wait a item t s = Ret r s' \<and> serves p a WAIT_QUEUE_SEND s r s'"
    "\<exists>r s'. fr_queue_receive_wait a item t s = Ret r s' \<and> serves p a WAIT_QUEUE_RECEIVE s r s'"
  using queue_pass_served [OF assms, of a item] served_refl [OF assms]
  by (auto simp: fr_queue_send_wait_def fr_queue_receive_wait_def kind_of_eta split: option.splits)

lemma exec_served:
  assumes "caller p s"
  shows "\<exists>r s'. exec op s = Ret r s' \<and> serves p (target op) (suspends_with op) s r s'"
proof (cases op)
  case Yield
  then show ?thesis using yield_served [OF assms] by simp
next
  case (Sleep d)
  then show ?thesis using sleep_served [OF assms] by simp
next
  case (TakeBinary a t)
  then show ?thesis using semaphores_served(1) [OF assms] by (simp add: kind_of_eta)
next
  case (GiveBinary a)
  then show ?thesis using semaphores_served(2) [OF assms, of a] by (auto simp: kind_of_eta)
next
  case (TakeCounting a t)
  then show ?thesis using semaphores_served(3) [OF assms] by (simp add: kind_of_eta)
next
  case (GiveCounting a)
  then show ?thesis using semaphores_served(4) [OF assms, of a] by (auto simp: kind_of_eta)
next
  case (Lock a t)
  then show ?thesis using lock_served [OF assms, of a t] by (auto simp: kind_of_eta)
next
  case (Unlock a)
  then show ?thesis using unlock_served [OF assms, of a] by (auto simp: kind_of_eta)
next
  case (Send a item t)
  then show ?thesis using queue_wait_served(1) [OF assms] by simp
next
  case (Receive a item t)
  then show ?thesis using queue_wait_served(2) [OF assms] by simp
next
  case (SetFlags a b)
  then show ?thesis using set_flags_served [OF assms, of a b] by (auto simp: kind_of_eta)
next
  case (ClearFlags a b)
  then show ?thesis using clear_get_served(1) [OF assms, of a b] by (simp add: kind_of_eta split_beta)
next
  case (GetFlags a out)
  then show ?thesis using clear_get_served(2) [OF assms, of a out] by (simp add: kind_of_eta split_beta)
next
  case (WaitFlags a m al cl t out)
  then show ?thesis using wait_flags_served [OF assms] by (simp add: kind_of_eta)
qed

text \<open>Only blocking services suspend, and the continuation records what the task waits for.\<close>

lemma exec_suspended:
  assumes "exec op s = Ret Suspended s'"
  shows "wait_of (continuation_of op s) = (suspends_with op, target op)"
proof -
  have "returns x \<noteq> Ret Suspended s'" for x by (cases x) simp_all
  then show ?thesis using assms by (cases op) (auto split: prod.splits)
qed

lemma resume_served:
  assumes "caller p s" and "fst (wait_of x) \<in> {WAIT_QUEUE_SEND, WAIT_QUEUE_RECEIVE} \<longrightarrow> snd (wait_of x) \<noteq> 0"
  shows "\<exists>r s'. resume x p s = Ret r s' \<and> serves p (snd (wait_of x)) (fst (wait_of x)) s r s'"
proof (cases x)
  case (AfterSend a item to)
  then show ?thesis
    using queue_pass_served(1) [OF assms(1), of a item to] assms(2) served_refl [OF assms(1)]
    by (auto simp: fr_queue_send_resume_def kind_of_eta)
next
  case (AfterReceive a item to)
  then show ?thesis
    using queue_pass_served(2) [OF assms(1), of a item to] assms(2) served_refl [OF assms(1)]
    by (auto simp: fr_queue_receive_resume_def kind_of_eta)
next
  case (AfterWait a out)
  then show ?thesis
    using served_write_result [OF assms(1)] served_refl [OF assms(1)]
    by (auto simp: fr_event_flags_wait_resume_def kind_of_eta)
qed (use served_refl [OF assms(1)] in auto)

text \<open>
  Ownership. A mutex gets the caller as its owner only by lock and loses it only by the caller's own
  unlock; a task that is signalled while it waits for a mutex owns it.
\<close>

lemma kind_not_mutex: "kind_of r ob \<Longrightarrow> r \<noteq> WAIT_MUTEX \<Longrightarrow> mutex_owner_of ob = None"
  by (cases r; cases ob) (simp_all add: is_semaphore_def sem_tokens_def)

lemma served_not_mutex:
  assumes "serves p a r s x s'" and "r \<noteq> WAIT_MUTEX"
  shows "mutex_owner b s' = mutex_owner b s"
proof (cases "objects s' b = objects s b")
  case False
  then have "kind_of r (objects s b)" "kind_of r (objects s' b)" using assms(1) by (auto simp: served_def)
  then show ?thesis using kind_not_mutex assms(2) by (simp add: mutex_owner_eq)
qed (simp add: mutex_owner_def)

lemma exec_mutex:
  assumes "caller p s" and "exec op s = Ret r s'"
  shows "mutex_owner b s' = mutex_owner b s \<or> mutex_owner b s = None \<and> mutex_owner b s' = Some p \<and> (\<exists>t. op = Lock b t) \<or>
      mutex_owner b s = Some p \<and> op = Unlock b"
    "waiting WAIT_MUTEX b s q \<Longrightarrow> wview s' q \<noteq> wview s q \<Longrightarrow> mutex_owner b s' = Some q"
proof -
  have sv: "serves p (target op) (suspends_with op) s r s'" using exec_served [OF assms(1), of op] assms(2) by auto
  have other: "mutex_owner b s' = mutex_owner b s" if "b \<noteq> target op \<or> suspends_with op \<noteq> WAIT_MUTEX"
    using that served_not_mutex [OF sv] served_objects [OF sv, of b] by (auto simp: mutex_owner_eq)
  have np: "q \<noteq> p" if "waiting WAIT_MUTEX b s q"
    using that caller_facts(11) [OF assms(1)] by (auto simp: waiting_def)
  show "mutex_owner b s' = mutex_owner b s \<or> mutex_owner b s = None \<and> mutex_owner b s' = Some p \<and> (\<exists>t. op = Lock b t) \<or>
      mutex_owner b s = Some p \<and> op = Unlock b"
  proof (cases "suspends_with op = WAIT_MUTEX \<and> target op = b")
    case False
    then show ?thesis using other by auto
  next
    case True
    then consider t where "op = Lock b t" | "op = Unlock b" by (cases op) auto
    then show ?thesis
    proof cases
      case (1 t)
      then show ?thesis using lock_served [OF assms(1), of b t] assms(2) by auto
    next
      case 2
      then show ?thesis using unlock_served [OF assms(1), of b] assms(2) by auto
    qed
  qed
  show "mutex_owner b s' = Some q" if w: "waiting WAIT_MUTEX b s q" and "wview s' q \<noteq> wview s q"
  proof -
    have "waiting (opposite (suspends_with op)) (target op) s q" using sv that(2) np [OF w] by (auto simp: served_def)
    then have "opposite (suspends_with op) = WAIT_MUTEX" "target op = b" using w by (auto simp: waiting_def)
    moreover have "op \<noteq> Lock b t" for t
      using lock_served [OF assms(1), of b t] assms(2) that(2) np [OF w] by auto
    ultimately have "op = Unlock b" by (cases op) auto
    then show ?thesis using unlock_served [OF assms(1), of b] assms(2) that(2) by auto
  qed
qed

end
