(* ===== verification/Peripherals.thy ===== *)
theory Peripherals
  imports Critical_Sections
begin

text \<open>
  The hardware-facing code around the kernel: SysTick configuration (\<open>port/cortex_m4/systick.c\<close>), fault
  capture (\<open>port/cortex_m4/fault.c\<close> and the fault entries of \<open>portasm.S\<close>), the boot snapshot
  (\<open>port/cortex_m4/cortex_m4.c\<close>), the SVC dispatch and the board's LED (\<open>bsp/stm32f446re/board.c\<close>).

  Memory-mapped registers are a function from addresses to words: a write sets the word, a read returns
  the last word written. The System Handler Priority Register 3 is the kernel state's \<open>scb_shpr3\<close>,
  which PendSV and SysTick share.
\<close>

type_synonym mmio = "u32 \<Rightarrow> u32"


section \<open>SysTick\<close>

definition SYSTICK_CTRL :: u32 where [simp]: "SYSTICK_CTRL = 0xE000E010"
definition SYSTICK_LOAD :: u32 where [simp]: "SYSTICK_LOAD = 0xE000E014"
definition SYSTICK_VAL :: u32 where [simp]: "SYSTICK_VAL = 0xE000E018"
definition FR_SYSTICK_CTRL_ENABLE :: u32 where [simp]: "FR_SYSTICK_CTRL_ENABLE = push_bit 0 1"
definition FR_SYSTICK_CTRL_TICKINT :: u32 where [simp]: "FR_SYSTICK_CTRL_TICKINT = push_bit 1 1"
definition FR_SYSTICK_CTRL_CLKSOURCE :: u32 where [simp]: "FR_SYSTICK_CTRL_CLKSOURCE = push_bit 2 1"
definition FR_SYSTICK_RELOAD_MAX :: u32 where [simp]: "FR_SYSTICK_RELOAD_MAX = 0x00FFFFFF"
definition FR_SYSTICK_MAX_COUNTER_CYCLES :: u32 where [simp]: "FR_SYSTICK_MAX_COUNTER_CYCLES = FR_SYSTICK_RELOAD_MAX + 1"
definition FR_SCB_SHPR3_SYSTICK_SHIFT :: nat where [simp]: "FR_SCB_SHPR3_SYSTICK_SHIFT = 24"
definition FR_SCB_SHPR3_SYSTICK_MASK :: u32 where
  [simp]: "FR_SCB_SHPR3_SYSTICK_MASK = push_bit FR_SCB_SHPR3_SYSTICK_SHIFT 0xFF"

definition fr_systick_set_priority :: "u32 \<Rightarrow> kernel \<Rightarrow> kernel" where
  "fr_systick_set_priority logical_priority s =
     (let encoded_priority = FR_CORTEX_M4_ENCODE_PRIORITY logical_priority;
          shpr3 = scb_shpr3 s;
          shpr3 = shpr3 AND NOT FR_SCB_SHPR3_SYSTICK_MASK;
          shpr3 = shpr3 OR push_bit FR_SCB_SHPR3_SYSTICK_SHIFT encoded_priority
      in s\<lparr>scb_shpr3 := shpr3\<rparr>)"

definition fr_systick_init :: "u32 \<Rightarrow> u32 \<Rightarrow> kernel \<Rightarrow> mmio \<Rightarrow> bool \<times> kernel \<times> mmio" where
  "fr_systick_init core_clock_hz tick_hz s m =
     (if core_clock_hz = 0 \<or> tick_hz = 0 then (False, s, m)
      else if core_clock_hz mod tick_hz \<noteq> 0 then (False, s, m)
      else let cycles_per_tick = core_clock_hz div tick_hz
           in if cycles_per_tick = 0 \<or> cycles_per_tick > FR_SYSTICK_MAX_COUNTER_CYCLES then (False, s, m)
              else let m = m(SYSTICK_CTRL := 0);
                       s = fr_systick_set_priority FR_CONFIG_KERNEL_INTERRUPT_CEILING s;
                       m = m(SYSTICK_LOAD := cycles_per_tick - 1);
                       m = m(SYSTICK_VAL := 0);
                       m = m(SYSTICK_CTRL := FR_SYSTICK_CTRL_CLKSOURCE OR FR_SYSTICK_CTRL_TICKINT OR
                              FR_SYSTICK_CTRL_ENABLE)
                   in (True, s, m))"

text \<open>The priority byte of an exception in SHPR3: PendSV at bit 16, SysTick at bit 24.\<close>

definition shpr3_byte :: "nat \<Rightarrow> kernel \<Rightarrow> u32" where
  "shpr3_byte n s = drop_bit n (scb_shpr3 s) AND 0xFF"


section \<open>Faults\<close>

definition FR_SCB_ICSR :: u32 where [simp]: "FR_SCB_ICSR = 0xE000ED04"
definition FR_SCB_SHCSR :: u32 where [simp]: "FR_SCB_SHCSR = 0xE000ED24"
definition FR_SCB_CFSR :: u32 where [simp]: "FR_SCB_CFSR = 0xE000ED28"
definition FR_SCB_HFSR :: u32 where [simp]: "FR_SCB_HFSR = 0xE000ED2C"
definition FR_SCB_MMFAR :: u32 where [simp]: "FR_SCB_MMFAR = 0xE000ED34"
definition FR_SCB_BFAR :: u32 where [simp]: "FR_SCB_BFAR = 0xE000ED38"
definition FR_SCB_SHCSR_MEMFAULTENA :: u32 where [simp]: "FR_SCB_SHCSR_MEMFAULTENA = push_bit 16 1"
definition FR_SCB_SHCSR_BUSFAULTENA :: u32 where [simp]: "FR_SCB_SHCSR_BUSFAULTENA = push_bit 17 1"
definition FR_SCB_SHCSR_USGFAULTENA :: u32 where [simp]: "FR_SCB_SHCSR_USGFAULTENA = push_bit 18 1"
definition FR_CFSR_MSTKERR :: u32 where [simp]: "FR_CFSR_MSTKERR = push_bit 4 1"
definition FR_CFSR_MMARVALID :: u32 where [simp]: "FR_CFSR_MMARVALID = push_bit 7 1"
definition FR_CFSR_STKERR :: u32 where [simp]: "FR_CFSR_STKERR = push_bit 12 1"
definition FR_CFSR_BFARVALID :: u32 where [simp]: "FR_CFSR_BFARVALID = push_bit 15 1"
definition FR_CFSR_STACKING_ERROR_MASK :: u32 where
  [simp]: "FR_CFSR_STACKING_ERROR_MASK = FR_CFSR_MSTKERR OR FR_CFSR_STKERR"
definition FR_FAULT_RECORD_MAGIC :: u32 where [simp]: "FR_FAULT_RECORD_MAGIC = 0x46524654"

record fr_exception_frame =
  ef_r0 :: u32
  ef_r1 :: u32
  ef_r2 :: u32
  ef_r3 :: u32
  ef_r12 :: u32
  ef_lr :: u32
  ef_pc :: u32
  ef_xpsr :: u32

record fr_fault_record =
  fr_magic :: u32
  fr_kind :: u32
  fr_exception_return :: u32
  fr_stack_pointer :: u32
  fr_frame_valid :: u32
  fr_frame :: fr_exception_frame
  fr_cfsr :: u32
  fr_hfsr :: u32
  fr_shcsr :: u32
  fr_icsr :: u32
  fr_mmfar :: u32
  fr_bfar :: u32
  fr_mmfar_valid :: u32
  fr_bfar_valid :: u32

definition fr_fault_init :: "mmio \<Rightarrow> mmio" where
  "fr_fault_init m = m(FR_SCB_SHCSR := m FR_SCB_SHCSR OR
     (FR_SCB_SHCSR_MEMFAULTENA OR FR_SCB_SHCSR_BUSFAULTENA OR FR_SCB_SHCSR_USGFAULTENA))"

text \<open>
  The fault record is volatile and read by a debugger or by the monitor, so the order of the stores
  matters: every function below is the list of its stores to the record.
\<close>

type_synonym fault_store = "fr_fault_record \<Rightarrow> fr_fault_record"

definition frame_store :: "(fr_exception_frame \<Rightarrow> fr_exception_frame) \<Rightarrow> fault_store" where
  "frame_store f r = r\<lparr>fr_frame := f (fr_frame r)\<rparr>"

definition fr_fault_clear_frame :: "fault_store list" where
  "fr_fault_clear_frame = map frame_store
     [\<lambda>e. e\<lparr>ef_r0 := 0\<rparr>, \<lambda>e. e\<lparr>ef_r1 := 0\<rparr>, \<lambda>e. e\<lparr>ef_r2 := 0\<rparr>, \<lambda>e. e\<lparr>ef_r3 := 0\<rparr>, \<lambda>e. e\<lparr>ef_r12 := 0\<rparr>,
      \<lambda>e. e\<lparr>ef_lr := 0\<rparr>, \<lambda>e. e\<lparr>ef_pc := 0\<rparr>, \<lambda>e. e\<lparr>ef_xpsr := 0\<rparr>]"

definition fr_fault_capture_frame :: "u32 \<Rightarrow> (u32 \<Rightarrow> u8) \<Rightarrow> fault_store list" where
  "fr_fault_capture_frame frame mem = map frame_store
     [\<lambda>e. e\<lparr>ef_r0 := load32 mem (word_at frame 0)\<rparr>, \<lambda>e. e\<lparr>ef_r1 := load32 mem (word_at frame 1)\<rparr>,
      \<lambda>e. e\<lparr>ef_r2 := load32 mem (word_at frame 2)\<rparr>, \<lambda>e. e\<lparr>ef_r3 := load32 mem (word_at frame 3)\<rparr>,
      \<lambda>e. e\<lparr>ef_r12 := load32 mem (word_at frame 4)\<rparr>, \<lambda>e. e\<lparr>ef_lr := load32 mem (word_at frame 5)\<rparr>,
      \<lambda>e. e\<lparr>ef_pc := load32 mem (word_at frame 6)\<rparr>, \<lambda>e. e\<lparr>ef_xpsr := load32 mem (word_at frame 7)\<rparr>]"

definition fr_fault_handle_c :: "u32 \<Rightarrow> u32 \<Rightarrow> u32 \<Rightarrow> mmio \<Rightarrow> (u32 \<Rightarrow> u8) \<Rightarrow> fault_store list" where
  "fr_fault_handle_c stack_pointer exception_return fault_kind m mem =
     (let cfsr = m FR_SCB_CFSR;
          frame_valid = (if cfsr AND FR_CFSR_STACKING_ERROR_MASK = 0 \<and> stack_pointer \<noteq> 0 then 1 else 0)
      in [\<lambda>r. r\<lparr>fr_magic := 0\<rparr>, \<lambda>r. r\<lparr>fr_kind := fault_kind\<rparr>, \<lambda>r. r\<lparr>fr_exception_return := exception_return\<rparr>,
          \<lambda>r. r\<lparr>fr_stack_pointer := stack_pointer\<rparr>, \<lambda>r. r\<lparr>fr_cfsr := cfsr\<rparr>, \<lambda>r. r\<lparr>fr_hfsr := m FR_SCB_HFSR\<rparr>,
          \<lambda>r. r\<lparr>fr_shcsr := m FR_SCB_SHCSR\<rparr>, \<lambda>r. r\<lparr>fr_icsr := m FR_SCB_ICSR\<rparr>, \<lambda>r. r\<lparr>fr_frame_valid := frame_valid\<rparr>] @
         (if frame_valid \<noteq> 0 then fr_fault_capture_frame stack_pointer mem else fr_fault_clear_frame) @
         (if cfsr AND FR_CFSR_MMARVALID \<noteq> 0
          then [\<lambda>r. r\<lparr>fr_mmfar := m FR_SCB_MMFAR\<rparr>, \<lambda>r. r\<lparr>fr_mmfar_valid := 1\<rparr>]
          else [\<lambda>r. r\<lparr>fr_mmfar := 0\<rparr>, \<lambda>r. r\<lparr>fr_mmfar_valid := 0\<rparr>]) @
         (if cfsr AND FR_CFSR_BFARVALID \<noteq> 0
          then [\<lambda>r. r\<lparr>fr_bfar := m FR_SCB_BFAR\<rparr>, \<lambda>r. r\<lparr>fr_bfar_valid := 1\<rparr>]
          else [\<lambda>r. r\<lparr>fr_bfar := 0\<rparr>, \<lambda>r. r\<lparr>fr_bfar_valid := 0\<rparr>]) @
         [\<lambda>r. r\<lparr>fr_magic := FR_FAULT_RECORD_MAGIC\<rparr>])"

definition apply_stores :: "fault_store list \<Rightarrow> fr_fault_record \<Rightarrow> fr_fault_record" where
  "apply_stores fs r = fold (\<lambda>f. f) fs r"

text \<open>The assembly entry: bit 2 of EXC\_RETURN says which stack holds the exception frame.\<close>

definition frame_pointer :: "u32 \<Rightarrow> cpu_state \<Rightarrow> u32" where
  "frame_pointer lr c = (if lr AND 4 = 0 then cpu_msp c else cpu_psp c)"

definition FR_FAULT_ENTRY :: "u32 \<Rightarrow> u32 \<Rightarrow> kernel \<Rightarrow> mmio \<Rightarrow> fault_store list" where
  "FR_FAULT_ENTRY fault_number lr s m = fr_fault_handle_c (frame_pointer lr (cpu s)) lr fault_number m (ram s)"


section \<open>Supervisor calls\<close>

datatype svc_action = StartFirst "u32 list" | RequestYield | Invalid

text \<open>The immediate of the \<open>svc\<close> instruction is in the code two bytes below the stacked return address.\<close>

definition SVC_Handler :: "u32 \<Rightarrow> kernel \<Rightarrow> svc_action \<times> kernel" where
  "SVC_Handler lr s =
     (let r0 = frame_pointer lr (cpu s);
          r1 = load32 (ram s) (r0 + 24) - 2;
          r2 = ram s r1
      in if r2 = 0
         then (case svc_start_first (load32 (ram s) r0) s of
                 (None, s) \<Rightarrow> (Invalid, s) | (Some r4_r11, s) \<Rightarrow> (StartFirst r4_r11, s))
         else if r2 = 1 then (RequestYield, fr_port_request_context_switch s)
         else (Invalid, s))"

text \<open>
  The handler does what \<open>fr_port_start_first_task\<close> is meant to do: its argument is the R0 that the
  exception entry has put on the stack.
\<close>

lemma svc_enters_first_task:
  assumes "ram s (load32 (ram s) (frame_pointer lr (cpu s) + 24) - 2) = 0"
    and "load32 (ram s) (frame_pointer lr (cpu s)) = critical_state"
  shows "SVC_Handler lr s = (case fr_port_start_first_task critical_state s of
    (None, s) \<Rightarrow> (Invalid, s) | (Some r4_r11, s) \<Rightarrow> (StartFirst r4_r11, s))"
  using assms by (simp add: SVC_Handler_def fr_port_start_first_task_def Let_def)


section \<open>Boot snapshot and process stack\<close>

record fr_arch_boot_snapshot =
  bs_vtor :: u32
  bs_initial_msp :: u32
  bs_reset_vector :: u32
  bs_current_msp :: u32
  bs_psp :: u32
  bs_control :: u32
  bs_ipsr :: u32

record fr_arch_stack_state =
  as_sp :: u32
  as_msp :: u32
  as_psp :: u32
  as_control :: u32
  as_ipsr :: u32

definition SCB_VTOR :: u32 where [simp]: "SCB_VTOR = 0xE000ED08"

definition fr_arch_capture_boot_snapshot :: "mmio \<Rightarrow> (nat \<Rightarrow> u32) \<Rightarrow> cpu_state \<Rightarrow> fr_arch_boot_snapshot" where
  "fr_arch_capture_boot_snapshot m g_pfnVectors c =
     \<lparr>bs_vtor = m SCB_VTOR, bs_initial_msp = g_pfnVectors 0, bs_reset_vector = g_pfnVectors 1,
      bs_current_msp = cpu_msp c, bs_psp = cpu_psp c, bs_control = cpu_control c, bs_ipsr = cpu_ipsr c\<rparr>"

text \<open>In thread mode \<open>sp\<close> is PSP when CONTROL.SPSEL is set, and MSP otherwise; handlers use MSP.\<close>

definition active_sp :: "cpu_state \<Rightarrow> u32" where
  "active_sp c = (if cpu_ipsr c = 0 \<and> cpu_control c AND 2 \<noteq> 0 then cpu_psp c else cpu_msp c)"

definition fr_arch_capture_stack_state :: "cpu_state \<Rightarrow> fr_arch_stack_state" where
  "fr_arch_capture_stack_state c =
     \<lparr>as_sp = active_sp c, as_msp = cpu_msp c, as_psp = cpu_psp c, as_control = cpu_control c, as_ipsr = cpu_ipsr c\<rparr>"

definition fr_arch_enter_thread_psp :: "u32 \<Rightarrow> kernel \<Rightarrow> kernel" where
  "fr_arch_enter_thread_psp new_psp s = s\<lparr>cpu := (cpu s)\<lparr>cpu_psp := new_psp, cpu_control := cpu_control (cpu s) OR 2\<rparr>\<rparr>"


section \<open>Board\<close>

definition RCC_AHB1ENR :: u32 where [simp]: "RCC_AHB1ENR = 0x40023830"
definition GPIOA_MODER :: u32 where [simp]: "GPIOA_MODER = 0x40020000"
definition GPIOA_ODR :: u32 where [simp]: "GPIOA_ODR = 0x40020014"
definition RCC_AHB1ENR_GPIOAEN :: u32 where [simp]: "RCC_AHB1ENR_GPIOAEN = push_bit 0 1"
definition GPIOA_PIN5_MODE_MASK :: u32 where [simp]: "GPIOA_PIN5_MODE_MASK = push_bit 10 3"
definition GPIOA_PIN5_OUTPUT :: u32 where [simp]: "GPIOA_PIN5_OUTPUT = push_bit 10 1"
definition GPIOA_PIN5 :: u32 where [simp]: "GPIOA_PIN5 = push_bit 5 1"
definition FR_BOARD_RESET_CORE_CLOCK_HZ :: u32 where [simp]: "FR_BOARD_RESET_CORE_CLOCK_HZ = 16000000"

definition fr_board_init :: "mmio \<Rightarrow> mmio" where
  "fr_board_init m =
     (let m = m(RCC_AHB1ENR := m RCC_AHB1ENR OR RCC_AHB1ENR_GPIOAEN)
      in m(GPIOA_MODER := (m GPIOA_MODER AND NOT GPIOA_PIN5_MODE_MASK) OR GPIOA_PIN5_OUTPUT))"

definition fr_board_led_toggle :: "mmio \<Rightarrow> mmio" where
  "fr_board_led_toggle m = m(GPIOA_ODR := m GPIOA_ODR XOR GPIOA_PIN5)"

text \<open>The delay loop; \<open>nops\<close> counts the executed instructions.\<close>

function fr_board_delay_cycles :: "u32 \<Rightarrow> nat \<Rightarrow> nat" where
  "fr_board_delay_cycles cycles nops = (if cycles > 0 then fr_board_delay_cycles (cycles - 1) (Suc nops) else nops)"
  by pat_completeness auto
termination
  by (relation "measure (\<lambda>(c, _). unat c)") (auto simp: word_gt_0 unat_minus_one unat_gt_0)

declare fr_board_delay_cycles.simps [simp del]


section \<open>Properties\<close>

lemma delay_count: "fr_board_delay_cycles c n = n + unat c"
proof (induction c n rule: fr_board_delay_cycles.induct)
  case (1 c n)
  then show ?case
    by (subst fr_board_delay_cycles.simps) (auto simp: word_gt_0 unat_minus_one unat_gt_0)
qed


lemma byte_mask: "(0xFF :: u32) = mask 8"
  by (simp add: mask_eq_exp_minus_1)

lemma shpr3_byte_bit: "n + 8 \<le> 32 \<Longrightarrow> bit (shpr3_byte n s) i \<longleftrightarrow> i < 8 \<and> bit (scb_shpr3 s) (n + i)"
  unfolding shpr3_byte_def byte_mask by (auto simp: bit_simps)

lemma systick_priority:
  shows "shpr3_byte 24 (fr_systick_set_priority p s) = FR_CORTEX_M4_ENCODE_PRIORITY p AND 0xFF"
    "shpr3_byte 16 (fr_systick_set_priority p s) = shpr3_byte 16 s"
proof -
  have bits: "bit (scb_shpr3 (fr_systick_set_priority p s)) n \<longleftrightarrow>
      (if 24 \<le> n then bit (FR_CORTEX_M4_ENCODE_PRIORITY p) (n - 24) else bit (scb_shpr3 s) n)" if "n < 32" for n
    using that
    unfolding fr_systick_set_priority_def Let_def FR_SCB_SHPR3_SYSTICK_MASK_def FR_SCB_SHPR3_SYSTICK_SHIFT_def byte_mask
    by (auto simp: bit_simps)
  show "shpr3_byte 24 (fr_systick_set_priority p s) = FR_CORTEX_M4_ENCODE_PRIORITY p AND 0xFF"
    unfolding byte_mask by (rule bit_word_eqI) (auto simp: shpr3_byte_bit bits bit_simps)
  show "shpr3_byte 16 (fr_systick_set_priority p s) = shpr3_byte 16 s"
    by (rule bit_word_eqI) (auto simp: shpr3_byte_bit bits)
qed

text \<open>
  C32. SysTick configuration is exact. \<open>fr_systick_init\<close> accepts exactly the clock and tick frequencies
  whose quotient is a whole number of cycles between 1 and \<open>2\<^sup>2\<^sup>4\<close>. It then reloads the 24-bit counter so
  that one period is exactly that many cycles, enables counter and interrupt, and gives SysTick the
  priority of the kernel's ceiling, which critical sections mask, leaving PendSV's priority alone.
  Otherwise nothing is written.
\<close>

theorem systick_period_exact:
  "case fr_systick_init core_clock_hz tick_hz s m of (ok, s', m') \<Rightarrow>
     (ok = (tick_hz \<noteq> 0 \<and> core_clock_hz \<noteq> 0 \<and> unat tick_hz dvd unat core_clock_hz \<and>
        unat core_clock_hz div unat tick_hz \<le> 2 ^ 24)) \<and>
     (if ok
      then (unat (m' SYSTICK_LOAD) + 1) * unat tick_hz = unat core_clock_hz \<and> unat (m' SYSTICK_LOAD) < 2 ^ 24 \<and>
        m' SYSTICK_VAL = 0 \<and> m' SYSTICK_CTRL = 7 \<and>
        shpr3_byte 24 s' = FR_CORTEX_M4_ENCODE_PRIORITY FR_CONFIG_KERNEL_INTERRUPT_CEILING \<and>
        shpr3_byte 16 s' = shpr3_byte 16 s \<and> masked_by_basepri (shpr3_byte 24 s') (snd (fr_critical_enter s'))
      else s' = s \<and> m' = m)"
proof (cases "tick_hz = 0 \<or> core_clock_hz = 0 \<or> core_clock_hz mod tick_hz \<noteq> 0")
  case True
  have "core_clock_hz mod tick_hz = 0 \<longleftrightarrow> unat tick_hz dvd unat core_clock_hz"
    by (simp add: dvd_eq_mod_eq_0 unat_eq_zero flip: unat_mod)
  then show ?thesis using True by (auto simp: fr_systick_init_def)
next
  case False
  define n where "n = unat core_clock_hz div unat tick_hz"
  have d: "unat tick_hz dvd unat core_clock_hz"
    using False by (simp add: dvd_eq_mod_eq_0 unat_eq_zero flip: unat_mod)
  then have nt: "n * unat tick_hz = unat core_clock_hz" by (simp add: n_def)
  have u: "unat (core_clock_hz div tick_hz) = n" by (simp add: n_def unat_div)
  have pos: "0 < n" using nt False by (cases n) (auto simp: unat_eq_zero)
  have z: "core_clock_hz div tick_hz \<noteq> 0" using pos u by (auto simp: unat_eq_zero)
  have lim: "core_clock_hz div tick_hz > FR_SYSTICK_MAX_COUNTER_CYCLES \<longleftrightarrow> n > 2 ^ 24"
    by (simp add: word_less_nat_alt u)
  have load: "unat (core_clock_hz div tick_hz - 1) = n - 1" using z by (simp add: unat_minus_one u)
  have pr: "shpr3_byte 24 (fr_systick_set_priority FR_CONFIG_KERNEL_INTERRUPT_CEILING s) = 0x80"
    by (simp add: systick_priority FR_CORTEX_M4_ENCODE_PRIORITY_def)
  have mk: "masked_by_basepri 0x80 (snd (fr_critical_enter t))" for t
    by (auto simp: masked_by_basepri_def fr_critical_enter_def msr_basepri_max_def Let_def FR_CORTEX_M4_ENCODE_PRIORITY_def)
  show ?thesis
  proof (cases "n \<le> 2 ^ 24")
    case True
    have eq: "fr_systick_init core_clock_hz tick_hz s m = (True, fr_systick_set_priority FR_CONFIG_KERNEL_INTERRUPT_CEILING s,
        m(SYSTICK_CTRL := 7, SYSTICK_LOAD := core_clock_hz div tick_hz - 1, SYSTICK_VAL := 0))"
      using False True lim z by (auto simp: fr_systick_init_def Let_def fun_eq_iff)
    show ?thesis
      unfolding eq prod.case if_True pr systick_priority(2)
      using False True d nt pos load mk by (auto simp: n_def [symmetric] FR_CORTEX_M4_ENCODE_PRIORITY_def)
  next
    case over: False
    then show ?thesis using False lim z by (simp add: fr_systick_init_def Let_def n_def [symmetric])
  qed
qed


text \<open>The stores between the first and the last leave the magic number alone.\<close>

definition fault_body :: "u32 \<Rightarrow> u32 \<Rightarrow> u32 \<Rightarrow> mmio \<Rightarrow> (u32 \<Rightarrow> u8) \<Rightarrow> fault_store list" where
  "fault_body sp lr kind m mem = butlast (tl (fr_fault_handle_c sp lr kind m mem))"

lemma frame_store_simps [simp]:
  "fr_magic (frame_store f r) = fr_magic r" "fr_kind (frame_store f r) = fr_kind r"
  "fr_frame (frame_store f r) = f (fr_frame r)"
  by (simp_all add: frame_store_def)

lemma fault_stores_split:
  "fr_fault_handle_c sp lr kind m mem =
     (\<lambda>r. r\<lparr>fr_magic := 0\<rparr>) # fault_body sp lr kind m mem @ [\<lambda>r. r\<lparr>fr_magic := FR_FAULT_RECORD_MAGIC\<rparr>]"
  "f \<in> set (fault_body sp lr kind m mem) \<Longrightarrow> fr_magic (f r) = fr_magic r"
proof -
  show "fr_fault_handle_c sp lr kind m mem =
     (\<lambda>r. r\<lparr>fr_magic := 0\<rparr>) # fault_body sp lr kind m mem @ [\<lambda>r. r\<lparr>fr_magic := FR_FAULT_RECORD_MAGIC\<rparr>]"
    by (simp add: fault_body_def fr_fault_handle_c_def Let_def butlast_append)
  show "fr_magic (f r) = fr_magic r" if "f \<in> set (fault_body sp lr kind m mem)"
    using that
    by (auto simp: fault_body_def fr_fault_handle_c_def fr_fault_capture_frame_def fr_fault_clear_frame_def Let_def
        butlast_append split: if_splits)
qed

lemma apply_stores_magic:
  assumes "\<And>f r. f \<in> set fs \<Longrightarrow> fr_magic (f r) = fr_magic r"
  shows "fr_magic (apply_stores fs r) = fr_magic r"
  using assms unfolding apply_stores_def by (induction fs arbitrary: r) simp_all

definition frame_at :: "u32 \<Rightarrow> (u32 \<Rightarrow> u8) \<Rightarrow> fr_exception_frame" where
  "frame_at sp mem = \<lparr>ef_r0 = load32 mem sp, ef_r1 = load32 mem (sp + 4), ef_r2 = load32 mem (sp + 8),
     ef_r3 = load32 mem (sp + 12), ef_r12 = load32 mem (sp + 16), ef_lr = load32 mem (sp + 20),
     ef_pc = load32 mem (sp + 24), ef_xpsr = load32 mem (sp + 28)\<rparr>"

definition no_frame :: fr_exception_frame where
  "no_frame = \<lparr>ef_r0 = 0, ef_r1 = 0, ef_r2 = 0, ef_r3 = 0, ef_r12 = 0, ef_lr = 0, ef_pc = 0, ef_xpsr = 0\<rparr>"

text \<open>
  C33. A fault record is published last. While the fault handler fills the record its magic number is
  zero, from the first store until the last one sets it; so whoever sees the magic number sees the
  complete record: kind, return code and stack pointer of the fault, the status registers, the eight
  words of the exception frame when stacking succeeded and zeroes otherwise, and each fault address
  exactly when the status register marks it valid.
\<close>

theorem fault_record_published_last:
  "(let fs = fr_fault_handle_c sp lr kind m mem; r' = apply_stores fs r; cfsr = m FR_SCB_CFSR;
       framed = (sp \<noteq> 0 \<and> cfsr AND 0x1010 = 0)
    in (\<forall>n. 0 < n \<and> n < length fs \<longrightarrow> fr_magic (apply_stores (take n fs) r) = 0) \<and>
       r' = \<lparr>fr_magic = FR_FAULT_RECORD_MAGIC, fr_kind = kind, fr_exception_return = lr, fr_stack_pointer = sp,
         fr_frame_valid = (if framed then 1 else 0), fr_frame = (if framed then frame_at sp mem else no_frame),
         fr_cfsr = cfsr, fr_hfsr = m FR_SCB_HFSR, fr_shcsr = m FR_SCB_SHCSR, fr_icsr = m FR_SCB_ICSR,
         fr_mmfar = (if bit cfsr 7 then m FR_SCB_MMFAR else 0), fr_bfar = (if bit cfsr 15 then m FR_SCB_BFAR else 0),
         fr_mmfar_valid = (if bit cfsr 7 then 1 else 0), fr_bfar_valid = (if bit cfsr 15 then 1 else 0)\<rparr>)"
proof -
  let ?fs = "fr_fault_handle_c sp lr kind m mem"
  have magic: "fr_magic (apply_stores (take n ?fs) r) = 0" if n: "0 < n" "n < length ?fs" for n
  proof -
    have "take n ?fs = (\<lambda>r. r\<lparr>fr_magic := 0\<rparr>) # take (n - 1) (fault_body sp lr kind m mem)"
      using n by (cases n) (simp_all add: fault_stores_split(1))
    then have "apply_stores (take n ?fs) r = apply_stores (take (n - 1) (fault_body sp lr kind m mem)) (r\<lparr>fr_magic := 0\<rparr>)"
      by (simp add: apply_stores_def)
    moreover have "fr_magic (apply_stores (take (n - 1) (fault_body sp lr kind m mem)) (r\<lparr>fr_magic := 0\<rparr>)) = 0"
      by (subst apply_stores_magic) (auto dest: in_set_takeD simp: fault_stores_split(2))
    ultimately show ?thesis by simp
  qed
  have b: "(x :: u32) AND push_bit k 1 \<noteq> 0 \<longleftrightarrow> bit x k" for x k
    by (simp add: push_bit_eq_mult and_exp_eq_0_iff_not_bit)
  have "m FR_SCB_CFSR AND FR_CFSR_MMARVALID \<noteq> 0 \<longleftrightarrow> bit (m FR_SCB_CFSR) 7"
    "m FR_SCB_CFSR AND FR_CFSR_BFARVALID \<noteq> 0 \<longleftrightarrow> bit (m FR_SCB_CFSR) 15"
    unfolding FR_CFSR_MMARVALID_def FR_CFSR_BFARVALID_def by (simp_all only: b)
  moreover have "FR_CFSR_STACKING_ERROR_MASK = 0x1010" by simp
  ultimately have "apply_stores ?fs r = \<lparr>fr_magic = FR_FAULT_RECORD_MAGIC, fr_kind = kind, fr_exception_return = lr,
      fr_stack_pointer = sp, fr_frame_valid = (if sp \<noteq> 0 \<and> m FR_SCB_CFSR AND 0x1010 = 0 then 1 else 0),
      fr_frame = (if sp \<noteq> 0 \<and> m FR_SCB_CFSR AND 0x1010 = 0 then frame_at sp mem else no_frame),
      fr_cfsr = m FR_SCB_CFSR, fr_hfsr = m FR_SCB_HFSR, fr_shcsr = m FR_SCB_SHCSR, fr_icsr = m FR_SCB_ICSR,
      fr_mmfar = (if bit (m FR_SCB_CFSR) 7 then m FR_SCB_MMFAR else 0),
      fr_bfar = (if bit (m FR_SCB_CFSR) 15 then m FR_SCB_BFAR else 0),
      fr_mmfar_valid = (if bit (m FR_SCB_CFSR) 7 then 1 else 0), fr_bfar_valid = (if bit (m FR_SCB_CFSR) 15 then 1 else 0)\<rparr>"
    by (auto simp only: fr_fault_handle_c_def fr_fault_capture_frame_def fr_fault_clear_frame_def Let_def apply_stores_def)
       (auto simp: frame_store_def frame_at_def no_frame_def word_at_def)
  then show ?thesis using magic by (simp add: Let_def)
qed

definition bad_access :: mmio where
  "bad_access = (\<lambda>_. 0)(FR_SCB_CFSR := 0x82, FR_SCB_MMFAR := 0x10)"

definition zero_record :: fr_fault_record where
  "zero_record = \<lparr>fr_magic = 0, fr_kind = 0, fr_exception_return = 0, fr_stack_pointer = 0, fr_frame_valid = 0,
     fr_frame = no_frame, fr_cfsr = 0, fr_hfsr = 0, fr_shcsr = 0, fr_icsr = 0, fr_mmfar = 0, fr_bfar = 0,
     fr_mmfar_valid = 0, fr_bfar_valid = 0\<rparr>"

theorem fault_record_published_last_witness:
  "fr_magic (apply_stores (take 5 (fr_fault_handle_c 0x20001FE0 0xFFFFFFFD 4 bad_access (\<lambda>_. 0))) zero_record) = 0 \<and>
   fr_magic (apply_stores (fr_fault_handle_c 0x20001FE0 0xFFFFFFFD 4 bad_access (\<lambda>_. 0)) zero_record) = 0x46524654 \<and>
   fr_mmfar (apply_stores (fr_fault_handle_c 0x20001FE0 0xFFFFFFFD 4 bad_access (\<lambda>_. 0)) zero_record) = 0x10"
proof -
  have len: "length (fr_fault_handle_c sp lr kind m mem) = 22" for sp lr kind m mem
    by (simp add: fr_fault_handle_c_def fr_fault_capture_frame_def fr_fault_clear_frame_def Let_def)
  have c: "bad_access FR_SCB_CFSR = 0x82" "bad_access FR_SCB_MMFAR = 0x10" by (simp_all add: bad_access_def)
  have b: "bit (0x82 :: u32) 7" by simp
  note f = fault_record_published_last [of "0x20001FE0" "0xFFFFFFFD" 4 bad_access "\<lambda>_. 0" zero_record,
      unfolded Let_def c if_P [OF b]]
  show ?thesis
    using conjunct1 [OF f, rule_format, of 5] conjunct2 [OF f] by (simp add: len)
qed

end
