(* ===== verification/System.thy ===== *)
theory System
  imports Services Peripherals
begin

text \<open>
  The running system: tasks that call services, the tick interrupt, the context switch and task code,
  interleaved at the points where interrupts are taken. A state is the kernel together with the
  continuation of every task that is inside a blocking call. The invariant of reachable states is
  proved by rule induction; the safety properties of the whole kernel follow from it.

  Interrupts are taken between steps: a service runs its critical section with the kernel's interrupts
  masked, and what it does outside touches only its own registers and the memory of its task.
\<close>


section \<open>Steps\<close>

type_synonym system = "kernel \<times> (task_ptr \<Rightarrow> continuation option)"

datatype label = Tick | Switch | Run | Call task_ptr service | Resume task_ptr

text \<open>Task \<open>p\<close> has the processor and no context switch is due.\<close>

definition executing :: "task_ptr \<Rightarrow> kernel \<Rightarrow> bool" where
  "executing p k \<longleftrightarrow> g_fr_scheduler_running k \<and> g_fr_scheduler_current_task k = Some p \<and> p \<noteq> IdleTask \<and>
     \<not> pendsv_pending k"

inductive step :: "label \<Rightarrow> system \<Rightarrow> system \<Rightarrow> bool" where
  tick: "SysTick_Handler k = Ret () k' \<Longrightarrow> step Tick (k, c) (k', c)"
| switch: "pendsv_pending k \<Longrightarrow> g_fr_scheduler_current_task k = Some p \<Longrightarrow>
     fr_scheduler_saved_sp_valid (Some p) (cpu_psp (cpu k) - 32) k \<Longrightarrow> length regs = 8 \<Longrightarrow>
     PendSV_Handler regs k = Ret loaded k' \<Longrightarrow> step Switch (k, c) (k', c)"
| run: "g_fr_scheduler_current_task k = Some p \<Longrightarrow> \<not> pendsv_pending k \<Longrightarrow>
     fr_scheduler_saved_sp_valid (Some p) (sp - 32) k \<Longrightarrow>
     step Run (k, c) (k\<lparr>ram := m, cpu := (cpu k)\<lparr>cpu_psp := sp\<rparr>\<rparr>, c)"
| call: "executing p k \<Longrightarrow> c p = None \<Longrightarrow> exec op k = Ret r k' \<Longrightarrow>
     step (Call p op) (k, c) (k', c(p := (if r = Suspended then Some (continuation_of op k) else None)))"
| resume: "executing p k \<Longrightarrow> c p = Some x \<Longrightarrow> resume x p k = Ret r k' \<Longrightarrow>
     step (Resume p) (k, c) (k', c(p := (if r = Suspended then Some x else None)))"

inductive_cases step_cases: "step l (k, c) (k', c')"

text \<open>
  Start-up: from the reset state, tasks are created, objects and the trace are initialised, SysTick is
  configured and may tick, and the code writes its memory and moves to its process stack; then the
  scheduler is started.
\<close>

inductive booted :: "link_map \<Rightarrow> kernel \<Rightarrow> bool" for lm where
  reset: "booted lm (reset_kernel lm)"
| create: "booted lm k \<Longrightarrow> fr_task_create True (Some cfg) k = Ret r k' \<Longrightarrow> booted lm k'"
| binary: "booted lm k \<Longrightarrow> booted lm (snd (fr_binary_semaphore_init a av k))"
| counting: "booted lm k \<Longrightarrow> booted lm (snd (fr_counting_semaphore_init a n mx k))"
| mutex: "booted lm k \<Longrightarrow> booted lm (snd (fr_mutex_init a k))"
| queue: "booted lm k \<Longrightarrow> booted lm (snd (fr_queue_init a st cap sz k))"
| flags: "booted lm k \<Longrightarrow> booted lm (snd (fr_event_flags_init a k))"
| assertions: "booted lm k \<Longrightarrow> booted lm (fr_assert_init k)"
| trace: "booted lm k \<Longrightarrow> booted lm (fr_trace_init k)"
| systick: "booted lm k \<Longrightarrow> booted lm (fst (snd (fr_systick_init hz tick_hz k m)))"
| ticks: "booted lm k \<Longrightarrow> SysTick_Handler k = Ret () k' \<Longrightarrow> booted lm k'"
| memory: "booted lm k \<Longrightarrow> booted lm (k\<lparr>ram := mem\<rparr>)"
| process_stack: "booted lm k \<Longrightarrow> booted lm (fr_arch_enter_thread_psp sp k)"

inductive reachable :: "link_map \<Rightarrow> system \<Rightarrow> bool" for lm where
  start: "booted lm k \<Longrightarrow> idle_placed k \<Longrightarrow> fr_scheduler_start k = Ret None k' \<Longrightarrow> reachable lm (k', \<lambda>_. None)"
| more: "reachable lm \<sigma> \<Longrightarrow> step l \<sigma> \<sigma>' \<Longrightarrow> reachable lm \<sigma>'"


section \<open>The invariant\<close>

text \<open>
  A task without a continuation is not blocked; a task with one is blocked on what the continuation says,
  or has been signalled or timed out and not run since. A sleeper only ever times out, and a task that was
  handed a mutex still owns it.
\<close>

definition continuation_ok :: "kernel \<Rightarrow> task_ptr \<Rightarrow> continuation \<Rightarrow> bool" where
  "continuation_ok k q x \<longleftrightarrow>
     (fst (wait_of x) \<noteq> WAIT_SLEEP \<longrightarrow> snd (wait_of x) \<noteq> 0) \<and>
     (wview k q = (Some (wait_of x), RESULT_PENDING) \<or> wview k q = (None, RESULT_TIMEOUT) \<or>
      wview k q = (None, RESULT_SIGNALED) \<and> fst (wait_of x) \<noteq> WAIT_SLEEP \<and>
      (fst (wait_of x) = WAIT_MUTEX \<longrightarrow> mutex_owner (snd (wait_of x)) k = Some q))"

definition system_ok :: "system \<Rightarrow> bool" where
  "system_ok \<sigma> \<longleftrightarrow> (case \<sigma> of (k, c) \<Rightarrow>
     kernel_ok k \<and> thread_context_allowed k \<and> g_fr_scheduler_running k \<and>
     (\<forall>q. c q \<noteq> None \<longrightarrow> q \<in> registered k) \<and>
     (\<forall>q \<in> registered k. case c q of None \<Rightarrow> blocked_on k q = None | Some x \<Rightarrow> continuation_ok k q x))"

lemma system_okD:
  assumes "system_ok (k, c)"
  shows "kernel_ok k" "thread_context_allowed k" "g_fr_scheduler_running k" "\<And>q x. c q = Some x \<Longrightarrow> q \<in> registered k"
    "\<And>q. q \<in> registered k \<Longrightarrow> c q = None \<Longrightarrow> blocked_on k q = None"
    "\<And>q x. c q = Some x \<Longrightarrow> continuation_ok k q x"
proof -
  show reg: "\<And>q x. c q = Some x \<Longrightarrow> q \<in> registered k" using assms by (auto simp: system_ok_def)
  have each: "\<And>q. q \<in> registered k \<Longrightarrow> case c q of None \<Rightarrow> blocked_on k q = None | Some x \<Rightarrow> continuation_ok k q x"
    using assms by (simp add: system_ok_def)
  show "\<And>q. q \<in> registered k \<Longrightarrow> c q = None \<Longrightarrow> blocked_on k q = None" using each by force
  show "\<And>q x. c q = Some x \<Longrightarrow> continuation_ok k q x" using each reg by force
qed (use assms in \<open>auto simp: system_ok_def\<close>)

lemma system_okI:
  assumes "kernel_ok k" and "thread_context_allowed k" and "g_fr_scheduler_running k"
    and "\<And>q x. c q = Some x \<Longrightarrow> q \<in> registered k \<and> continuation_ok k q x"
    and "\<And>q. q \<in> registered k \<Longrightarrow> c q = None \<Longrightarrow> blocked_on k q = None"
  shows "system_ok (k, c)"
  using assms by (auto simp: system_ok_def split: option.splits)

lemma executing_caller: "system_ok (k, c) \<Longrightarrow> executing p k \<Longrightarrow> caller p k"
  using system_okD(1,2) [of k c] by (simp add: executing_def caller_def)

text \<open>Steps that leave the waits, the objects and the processor mode alone.\<close>

lemma wview_same:
  assumes "wview k' q = wview k q" and "objects k' = objects k"
  shows "blocked_on k' q = blocked_on k q" "continuation_ok k' q x = continuation_ok k q x"
  using assms by (simp_all add: wview_def continuation_ok_def mutex_owner_def)

lemma system_ok_same_waits:
  assumes "system_ok (k, c)" and "kernel_ok k'" and "\<And>q. q \<in> registered k \<Longrightarrow> wview k' q = wview k q"
    and "registered k' = registered k" and "objects k' = objects k" and "g_fr_scheduler_running k'"
    and "thread_context_allowed k'"
  shows "system_ok (k', c)"
proof (rule system_okI)
  note ok = system_okD [OF assms(1)]
  show "q \<in> registered k' \<and> continuation_ok k' q x" if "c q = Some x" for q x
    using ok(4,6) [OF that] wview_same(2) [OF assms(3,5)] by (simp add: assms(4))
  show "blocked_on k' q = None" if "q \<in> registered k'" "c q = None" for q
    using ok(5) that wview_same(1) [OF assms(3,5)] by (simp add: assms(4))
qed (use assms in simp_all)

text \<open>The tick ends the waits whose deadline has passed and touches nothing else of a wait.\<close>

lemma tick_effect:
  assumes "kernel_ok k" and "g_fr_scheduler_running k"
  obtains k' where "SysTick_Handler k = Ret () k'" "kernel_ok k'" "g_fr_scheduler_running k'" "objects k' = objects k"
    "registered k' = registered k" "cpu k' = cpu k" "g_fr_kernel_tick_count k' = g_fr_kernel_tick_count k + 1"
    "g_fr_scheduler_current_task k' = g_fr_scheduler_current_task k"
    "\<And>q. saved_sp (tcb k' q) = saved_sp (tcb k q)" "pendsv_pending k \<Longrightarrow> pendsv_pending k'" "settled k'"
    "\<And>q. q \<in> registered k \<Longrightarrow> \<not> expires (g_fr_kernel_tick_count k + 1) (tcb k' q)"
    "\<And>q. q \<in> registered k \<Longrightarrow> task_state (tcb k' q) = STATE_CREATED \<Longrightarrow> task_state (tcb k q) = STATE_CREATED"
    "\<And>q. q \<in> registered k \<Longrightarrow> wview k' q =
       (if expires (g_fr_kernel_tick_count k + 1) (tcb k q) then (None, RESULT_TIMEOUT) else wview k q)"
proof -
  obtain s1 k' where t: "SysTick_Handler k = Ret () k'" "kernel_ok k'"
    and e: "expired_in (g_fr_kernel_tick_count k + 1) (registered k) (k\<lparr>g_fr_kernel_tick_count := g_fr_kernel_tick_count k + 1\<rparr>) s1"
    and k': "k' = (if fr_scheduler_select_next (g_fr_scheduler_current_task k) s1 \<noteq> g_fr_scheduler_current_task k
           then fr_port_request_context_switch s1 else s1)"
    using tick_ok [OF assms] by metis
  have f: "tcb k' = tcb s1" "objects k' = objects s1" "g_fr_task_count k' = g_fr_task_count s1" "cpu k' = cpu s1"
    "g_fr_scheduler_running k' = g_fr_scheduler_running s1" "g_fr_kernel_tick_count k' = g_fr_kernel_tick_count s1"
    "g_fr_scheduler_current_task k' = g_fr_scheduler_current_task s1"
    by (simp_all add: k')
  have o: "outside_same (k\<lparr>g_fr_kernel_tick_count := g_fr_kernel_tick_count k + 1\<rparr>) s1" using e by (simp add: expired_in_def)
  have w: "wview k' q = (if expires (g_fr_kernel_tick_count k + 1) (tcb k q) then (None, RESULT_TIMEOUT) else wview k q)"
    if "q \<in> registered k" for q
    using e that by (simp add: expired_in_def wview_def blocked_on_def f(1) wake_task_def)
  have x: "\<not> expires (g_fr_kernel_tick_count k + 1) (tcb k' q)" if "q \<in> registered k" for q
    using e that by (simp add: expired_in_def f(1))
  have cr: "task_state (tcb k q) = STATE_CREATED" if "q \<in> registered k" "task_state (tcb k' q) = STATE_CREATED" for q
    using e that by (auto simp: expired_in_def f(1) split: if_splits)
  have sp: "saved_sp (tcb k' q) = saved_sp (tcb k q)" for q using e by (simp add: expired_in_def f(1) wake_task_def)
  have pe: "pendsv_pending k'" if "pendsv_pending k" using o that by (simp add: k' outside_same_def)
  have "pendsv_pending k' \<or> k' = s1 \<and> fr_scheduler_select_next (g_fr_scheduler_current_task k) k' = g_fr_scheduler_current_task k"
    by (simp add: k' fr_port_request_context_switch_def)
  then have st: "settled k'"
    using o f(7) by (auto simp: settled_def fr_scheduler_request_if_needed_locked_def outside_same_def Let_def)
  show thesis
    by (rule that [OF t(1,2) _ _ _ _ _ _ sp pe st x cr w]) (use o assms(2) in \<open>simp_all add: f outside_same_def registered_def\<close>)
qed

text \<open>The context switch changes who runs, not who waits.\<close>

lemma switch_effect:
  assumes "kernel_ok k" and "g_fr_scheduler_running k" and "g_fr_scheduler_current_task k = Some c"
    and "fr_scheduler_saved_sp_valid (Some c) (cpu_psp (cpu k) - 32) k"
  obtains rs p k' where "PendSV_Handler regs k = Ret rs k'" "kernel_ok k'" "g_fr_scheduler_running k'"
    "objects k' = objects k" "registered k' = registered k" "g_fr_kernel_tick_count k' = g_fr_kernel_tick_count k"
    "thread_context_allowed k' = thread_context_allowed k" "\<not> pendsv_pending k'"
    "g_fr_scheduler_current_task k' = Some p" "fr_scheduler_select_next (Some c) k = Some p"
    "tcb k' = switched_tcb c p (cpu_psp (cpu k) - 32) k" "cpu_psp (cpu k') = saved_sp (tcb k' p) + 32"
    "\<And>q. q \<in> registered k \<Longrightarrow> wview k' q = wview k q"
proof -
  let ?sp = "cpu_psp (cpu k) - 32"
  let ?u = "k\<lparr>pendsv_pending := False, ram := store_words (ram k) ?sp regs\<rparr>"
  obtain p s1 where p: "fr_scheduler_select_next (Some c) k = Some p"
    and sw: "fr_scheduler_switch_from_isr ?sp ?u = Ret (saved_sp (tcb s1 p)) s1" "switched_ok c p ?sp ?u s1"
      "kernel_ok s1" "fr_scheduler_saved_sp_valid (Some p) (saved_sp (tcb s1 p)) s1"
    using switch_ok [OF assms refl] by metis
  let ?k' = "s1\<lparr>cpu := (cpu s1)\<lparr>cpu_psp := saved_sp (tcb s1 p) + 32\<rparr>\<rparr>"
  have nz: "saved_sp (tcb s1 p) \<noteq> 0"
    using sw(4) by (auto simp: fr_scheduler_saved_sp_valid_def split: if_splits)
  then have run: "PendSV_Handler regs k = Ret (Some (map (\<lambda>i. load32 (ram s1) (word_at (saved_sp (tcb s1 p)) i)) [0..<8])) ?k'"
    using sw(1) by (simp add: PendSV_Handler_def Let_def)
  have cases: "c = IdleTask \<or> c \<in> registered k \<and> (task_state (tcb k c) = STATE_RUNNING \<or> task_state (tcb k c) = STATE_BLOCKED)"
    using base_okD(3) [OF kernel_okD(1) [OF assms(1)]] assms(2,3) by (auto simp: sched_ok_def)
  obtain p' where "fr_scheduler_select_next (Some c) k = Some p'" "p' = c \<or> p' = IdleTask \<or> ready k p'"
    using select_next_total [OF cases] by metis
  then have "p = c \<or> p = IdleTask \<or> ready k p" using p by simp
  then have w: "wview ?k' q = wview k q" if "q \<in> registered k" for q
    using sw(2) that by (auto simp: switched_ok_def switched_tcb_def wview_def blocked_on_def ready_def)
  have ok: "kernel_ok ?k'" using kernel_ok_same [OF _ sw(3)] by (simp add: same_kernel_def)
  show thesis
    by (rule that [OF run ok _ _ _ _ _ _ _ p _ _ w])
      (use sw(2) assms(2) switched_tcb_cong [of ?u k] in
        \<open>auto simp: switched_ok_def registered_def thread_context_allowed_def\<close>)
qed

text \<open>A service call or its resumption by the current task.\<close>

lemma reasons_never_sleep: "opposite r \<noteq> WAIT_SLEEP"
  by (cases r) simp_all

lemma suspended_object:
  assumes "kernel_ok k" and "p \<in> registered k" and "blocked_on k p = Some (r, a)"
  shows "r \<noteq> WAIT_SLEEP \<longrightarrow> a \<noteq> 0"
  using task_ok_registered [OF kernel_okD(1) [OF assms(1)] assms(2)] assms(3)
  by (auto simp: task_ok_def fr_kernel_wait_state_valid_def blocked_on_def split: if_splits)

lemma continuation_ok_served:
  assumes "continuation_ok k q x" and "q \<in> registered k" and "serves p a r k res k'" and "q \<noteq> p"
    and "\<And>b. mutex_owner b k = Some q \<Longrightarrow> mutex_owner b k' = Some q"
    and "\<And>b. waiting WAIT_MUTEX b k q \<Longrightarrow> wview k' q \<noteq> wview k q \<Longrightarrow> mutex_owner b k' = Some q"
  shows "continuation_ok k' q x"
proof (cases "wview k' q = wview k q")
  case True
  then show ?thesis using assms(1,5) by (auto simp: continuation_ok_def)
next
  case False
  then have w: "waiting (opposite r) a k q" "wview k' q = (None, RESULT_SIGNALED)"
    using assms(3,4) by (auto simp: served_def)
  then have "blocked_on k q = Some (opposite r, a)" by (simp add: waiting_blocked_on)
  then have "wait_of x = (opposite r, a)" using assms(1) by (auto simp: continuation_ok_def wview_def)
  then show ?thesis
    using assms(1) w False assms(6) [of a] reasons_never_sleep [of r] by (auto simp: continuation_ok_def)
qed

lemma system_ok_served:
  assumes ok: "system_ok (k, c)" and caller: "caller p k" and sv: "serves p a r k res k'"
    and own: "\<And>b q. q \<noteq> p \<Longrightarrow> mutex_owner b k = Some q \<Longrightarrow> mutex_owner b k' = Some q"
    and wake: "\<And>b q. waiting WAIT_MUTEX b k q \<Longrightarrow> wview k' q \<noteq> wview k q \<Longrightarrow> mutex_owner b k' = Some q"
    and x: "res = Suspended \<Longrightarrow> wait_of x = (r, a)"
  shows "system_ok (k', c(p := (if res = Suspended then Some x else None)))" (is "system_ok (k', ?c)")
proof (rule system_okI)
  note okD = system_okD [OF ok] and cf = caller_facts [OF caller]
  have sf: "kernel_ok k'" "cpu k' = cpu k" "registered k' = registered k" "g_fr_scheduler_running k'"
    and sus: "res = Suspended \<Longrightarrow> wview k' p = (Some (r, a), RESULT_PENDING)"
    and view: "\<And>q. wview k' q = wview k q \<or> waiting (opposite r) a k q \<or> q = p \<and> res = Suspended"
    using sv by (auto simp: served_def)
  show "kernel_ok k'" "g_fr_scheduler_running k'" using sf by simp_all
  show "thread_context_allowed k'" using okD(2) sf(2) by (simp add: thread_context_allowed_def)
  show "q \<in> registered k' \<and> continuation_ok k' q y" if "?c q = Some y" for q y
  proof (cases "q = p")
    case True
    then have y: "res = Suspended" "y = x" using that by (auto split: if_splits)
    have "blocked_on k' p = Some (r, a)" using sus [OF y(1)] by (simp add: wview_def)
    then show ?thesis
      using suspended_object [OF sf(1), of p] cf(8) sf(3) sus [OF y(1)] x [OF y(1)] True y(2)
      by (simp add: continuation_ok_def)
  next
    case False
    then show ?thesis
      using that continuation_ok_served [OF okD(6) okD(4) sv False own wake] okD(4) sf(3) by auto
  qed
  show "blocked_on k' q = None" if "q \<in> registered k'" "?c q = None" for q
  proof -
    have "blocked_on k q = None"
      using that okD(5) [of q] sf(3) cf(11) by (cases "q = p") (auto simp: blocked_on_def split: if_splits)
    moreover have "\<not> (q = p \<and> res = Suspended)" using that(2) by auto
    ultimately show ?thesis using view [of q] waiting_blocked_on [of "opposite r" a k q] by (auto simp: wview_def)
  qed
qed

lemma resume_mutex:
  assumes "serves p (snd (wait_of x)) (fst (wait_of x)) k r k'" and "resume x p k = Ret r k'"
  shows "mutex_owner b k' = mutex_owner b k" "waiting WAIT_MUTEX b k q \<Longrightarrow> q \<noteq> p \<Longrightarrow> wview k' q = wview k q"
proof -
  have same: "k' = k" if "fst (wait_of x) = WAIT_MUTEX" using that assms(2) by (cases x) auto
  then show "mutex_owner b k' = mutex_owner b k"
    using served_not_mutex [OF assms(1)] by (cases "fst (wait_of x) = WAIT_MUTEX") simp_all
  show "wview k' q = wview k q" if "waiting WAIT_MUTEX b k q" "q \<noteq> p"
  proof (rule ccontr)
    assume "wview k' q \<noteq> wview k q"
    then have "waiting (opposite (fst (wait_of x))) (snd (wait_of x)) k q" using assms(1) that(2) by (auto simp: served_def)
    then have "opposite (fst (wait_of x)) = WAIT_MUTEX" using that(1) by (simp add: waiting_def)
    then have "fst (wait_of x) = WAIT_MUTEX" by (cases x) auto
    then show False using same \<open>wview k' q \<noteq> wview k q\<close> by simp
  qed
qed


section \<open>Every step keeps the invariant\<close>

text \<open>In every state of the invariant each step that is due can be taken: no assertion fails.\<close>

lemma call_step:
  assumes "system_ok (k, c)" and "executing p k" and "c p = None"
  obtains r k' where "exec op k = Ret r k'" "serves p (target op) (suspends_with op) k r k'"
    "system_ok (k', c(p := (if r = Suspended then Some (continuation_of op k) else None)))"
proof -
  have c: "caller p k" by (rule executing_caller [OF assms(1,2)])
  obtain r k' where r: "exec op k = Ret r k'" "serves p (target op) (suspends_with op) k r k'"
    using exec_served [OF c, of op] by blast
  note mx = exec_mutex [OF c r(1)]
  have "mutex_owner b k' = Some q" if "q \<noteq> p" "mutex_owner b k = Some q" for b q using mx(1) [of b] that by auto
  then show thesis
    using r mx(2) exec_suspended [of op k k'] by (intro that [OF r] system_ok_served [OF assms(1) c r(2)]) auto
qed

lemma resume_step:
  assumes "system_ok (k, c)" and "executing p k" and "c p = Some x"
  obtains r k' where "resume x p k = Ret r k'" "serves p (snd (wait_of x)) (fst (wait_of x)) k r k'"
    "system_ok (k', c(p := (if r = Suspended then Some x else None)))"
proof -
  have c: "caller p k" by (rule executing_caller [OF assms(1,2)])
  have "continuation_ok k p x" by (rule system_okD(6) [OF assms(1,3)])
  then have "fst (wait_of x) \<in> {WAIT_QUEUE_SEND, WAIT_QUEUE_RECEIVE} \<longrightarrow> snd (wait_of x) \<noteq> 0"
    by (auto simp: continuation_ok_def)
  then obtain r k' where r: "resume x p k = Ret r k'" "serves p (snd (wait_of x)) (fst (wait_of x)) k r k'"
    using resume_served [OF c] by blast
  note mx = resume_mutex [OF r(2,1)]
  have np: "q \<noteq> p" if "waiting WAIT_MUTEX b k q" for b q
    using that caller_facts(11) [OF c] by (auto simp: waiting_def)
  have "system_ok (k', c(p := (if r = Suspended then Some x else None)))"
    by (rule system_ok_served [OF assms(1) c r(2)]) (use mx np in auto)
  then show thesis using that [OF r] by blast
qed

lemma tick_step:
  assumes "system_ok (k, c)"
  obtains k' where "SysTick_Handler k = Ret () k'" "system_ok (k', c)"
proof -
  note okD = system_okD [OF assms]
  obtain k' where t: "SysTick_Handler k = Ret () k'" "kernel_ok k'" "g_fr_scheduler_running k'" "objects k' = objects k"
    "registered k' = registered k" "cpu k' = cpu k"
    and w: "\<And>q. q \<in> registered k \<Longrightarrow> wview k' q =
       (if expires (g_fr_kernel_tick_count k + 1) (tcb k q) then (None, RESULT_TIMEOUT) else wview k q)"
    by (rule tick_effect [OF okD(1,3)]) blast
  have "system_ok (k', c)"
  proof (rule system_okI)
    show "thread_context_allowed k'" using okD(2) t(6) by (simp add: thread_context_allowed_def)
    show "q \<in> registered k' \<and> continuation_ok k' q x" if "c q = Some x" for q x
      using okD(4,6) [OF that] w [of q] t(4,5) by (auto simp: continuation_ok_def mutex_owner_def split: if_splits)
    show "blocked_on k' q = None" if "q \<in> registered k'" "c q = None" for q
    proof -
      have n: "blocked_on k q = None" using okD(5) that t(5) by simp
      then have "\<not> expires (g_fr_kernel_tick_count k + 1) (tcb k q)"
        by (auto simp: expires_def blocked_on_def)
      then show ?thesis using w [of q] that(1) t(5) n by (simp add: wview_def)
    qed
  qed (use t in simp_all)
  then show thesis using that [OF t(1)] by blast
qed

lemma switch_step:
  assumes "system_ok (k, c)" and "g_fr_scheduler_current_task k = Some p"
    and "fr_scheduler_saved_sp_valid (Some p) (cpu_psp (cpu k) - 32) k"
  obtains rs k' where "PendSV_Handler regs k = Ret rs k'" "system_ok (k', c)"
proof -
  note okD = system_okD [OF assms(1)]
  obtain rs k' where s: "PendSV_Handler regs k = Ret rs k'" "kernel_ok k'" "g_fr_scheduler_running k'"
    "objects k' = objects k" "registered k' = registered k" "thread_context_allowed k' = thread_context_allowed k"
    "\<And>q. q \<in> registered k \<Longrightarrow> wview k' q = wview k q"
    by (rule switch_effect [OF okD(1,3) assms(2,3), of regs]) blast
  have "system_ok (k', c)" by (rule system_ok_same_waits [OF assms(1) s(2,7,5,4,3)]) (use s(6) okD(2) in simp_all)
  then show thesis using that [OF s(1)] by blast
qed

lemma run_step: "system_ok (k, c) \<Longrightarrow> system_ok (k\<lparr>ram := m, cpu := (cpu k)\<lparr>cpu_psp := sp\<rparr>\<rparr>, c)"
  by (rule system_ok_same_waits)
    (auto simp: wview_def blocked_on_def registered_def thread_context_allowed_def same_kernel_def
      dest: system_okD(1-3) intro: kernel_ok_same)

lemma step_keeps_ok:
  assumes "step l \<sigma> \<sigma>'" and "system_ok \<sigma>"
  shows "system_ok \<sigma>'"
  using assms
proof (induction rule: step.induct)
  case (tick k k' c)
  then show ?case using tick_step [of k c] by (metis outcome.inject(1))
next
  case (switch k p regs loaded k' c)
  then show ?case using switch_step [of k c p regs] by (metis outcome.inject(1))
next
  case (run k p sp c m)
  then show ?case by (simp add: run_step)
next
  case (call p k c op r k')
  then show ?case using call_step [of k c p op] by (metis outcome.inject(1))
next
  case (resume p k c x r k')
  then show ?case using resume_step [of k c p x] by (metis outcome.inject(1))
qed


section \<open>Start-up\<close>

lemma create_cases:
  assumes "fr_task_create True (Some cfg) k = Ret r k'"
  shows "k' = k \<or> config_ok cfg \<and> g_fr_task_count k < 8 \<and> created_from cfg k k'"
proof (cases "config_ok cfg \<and> g_fr_task_count k < 8")
  case True
  then show ?thesis using create_ok [of cfg k] assms by auto
next
  case False
  then show ?thesis
    using assms by (auto simp: fr_task_create_def config_ok_def fr_task_create_reserve_def split_beta Let_def split: if_splits)
qed

lemma init_frame [simp]:
  "g_fr_scheduler_running (snd (fr_binary_semaphore_init a av k)) = g_fr_scheduler_running k"
  "g_fr_scheduler_running (snd (fr_counting_semaphore_init a n mx k)) = g_fr_scheduler_running k"
  "g_fr_scheduler_running (snd (fr_mutex_init a k)) = g_fr_scheduler_running k"
  "g_fr_scheduler_running (snd (fr_queue_init a st cap sz k)) = g_fr_scheduler_running k"
  "g_fr_scheduler_running (snd (fr_event_flags_init a k)) = g_fr_scheduler_running k"
  "cpu (snd (fr_binary_semaphore_init a av k)) = cpu k"
  "cpu (snd (fr_counting_semaphore_init a n mx k)) = cpu k"
  "cpu (snd (fr_mutex_init a k)) = cpu k"
  "cpu (snd (fr_queue_init a st cap sz k)) = cpu k"
  "cpu (snd (fr_event_flags_init a k)) = cpu k"
  by (simp_all add: fr_binary_semaphore_init_def fr_counting_semaphore_init_def fr_mutex_init_def
      fr_queue_init_def fr_event_flags_init_def Let_def)

text \<open>Start-up code that touches neither tasks nor objects.\<close>

definition boot_same :: "kernel \<Rightarrow> kernel \<Rightarrow> bool" where
  "boot_same k k' \<longleftrightarrow> same_kernel k k' \<and> links k' = links k \<and> (thread_context_allowed k \<longrightarrow> thread_context_allowed k')"

lemma boot_same_ops:
  "boot_same k (fr_assert_init k)" "boot_same k (fr_trace_init k)" "boot_same k (fst (snd (fr_systick_init hz tick_hz k m)))"
  "boot_same k (k\<lparr>ram := mem\<rparr>)" "boot_same k (fr_arch_enter_thread_psp sp k)"
  "\<not> g_fr_scheduler_running k \<Longrightarrow> SysTick_Handler k = Ret () k' \<Longrightarrow> boot_same k k'"
  by (auto simp: boot_same_def same_kernel_def thread_context_allowed_def fr_assert_init_def fr_trace_init_def fr_systick_init_def
      fr_systick_set_priority_def fr_arch_enter_thread_psp_def SysTick_Handler_def fr_scheduler_tick_isr_def
      fr_kernel_tick_isr_def Let_def)

lemma boot_same_ok:
  assumes "boot_same k k'" and "kernel_ok k \<and> \<not> g_fr_scheduler_running k \<and> thread_context_allowed k"
  shows "kernel_ok k' \<and> \<not> g_fr_scheduler_running k' \<and> thread_context_allowed k'"
  using assms kernel_ok_same [of k k'] by (auto simp: boot_same_def same_kernel_def)

lemma init_context [simp]:
  "thread_context_allowed (snd (fr_binary_semaphore_init a av k)) = thread_context_allowed k"
  "thread_context_allowed (snd (fr_counting_semaphore_init a n mx k)) = thread_context_allowed k"
  "thread_context_allowed (snd (fr_mutex_init a k)) = thread_context_allowed k"
  "thread_context_allowed (snd (fr_queue_init a st cap sz k)) = thread_context_allowed k"
  "thread_context_allowed (snd (fr_event_flags_init a k)) = thread_context_allowed k"
  by (simp_all add: thread_context_allowed_def fr_binary_semaphore_init_def fr_counting_semaphore_init_def fr_mutex_init_def
      fr_queue_init_def fr_event_flags_init_def Let_def)

lemma booted_ok:
  assumes "booted lm k"
  shows "kernel_ok k \<and> \<not> g_fr_scheduler_running k \<and> thread_context_allowed k"
  using assms
proof (induction rule: booted.induct)
  case reset
  then show ?case using kernel_ok_reset by (simp add: reset_kernel_def thread_context_allowed_def)
next
  case (create k cfg r k')
  from create_cases [OF create(2)] show ?case
    using create.IH create_kernel_ok [of k cfg k'] by (auto simp: created_from_def thread_context_allowed_def)
next
  case (ticks k k')
  then show ?case using boot_same_ok [OF boot_same_ops(6)] by blast
qed (simp_all add: binary_init_ok counting_init_ok mutex_init_ok queue_init_ok event_init_ok boot_same_ok [OF boot_same_ops(1)]
    boot_same_ok [OF boot_same_ops(2)] boot_same_ok [OF boot_same_ops(3)] boot_same_ok [OF boot_same_ops(4)]
    boot_same_ok [OF boot_same_ops(5)])

lemma started_ok:
  assumes "booted lm k" and "idle_placed k"
  obtains k' where "fr_scheduler_start k = Ret None k'" "system_ok (k', \<lambda>_. None)"
proof -
  note b = booted_ok [OF assms(1)]
  obtain k' where k': "fr_scheduler_start k = Ret None k'" "started_from k k'"
    using start_closed [of k] b assms(2) by blast
  have "system_ok (k', \<lambda>_. None)"
  proof (rule system_okI)
    show "kernel_ok k'" using start_kernel_ok [OF _ _ assms(2) k'(2)] b by blast
    show "thread_context_allowed k'"
      using k'(2) b by (simp add: started_from_def)
    show "g_fr_scheduler_running k'" using k'(2) by (simp add: started_from_def)
    show "blocked_on k' q = None" if "q \<in> registered k'" for q
    proof -
      have "q \<in> registered k" "q \<noteq> IdleTask" using that k'(2) by (auto simp: started_from_def registered_def)
      then show ?thesis
        using not_running_task(1) [of k q] b k'(2) by (auto simp: started_from_def blocked_on_def)
    qed
  qed simp
  then show thesis using that [OF k'(1)] by blast
qed

lemma reachable_ok: "reachable lm \<sigma> \<Longrightarrow> system_ok \<sigma>"
proof (induction rule: reachable.induct)
  case (start k k')
  then show ?case using started_ok [of lm k] by (metis outcome.inject(1))
next
  case (more \<sigma> l \<sigma>')
  then show ?case using step_keeps_ok by blast
qed


section \<open>Preemption and timeouts\<close>

text \<open>
  The processor belongs to a ready task of the highest priority, or a context switch is pending; no
  deadline that has been reached is still pending; no task is half created.
\<close>

definition prompt :: "kernel \<Rightarrow> bool" where
  "prompt k \<longleftrightarrow> pendsv_pending k \<or>
     (case g_fr_scheduler_current_task k of
        None \<Rightarrow> False
      | Some p \<Rightarrow> if p = IdleTask then \<forall>q. \<not> ready k q else \<forall>q. ready k q \<longrightarrow> prio k q \<le> prio k p)"

definition punctual :: "kernel \<Rightarrow> bool" where
  "punctual k \<longleftrightarrow> (\<forall>q \<in> registered k. \<not> expires (g_fr_kernel_tick_count k) (tcb k q) \<and>
     task_state (tcb k q) \<noteq> STATE_CREATED)"

lemma prompt_cong:
  assumes "prompt k" and "pendsv_pending k \<Longrightarrow> pendsv_pending k'" and "tcb k' = tcb k" and "registered k' = registered k"
    and "g_fr_scheduler_current_task k' = g_fr_scheduler_current_task k"
  shows "prompt k'"
  using assms by (auto simp: prompt_def ready_def prio_def split: option.splits)

lemma settled_prompt:
  assumes "kernel_ok k" and "g_fr_scheduler_running k" and "settled k"
  shows "prompt k"
proof (cases "pendsv_pending k")
  case True
  then show ?thesis by (simp add: prompt_def)
next
  case False
  obtain c where c: "g_fr_scheduler_current_task k = Some c" "c = IdleTask \<or> c \<in> registered k"
    "task_state (tcb k c) = STATE_RUNNING"
    using base_okD(3) [OF kernel_okD(1) [OF assms(1)]] assms(2) False by (auto simp: sched_ok_def)
  obtain p where p: "fr_scheduler_select_next (Some c) k = Some p"
    using select_next_total [of c k] c by metis
  have pc: "p = c" by (rule settled_select [OF assms(3) False assms(2) c(1) p])
  show ?thesis
  proof (cases c)
    case IdleTask
    then have "fr_scheduler_select_highest_ready k = None"
      using p pc select_highest_Some(1) [of k] by (auto simp: select_next_idle ready_def split: option.splits)
    then show ?thesis using c(1) IdleTask by (simp add: prompt_def)
  next
    case (Pool i)
    then have "prio k q \<le> prio k c" if "ready k q" for q
      using select_next_running(2) [of i k p q] c p pc that by simp
    then show ?thesis using c(1) Pool by (simp add: prompt_def)
  qed
qed

text \<open>The scheduler's choice is at least as urgent as every ready task and as the running one.\<close>

lemma select_next_best:
  assumes "fr_scheduler_select_next (Some c) k = Some p" and "c = IdleTask \<or> c \<in> registered k"
    and "task_state (tcb k c) = STATE_RUNNING \<or> c \<noteq> IdleTask \<and> task_state (tcb k c) = STATE_BLOCKED"
  shows "if p = IdleTask then (\<forall>q. \<not> ready k q) \<and> (c = IdleTask \<or> task_state (tcb k c) = STATE_BLOCKED)
    else (\<forall>q. ready k q \<longrightarrow> prio k q \<le> prio k p) \<and>
      (c \<noteq> IdleTask \<and> task_state (tcb k c) = STATE_RUNNING \<longrightarrow> prio k c \<le> prio k p)"
proof (cases c)
  case IdleTask
  then show ?thesis
    using assms(1) select_highest_Some [of k] by (auto simp: select_next_idle ready_def split: option.splits)
next
  case (Pool i)
  then have c: "Pool i \<in> registered k" using assms(2) by auto
  show ?thesis
  proof (cases "task_state (tcb k c) = STATE_RUNNING")
    case True
    then have "p \<noteq> IdleTask" using select_next_running(1) [OF c, of p] assms(1) Pool by (auto simp: ready_def)
    then show ?thesis using select_next_running(2,4) [OF c, of p] assms(1) Pool True by auto
  next
    case False
    then have b: "task_state (tcb k (Pool i)) = STATE_BLOCKED" using assms(3) Pool by auto
    from select_next_blocked [OF c b assms(1) [unfolded Pool]] show ?thesis
      using b Pool by (auto simp: ready_def)
  qed
qed

lemma served_prompt:
  assumes "caller p k" and "prompt k" and "served p a rs rw K k r k'"
  shows "prompt k'"
proof (cases "settled k'")
  case True
  then show ?thesis using assms(3) by (intro settled_prompt) (simp_all add: served_def)
next
  case False
  then have "tcb k' = tcb k" using assms(3) by (simp add: served_def)
  then show ?thesis
    using assms(1,3) by (intro prompt_cong [OF assms(2)]) (simp_all add: served_def caller_def)
qed

lemma served_punctual:
  assumes "caller p k" and "punctual k" and "served p a rs rw K k r k'"
  shows "punctual k'"
proof -
  have s: "registered k' = registered k" "g_fr_kernel_tick_count k' = g_fr_kernel_tick_count k" "timely k k'"
    using assms(3) by (simp_all add: served_def)
  have "\<not> expires (g_fr_kernel_tick_count k) (tcb k' q) \<and> task_state (tcb k' q) \<noteq> STATE_CREATED" if "q \<in> registered k" for q
  proof -
    have "\<not> expires (g_fr_kernel_tick_count k) (tcb k q)" "task_state (tcb k q) \<noteq> STATE_CREATED"
      using assms(2) that by (simp_all add: punctual_def)
    moreover note s(3) [unfolded timely_def, rule_format, of q]
    ultimately show ?thesis by (auto simp: expires_def)
  qed
  then show ?thesis by (simp add: punctual_def s)
qed


lemma switch_prompt_punctual:
  assumes "kernel_ok k" and "g_fr_scheduler_running k" and "g_fr_scheduler_current_task k = Some c"
    and "fr_scheduler_saved_sp_valid (Some c) (cpu_psp (cpu k) - 32) k" and "PendSV_Handler regs k = Ret rs k'"
  shows "prompt k'" "punctual k \<Longrightarrow> punctual k'"
proof -
  obtain p where s: "registered k' = registered k" "g_fr_kernel_tick_count k' = g_fr_kernel_tick_count k"
    "\<not> pendsv_pending k'" "g_fr_scheduler_current_task k' = Some p" "fr_scheduler_select_next (Some c) k = Some p"
    "tcb k' = switched_tcb c p (cpu_psp (cpu k) - 32) k"
    using switch_effect [OF assms(1-4), of regs] assms(5) by (metis outcome.inject(1))
  have c: "c = IdleTask \<or> c \<in> registered k"
    "task_state (tcb k c) = STATE_RUNNING \<or> c \<noteq> IdleTask \<and> task_state (tcb k c) = STATE_BLOCKED"
    using base_okD(3) [OF kernel_okD(1) [OF assms(1)]] assms(2,3) by (auto simp: sched_ok_def)
  note best = select_next_best [OF s(5) c]
  have pr: "prio k' q = prio k q" for q by (simp add: prio_def s(6) switched_tcb_def)
  have rd: "ready k' q \<Longrightarrow> ready k q \<or> q = c \<and> q \<noteq> IdleTask \<and> task_state (tcb k c) = STATE_RUNNING" for q
    by (auto simp: ready_def s(1,6) switched_tcb_def split: if_splits)
  show "prompt k'"
    using best rd s(4) by (auto simp: prompt_def pr split: if_splits)
  show "punctual k'" if "punctual k"
    using that unfolding punctual_def s(1,2,6) by (auto simp: switched_tcb_def expires_def split: if_splits)
qed

definition live :: "kernel \<Rightarrow> bool" where
  "live k \<longleftrightarrow> prompt k \<and> punctual k"

lemma served_live: "caller p k \<Longrightarrow> live k \<Longrightarrow> served p a rs rw K k r k' \<Longrightarrow> live k'"
  using served_prompt served_punctual unfolding live_def by blast

lemma step_live:
  assumes "step l \<sigma> \<sigma>'" and "system_ok \<sigma>" and "live (fst \<sigma>)"
  shows "live (fst \<sigma>')"
  using assms
proof (induction rule: step.induct)
  case (tick k k' c)
  note okD = system_okD [OF tick(2)]
  obtain k2 where k2: "SysTick_Handler k = Ret () k2" "kernel_ok k2" "g_fr_scheduler_running k2"
    "registered k2 = registered k" "g_fr_kernel_tick_count k2 = g_fr_kernel_tick_count k + 1" "settled k2"
    "\<And>q. q \<in> registered k \<Longrightarrow> \<not> expires (g_fr_kernel_tick_count k + 1) (tcb k2 q)"
    "\<And>q. q \<in> registered k \<Longrightarrow> task_state (tcb k2 q) = STATE_CREATED \<Longrightarrow> task_state (tcb k q) = STATE_CREATED"
    by (rule tick_effect [OF okD(1,3)]) blast
  have "k' = k2" using tick(1) k2(1) by simp
  then show ?case
    using settled_prompt [OF k2(2,3,6)] k2(4,5,7,8) tick(3) by (auto simp: live_def punctual_def)
next
  case (switch k p regs loaded k' c)
  then show ?case
    using switch_prompt_punctual [OF system_okD(1,3) [OF switch(6)] switch(2,3,5)] by (simp add: live_def)
next
  case (run k p sp c m)
  have "prompt (k\<lparr>ram := m, cpu := (cpu k)\<lparr>cpu_psp := sp\<rparr>\<rparr>)"
    by (rule prompt_cong [of k]) (use run in \<open>simp_all add: live_def registered_def\<close>)
  then show ?case using run by (simp add: live_def punctual_def registered_def)
next
  case (call p k c op r k')
  have c: "caller p k" by (rule executing_caller [OF call(4,1)])
  from exec_served [OF c, of op] call(3) have "serves p (target op) (suspends_with op) k r k'" by auto
  then show ?case using served_live [OF c] call(5) by auto
next
  case (resume p k c x r k')
  have c: "caller p k" by (rule executing_caller [OF resume(4,1)])
  obtain r2 k2 where "resume x p k = Ret r2 k2" "serves p (snd (wait_of x)) (fst (wait_of x)) k r2 k2"
    using resume_step [OF resume(4,1,2)] by metis
  then show ?case using served_live [OF c] resume(3,5) by auto
qed

lemma boot_same_ready:
  assumes "boot_same k k'" and "\<And>q. q \<in> registered k \<Longrightarrow> task_state (tcb k q) = STATE_READY" and "q \<in> registered k'"
  shows "task_state (tcb k' q) = STATE_READY"
  using assms by (auto simp: boot_same_def same_kernel_def registered_def)

lemma booted_ready: "booted lm k \<Longrightarrow> q \<in> registered k \<Longrightarrow> task_state (tcb k q) = STATE_READY"
proof (induction arbitrary: q rule: booted.induct)
  case reset
  then show ?case by (simp add: registered_def reset_kernel_def)
next
  case (create k cfg r k')
  from create_cases [OF create(2)] show ?case
  proof
    assume "k' = k"
    then show ?thesis using create by simp
  next
    assume c: "config_ok cfg \<and> g_fr_task_count k < 8 \<and> created_from cfg k k'"
    then have n: "unat (g_fr_task_count k + 1) = Suc (unat (g_fr_task_count k))" by (intro unat_Suc_word) blast
    have "q = Pool (unat (g_fr_task_count k)) \<or> q \<in> registered k"
      using create.prems c n by (auto simp: registered_def created_from_def less_Suc_eq)
    then show ?thesis using create.IH [of q] c by (auto simp: created_from_def created_task_def)
  qed
next
  case (assertions k)
  then show ?case using boot_same_ready [OF boot_same_ops(1)] by blast
next
  case (trace k)
  then show ?case using boot_same_ready [OF boot_same_ops(2)] by blast
next
  case (systick k hz tick_hz m)
  then show ?case using boot_same_ready [OF boot_same_ops(3)] by blast
next
  case (ticks k k')
  then show ?case using boot_same_ready [OF boot_same_ops(6)] booted_ok by blast
next
  case (memory k mem)
  then show ?case using boot_same_ready [OF boot_same_ops(4)] by blast
next
  case (process_stack k sp)
  then show ?case using boot_same_ready [OF boot_same_ops(5)] by blast
qed (simp_all add: fr_binary_semaphore_init_def fr_counting_semaphore_init_def fr_mutex_init_def
      fr_queue_init_def fr_event_flags_init_def Let_def split: if_splits)

lemma started_live:
  assumes "booted lm k" and "started_from k k'"
  shows "live k'"
proof -
  let ?f = "first_task k"
  have R: "registered k' = registered k" "g_fr_scheduler_current_task k' = Some ?f"
    "tcb k' = ((tcb k)(IdleTask := idle_tcb k))(?f := (((tcb k)(IdleTask := idle_tcb k)) ?f)\<lparr>task_state := STATE_RUNNING\<rparr>)"
    using assms(2) by (auto simp: started_from_def registered_def)
  have best: "if \<forall>q. \<not> ready k q then ?f = IdleTask else ready k ?f \<and> (\<forall>q. ready k q \<longrightarrow> prio k q \<le> prio k ?f)"
    using select_highest_Some [of k] select_highest_None [of k] by (auto simp: first_task_def split: option.splits)
  have q: "q \<noteq> IdleTask" if "q \<in> registered k" for q using that by auto
  have rd: "ready k q" if "ready k' q" for q
    using that booted_ready [OF assms(1)] by (auto simp: ready_def R)
  have pr: "prio k' q = prio k q" if "q \<in> registered k" for q using q [OF that] by (simp add: prio_def R(3))
  have "prompt k'"
    using best rd q pr by (auto simp: prompt_def R(2) ready_def split: if_splits)
  moreover have "punctual k'"
    using q booted_ready [OF assms(1)] by (auto simp: punctual_def R expires_def)
  ultimately show ?thesis by (simp add: live_def)
qed

lemma reachable_live: "reachable lm \<sigma> \<Longrightarrow> live (fst \<sigma>)"
proof (induction rule: reachable.induct)
  case (start k k')
  then obtain k2 where "fr_scheduler_start k = Ret None k2" "started_from k k2"
    using start_closed [of k] booted_ok [of lm k] by blast
  then show ?case using started_live [OF start(1)] start(3) by simp
next
  case (more \<sigma> l \<sigma>')
  then show ?case using step_live reachable_ok by blast
qed


section \<open>Properties of the running system\<close>

text \<open>A concrete start: two tasks of equal priority, one of which runs, and a free mutex.\<close>

lemma two_booted:
  obtains k p where "reachable example_links (k, \<lambda>_. None)" "registered k = {Pool 0, Pool 1}"
    "executing p k" "p \<in> registered k" "mutex_owner 0x20003000 k = None" "is_mutex (objects k 0x20003000)"
    "\<exists>q. objects k 0x20003100 = Queue q \<and> q_count q = 0"
    "tcb k = ((tcb two_tasks)(IdleTask := idle_tcb two_tasks))(p := (tcb two_tasks p)\<lparr>task_state := STATE_RUNNING\<rparr>)"
    "cpu_psp (cpu k) = saved_sp (tcb k p) + 32" "g_fr_task_count k = 2"
proof -
  let ?k0 = "reset_kernel example_links"
  have c0: "g_fr_task_count ?k0 = 0" by (simp add: reset_kernel_def)
  obtain k1 where k1: "fr_task_create True (Some config_a) ?k0 = Ret (TASK_OK, Wrote (Some (Pool (unat (g_fr_task_count ?k0))))) k1"
    "created_from config_a ?k0 k1"
    using create_ok [OF configs_ok(1), of ?k0] c0 by auto
  have c1: "g_fr_task_count k1 = 1" using k1(2) c0 by (simp add: created_from_def)
  obtain k2 where k2: "fr_task_create True (Some config_b) k1 = Ret (TASK_OK, Wrote (Some (Pool (unat (g_fr_task_count k1))))) k2"
    "created_from config_b k1 k2"
    using create_ok [OF configs_ok(2), of k1] c1 by auto
  let ?k3 = "snd (fr_queue_init 0x20003100 0x20004000 4 4 (snd (fr_mutex_init 0x20003000 k2)))"
  have b: "booted example_links ?k3"
    by (rule booted.queue [OF booted.mutex [OF booted.create [OF booted.create [OF booted.reset k1(1)] k2(1)]]])
  have R2: "registered k2 = {Pool 0, Pool 1}" "links k2 = links ?k0" "fr_scheduler_is_running k2 = False"
    using k1(2) k2(2) c0 c1
    by (auto simp: created_from_def registered_def less_2_cases_iff fr_scheduler_is_running_def reset_kernel_def)
  have m: "objects ?k3 0x20003000 = Mutex \<lparr>mx_magic = FR_MUTEX_MAGIC, mx_owner = None\<rparr>"
    "registered ?k3 = registered k2" "links ?k3 = links k2" "\<exists>q. objects ?k3 0x20003100 = Queue q \<and> q_count q = 0"
    using R2(3)
    by (simp_all add: fr_mutex_init_def fr_queue_init_def set_object_def registered_def fr_scheduler_is_running_def)
  have idle: "idle_placed ?k3"
    using R2(2) m(3) by (simp add: idle_placed_def reset_kernel_def example_links_def)
  obtain k where k: "fr_scheduler_start ?k3 = Ret None k" "started_from ?k3 k"
    using start_closed [of ?k3] booted_ok [OF b] idle by blast
  have "ready ?k3 (Pool 0)" using booted_ready [OF b, of "Pool 0"] R2(1) m(2) by (simp add: ready_def)
  then have f: "first_task ?k3 \<in> registered ?k3" using first_task_cases [of ?k3] by (auto simp: ready_def)
  have R: "registered k = registered ?k3" "objects k = objects ?k3" using k(2) by (simp_all add: started_from_def registered_def)
  have ex: "executing (first_task ?k3) k" using k(2) f by (auto simp: executing_def started_from_def)
  have t3: "tcb ?k3 = tcb two_tasks" "links ?k3 = links two_tasks" "g_fr_task_count ?k3 = 2"
    using k1(2) k2(2) c0 c1 R2(2,3) m(3)
    by (simp_all add: created_from_def fr_mutex_init_def fr_queue_init_def set_object_def fr_scheduler_is_running_def
        two_tasks_def reset_kernel_def)
  have "first_task ?k3 \<noteq> IdleTask" using f by (auto simp: registered_def)
  then have tk: "tcb k = ((tcb two_tasks)(IdleTask := idle_tcb two_tasks))(first_task ?k3 := (tcb two_tasks (first_task ?k3))\<lparr>task_state := STATE_RUNNING\<rparr>)"
    "cpu_psp (cpu k) = saved_sp (tcb k (first_task ?k3)) + 32" "g_fr_task_count k = 2"
    using k(2) t3 by (simp_all add: started_from_def idle_tcb_def)
  show thesis
    by (rule that [OF reachable.start [OF b idle k(1)] _ ex _ _ _ _ tk]) (use f R R2(1) m in \<open>simp_all add: mutex_owner_def\<close>)
qed

lemma waiter_le_owner:
  assumes "kernel_ok k" and "waits_for k w z"
  shows "prio k w \<le> prio k z"
proof -
  obtain z' where "z' \<in> registered k" "waits_for k w z'"
    using base_okD(6) [OF kernel_okD(1) [OF assms(1)]] assms(2) by (auto simp: mutex_waits_ok_def waits_for_def)
  then have "z \<in> registered k" using assms(2) by (simp add: waits_for_def)
  then show ?thesis
    using waiter_le_eff [OF assms(2)] kernel_okD(2) [OF assms(1)] by (simp add: inherit_ok_def inherit_inv_def)
qed

text \<open>
  C1. No assertion ever fails. In every state the running system can reach, the kernel invariant holds;
  the tick handler returns; a context switch returns whatever the registers, as long as the interrupted
  task's stack pointer is inside its stack; and every service call, and every resumption of a blocked
  call, by the running task returns or suspends the task. None of them halts in \<open>fr_assert_fail\<close>.
\<close>

theorem system_never_asserts:
  assumes "reachable lm (k, c)"
  shows "kernel_ok k \<and> (\<exists>k'. SysTick_Handler k = Ret () k') \<and>
    (\<forall>p regs. g_fr_scheduler_current_task k = Some p \<and> fr_scheduler_saved_sp_valid (Some p) (cpu_psp (cpu k) - 32) k \<longrightarrow>
       (\<exists>rs k'. PendSV_Handler regs k = Ret rs k')) \<and>
    (\<forall>p op. executing p k \<and> c p = None \<longrightarrow> (\<exists>r k'. exec op k = Ret r k')) \<and>
    (\<forall>p x. executing p k \<and> c p = Some x \<longrightarrow> (\<exists>r k'. resume x p k = Ret r k'))"
proof (intro conjI allI impI)
  have ok: "system_ok (k, c)" by (rule reachable_ok [OF assms])
  show "kernel_ok k" by (rule system_okD(1) [OF ok])
  show "\<exists>k'. SysTick_Handler k = Ret () k'" using tick_step [OF ok] by metis
  show "\<exists>rs k'. PendSV_Handler regs k = Ret rs k'"
    if "g_fr_scheduler_current_task k = Some p \<and> fr_scheduler_saved_sp_valid (Some p) (cpu_psp (cpu k) - 32) k" for p regs
    using switch_step [OF ok, of p regs] that by metis
  show "\<exists>r k'. exec op k = Ret r k'" if "executing p k \<and> c p = None" for p op
    using call_step [OF ok, of p op] that by metis
  show "\<exists>r k'. resume x p k = Ret r k'" if "executing p k \<and> c p = Some x" for p x
    using resume_step [OF ok, of p x] that by metis
qed

theorem system_never_asserts_witness:
  "\<exists>k p r k'. reachable example_links (k, \<lambda>_. None) \<and> executing p k \<and> exec (Sleep 1) k = Ret r k'"
proof -
  obtain k p where k: "reachable example_links (k, \<lambda>_. None)" "executing p k" by (rule two_booted) blast
  from system_never_asserts [OF k(1)] k show ?thesis by blast
qed

text \<open>
  C2. Fixed-priority preemption without priority inversion. Whenever no context switch is pending, the
  current task is RUNNING and its priority is at least that of every task \<open>w\<close> that is ready, or that waits
  for a mutex, directly or through a chain of owners, whose final owner is ready or running. When the
  idle task runs no task is ready.
\<close>

theorem no_priority_inversion:
  assumes "reachable lm (k, c)" and "\<not> pendsv_pending k"
  shows "\<exists>p. g_fr_scheduler_current_task k = Some p \<and> task_state (tcb k p) = STATE_RUNNING \<and>
    (\<forall>w z. (waits_for k)\<^sup>*\<^sup>* w z \<and> (ready k z \<or> z = p \<and> p \<noteq> IdleTask) \<longrightarrow> p \<noteq> IdleTask \<and> prio k w \<le> prio k p)"
proof -
  have ok: "kernel_ok k" "g_fr_scheduler_running k" using system_okD(1,3) [OF reachable_ok [OF assms(1)]] by simp_all
  have pr: "prompt k" using reachable_live [OF assms(1)] by (simp add: live_def)
  obtain p where p: "g_fr_scheduler_current_task k = Some p" "task_state (tcb k p) = STATE_RUNNING"
    using base_okD(3) [OF kernel_okD(1) [OF ok(1)]] ok(2) assms(2) by (auto simp: sched_ok_def)
  have chain: "prio k w \<le> prio k z" if "(waits_for k)\<^sup>*\<^sup>* w z" for w z
    using that
  proof (induction rule: rtranclp_induct)
    case (step y z)
    have "prio k y \<le> prio k z"
      using waiter_le_owner [OF ok(1) step(2)] .
    then show ?case using step.IH by simp
  qed simp
  show ?thesis
    using p pr chain assms(2) by (intro exI [of _ p]) (auto simp: prompt_def split: if_splits intro: order_trans)
qed


theorem no_priority_inversion_witness:
  "\<exists>k p. reachable example_links (k, \<lambda>_. None) \<and> p \<noteq> IdleTask \<and> g_fr_scheduler_current_task k = Some p \<and>
     task_state (tcb k p) = STATE_RUNNING"
proof -
  obtain k p where k: "reachable example_links (k, \<lambda>_. None)" "executing p k" by (rule two_booted) blast
  have "\<not> pendsv_pending k" using k(2) by (simp add: executing_def)
  from no_priority_inversion [OF k(1) this] k show ?thesis by (auto simp: executing_def)
qed

text \<open>
  C16. The kernel's own check never fires: whenever no context switch is pending,
  \<open>fr_kernel_check_invariants\<close> reports no violation.
\<close>

theorem self_check_passes:
  assumes "reachable lm (k, c)" and "\<not> pendsv_pending k"
  shows "fst (fr_kernel_check_invariants True k)"
proof -
  note okD = system_okD [OF reachable_ok [OF assms(1)]] and base = base_okD [OF kernel_okD(1) [OF okD(1)]]
  have pu: "punctual k" using reachable_live [OF assms(1)] by (simp add: live_def)
  have slot: "slot_ok k True i" if "i < unat (g_fr_task_count k)" for i
  proof -
    have i: "Pool i \<in> registered k" using that by simp
    have "task_state (tcb k (Pool i)) \<noteq> STATE_CREATED" using pu i by (simp add: punctual_def)
    moreover have "prio k (Pool i) = eff k (Pool i)" "prio k (Pool i) \<le> 31"
      using kernel_okD(2) [OF okD(1)] i unfolding inherit_ok_def inherit_inv_def prios_le_def by blast+
    ultimately show ?thesis
      using base(2) [OF that] base_le_eff [of k "Pool i"] by (auto simp: slot_ok_def task_ok_def Let_def prio_def)
  qed
  have "running_tasks k = set_option (fr_scheduler_current_task k)"
    using base(3) okD(3) assms(2)
    by (auto simp: sched_ok_def running_tasks_def fr_scheduler_current_task_def split: if_splits)
  then show ?thesis
    using slot base(1) okD(3) by (simp add: check_result scan_accepts_def)
qed

theorem self_check_passes_witness:
  "\<exists>k. reachable example_links (k, \<lambda>_. None) \<and> fst (fr_kernel_check_invariants True k)"
proof -
  obtain k p where k: "reachable example_links (k, \<lambda>_. None)" "executing p k" by (rule two_booted) blast
  have "\<not> pendsv_pending k" using k(2) by (simp add: executing_def)
  from self_check_passes [OF k(1) this] k show ?thesis by blast
qed

text \<open>What every step keeps, and what only service calls may change.\<close>

lemma step_served:
  assumes "system_ok (k, c)" and "step l (k, c) (k', c')"
  shows "registered k' = registered k \<and>
    g_fr_kernel_tick_count k' = g_fr_kernel_tick_count k + (if l = Tick then 1 else 0) \<and>
    (objects k' = objects k \<or>
     (\<exists>p op r. l = Call p op \<and> executing p k \<and> exec op k = Ret r k') \<or>
     (\<exists>p x r. l = Resume p \<and> executing p k \<and> c p = Some x \<and> resume x p k = Ret r k' \<and>
        serves p (snd (wait_of x)) (fst (wait_of x)) k r k'))"
  using assms(2)
proof (elim step_cases, goal_cases)
  case 1
  obtain k2 where "SysTick_Handler k = Ret () k2" "objects k2 = objects k" "registered k2 = registered k"
    "g_fr_kernel_tick_count k2 = g_fr_kernel_tick_count k + 1"
    by (rule tick_effect [OF system_okD(1,3) [OF assms(1)]]) blast
  then show ?case using 1 by simp
next
  case (2 p regs loaded)
  obtain rs k2 where "PendSV_Handler regs k = Ret rs k2" "objects k2 = objects k" "registered k2 = registered k"
    "g_fr_kernel_tick_count k2 = g_fr_kernel_tick_count k"
    by (rule switch_effect [OF system_okD(1,3) [OF assms(1)] 2(4,5), of regs]) blast
  then show ?case using 2 by simp
next
  case (3 p sp m)
  then show ?case by (simp add: registered_def)
next
  case (4 p op r)
  have "serves p (target op) (suspends_with op) k r k'"
    using exec_served [OF executing_caller [OF assms(1) 4(3)], of op] 4(5) by auto
  then show ?case using 4 by (auto simp: served_def)
next
  case (5 p x r)
  obtain r2 k2 where "resume x p k = Ret r2 k2" "serves p (snd (wait_of x)) (fst (wait_of x)) k r2 k2"
    by (rule resume_step [OF assms(1) 5(3,4)])
  then have sv: "serves p (snd (wait_of x)) (fst (wait_of x)) k r k'" using 5(5) by simp
  then show ?case using 5 by (auto simp: served_def)
qed

lemma step_owner:
  assumes "system_ok (k, c)" and "step l (k, c) (k', c')" and "mutex_owner a k = Some p"
  shows "mutex_owner a k' = Some p \<or> l = Call p (Unlock a)"
proof -
  from step_served [OF assms(1,2)] consider "objects k' = objects k"
    | q op r where "l = Call q op" "executing q k" "exec op k = Ret r k'"
    | q x r where "resume x q k = Ret r k'" "serves q (snd (wait_of x)) (fst (wait_of x)) k r k'"
    by blast
  then show ?thesis
  proof cases
    case 1
    then show ?thesis using assms(3) by (simp add: mutex_owner_def)
  next
    case (2 q op r)
    then show ?thesis using exec_mutex(1) [OF executing_caller [OF assms(1) 2(2)] 2(3), of a] assms(3) by auto
  next
    case (3 q x r)
    then show ?thesis using resume_mutex(1) [OF 3(2,1), of a] assms(3) by simp
  qed
qed

text \<open>
  C3. Mutual exclusion. In the running system a task loses a mutex only by its own call of
  \<open>fr_mutex_unlock\<close>: no other step, whether by another task or by an interrupt, takes it away. A call of
  lock that returns true, at once or after waiting, leaves the caller the owner.
\<close>

theorem mutual_exclusion:
  assumes "reachable lm (k, c)"
  shows "(\<forall>l k' c' a p. step l (k, c) (k', c') \<and> mutex_owner a k = Some p \<and> mutex_owner a k' \<noteq> Some p \<longrightarrow>
      l = Call p (Unlock a)) \<and>
    (\<forall>p a t k'. executing p k \<and> exec (Lock a t) k = Ret (Returned True) k' \<longrightarrow> mutex_owner a k' = Some p) \<and>
    (\<forall>p a k'. executing p k \<and> resume (AfterLock a) p k = Ret (Returned True) k' \<longrightarrow> mutex_owner a k' = Some p)"

proof (intro conjI allI impI)
  have ok: "system_ok (k, c)" by (rule reachable_ok [OF assms])
  show "l = Call p (Unlock a)"
    if "step l (k, c) (k', c') \<and> mutex_owner a k = Some p \<and> mutex_owner a k' \<noteq> Some p" for l k' c' a p
    using step_owner [OF ok, of l k' c' a p] that by blast
  show "mutex_owner a k' = Some p" if "executing p k \<and> exec (Lock a t) k = Ret (Returned True) k'" for p a t k'
    using lock_served [OF executing_caller [OF ok], of p a t] that by auto
  show "mutex_owner a k' = Some p" if "executing p k \<and> resume (AfterLock a) p k = Ret (Returned True) k'" for p a k'
    using that by (auto simp: fr_mutex_lock_resume_def)
qed

theorem mutual_exclusion_witness:
  "\<exists>k p k'. reachable example_links (k, \<lambda>_. None) \<and> executing p k \<and>
     exec (Lock 0x20003000 0) k = Ret (Returned True) k' \<and> mutex_owner 0x20003000 k' = Some p"
proof -
  obtain k p where k: "reachable example_links (k, \<lambda>_. None)" "executing p k"
    "mutex_owner 0x20003000 k = None" "is_mutex (objects k 0x20003000)"
    by (rule two_booted) blast
  obtain m where m: "objects k 0x20003000 = Mutex m" using k(4) by (rule is_mutexE)
  have c: "caller p k" by (rule executing_caller [OF reachable_ok [OF k(1)] k(2)])
  obtain r k' where r: "fr_mutex_lock 0x20003000 0 k = Ret r k'" "mutex_lock_post p 0x20003000 0 k r k'"
    using lock_post [OF c m, of 0] by auto
  then have "exec (Lock 0x20003000 0) k = Ret (Returned True) k'" using k(3) by (simp add: mutex_lock_post_def)
  with mutual_exclusion [OF k(1)] k(1,2) show ?thesis by blast
qed

text \<open>
  A run of the system in which every state satisfies \<open>P\<close>, with the labels of its steps.
\<close>

inductive run_within :: "(system \<Rightarrow> bool) \<Rightarrow> label list \<Rightarrow> system \<Rightarrow> system \<Rightarrow> bool" for P where
  here: "P \<sigma> \<Longrightarrow> run_within P [] \<sigma> \<sigma>"
| onward: "P \<sigma> \<Longrightarrow> step l \<sigma> \<sigma>' \<Longrightarrow> run_within P ls \<sigma>' \<sigma>'' \<Longrightarrow> run_within P (l # ls) \<sigma> \<sigma>''"

definition blocked_until :: "task_ptr \<Rightarrow> u32 \<Rightarrow> system \<Rightarrow> bool" where
  "blocked_until q d \<sigma> \<longleftrightarrow> (case \<sigma> of (k, c) \<Rightarrow> q \<in> registered k \<and> task_state (tcb k q) = STATE_BLOCKED \<and>
     wait_has_deadline (tcb k q) \<and> wait_deadline (tcb k q) = d)"

lemma blocked_until_pending:
  assumes "punctual k" and "blocked_until q d (k, c)"
  shows "0 < unat (d - g_fr_kernel_tick_count k)"
proof -
  have "\<not> fr_tick_deadline_reached (g_fr_kernel_tick_count k) d"
    using assms by (auto simp: punctual_def blocked_until_def expires_def)
  then show ?thesis by (auto simp: deadline_reached_unat unat_gt_0)
qed

lemma run_within_ticks:
  assumes "run_within (blocked_until q d) ls \<sigma> \<sigma>'" and "reachable lm \<sigma>"
  shows "count_list ls Tick < unat (d - g_fr_kernel_tick_count (fst \<sigma>))"
  using assms
proof (induction rule: run_within.induct)
  case (here \<sigma>)
  have "punctual (fst \<sigma>)" using reachable_live [OF here(2)] by (simp add: live_def)
  then show ?case using blocked_until_pending [of "fst \<sigma>" q d "snd \<sigma>"] here(1) by simp
next
  case (onward \<sigma> l \<sigma>' ls \<sigma>'')
  obtain k c k' c' where s: "\<sigma> = (k, c)" "\<sigma>' = (k', c')" by (metis surj_pair)
  have ok: "system_ok (k, c)" and pu: "punctual k"
    using reachable_ok [OF onward(5)] reachable_live [OF onward(5)] by (simp_all add: s live_def)
  have pos: "0 < unat (d - g_fr_kernel_tick_count k)"
    using blocked_until_pending [OF pu] onward(1) by (simp add: s)
  have "g_fr_kernel_tick_count k' = g_fr_kernel_tick_count k + (if l = Tick then 1 else 0)"
    using step_served [OF ok, of l k' c'] onward(2) by (simp add: s)
  then have "unat (d - g_fr_kernel_tick_count k') = unat (d - g_fr_kernel_tick_count k) - (if l = Tick then 1 else 0)"
    using pos by (auto simp: unat_gt_0 unat_minus_one diff_diff_eq [symmetric])
  moreover have "count_list ls Tick < unat (d - g_fr_kernel_tick_count k')"
    using onward.IH reachable.more [OF onward(5,2)] by (simp add: s)
  ultimately show ?case using pos by (auto simp: s)
qed

text \<open>
  C8. Timeouts are punctual. Whatever tasks and interrupts do, a task that is blocked with a deadline stays
  in that wait for fewer ticks than its deadline is ahead of the tick count: at the latest the tick that
  reaches the deadline wakes it. The deadline is never more than \<open>2\<^sup>3\<^sup>1\<close> ticks ahead, so no wait with a
  timeout lasts forever while the tick interrupt is taken.
\<close>

theorem timed_wait_ends:
  assumes "reachable lm (k, c)" and "run_within (blocked_until q d) ls (k, c) \<sigma>'"
  shows "count_list ls Tick < unat (d - g_fr_kernel_tick_count k) \<and> unat (d - g_fr_kernel_tick_count k) \<le> 2147483648"
proof
  show "count_list ls Tick < unat (d - g_fr_kernel_tick_count k)"
    using run_within_ticks [OF assms(2,1)] by simp
  have "punctual k" using reachable_live [OF assms(1)] by (simp add: live_def)
  moreover have "blocked_until q d (k, c)" using assms(2) by (cases rule: run_within.cases) auto
  ultimately have "\<not> fr_tick_deadline_reached (g_fr_kernel_tick_count k) d"
    by (auto simp: punctual_def blocked_until_def expires_def)
  then show "unat (d - g_fr_kernel_tick_count k) \<le> 2147483648"
    by (auto simp: deadline_reached_unat unat_sub_if' split: if_splits)
qed

theorem timed_wait_ends_witness:
  "\<exists>k c p. reachable example_links (k, c) \<and> blocked_until p (g_fr_kernel_tick_count k + 5) (k, c) \<and>
     (\<forall>ls \<sigma>'. run_within (blocked_until p (g_fr_kernel_tick_count k + 5)) ls (k, c) \<sigma>' \<longrightarrow> count_list ls Tick < 5)"
proof -
  obtain k p where k: "reachable example_links (k, \<lambda>_. None)" "executing p k" by (rule two_booted) blast
  have c: "caller p k" by (rule executing_caller [OF reachable_ok [OF k(1)] k(2)])
  let ?k = "suspended p WAIT_SLEEP 0 5 k"
  have e: "exec (Sleep 5) k = Ret Suspended ?k" using sleep_call [OF c, of 5] by simp
  obtain c' where r: "reachable example_links (?k, c')"
    using reachable.more [OF k(1) step.call [OF k(2) _ e]] by auto
  have "blocked_until p (g_fr_kernel_tick_count ?k + 5) (?k, c')"
    using caller_facts(8) [OF c] by (simp add: blocked_until_def)
  then show ?thesis using r timed_wait_ends [OF r, of p "g_fr_kernel_tick_count ?k + 5"] by fastforce
qed

text \<open>
  C15. Blocked calls end as promised. A task that blocked in \<open>fr_task_sleep\<close> gets true when it runs again. A
  task that blocked in \<open>fr_mutex_lock\<close> gets true exactly when it was signalled, and then it owns the
  mutex; otherwise its wait timed out.
\<close>

theorem blocked_call_result:
  assumes "reachable lm (k, c)" and "executing p k"
  shows "(c p = Some AfterSleep \<longrightarrow> resume AfterSleep p k = Ret (Returned True) k) \<and>
    (\<forall>a. c p = Some (AfterLock a) \<longrightarrow>
       (if wait_result (tcb k p) = RESULT_SIGNALED
        then mutex_owner a k = Some p \<and> resume (AfterLock a) p k = Ret (Returned True) k
        else wait_result (tcb k p) = RESULT_TIMEOUT \<and> resume (AfterLock a) p k = Ret (Returned False) k))"
proof -
  have ok: "system_ok (k, c)" by (rule reachable_ok [OF assms(1)])
  have nb: "blocked_on k p = None"
    using caller_facts(11) [OF executing_caller [OF ok assms(2)]] by (simp add: blocked_on_def)
  show ?thesis
    using system_okD(6) [OF ok, of p] nb
    by (auto simp: continuation_ok_def wview_def fr_task_sleep_resume_def fr_mutex_lock_resume_def)
qed

text \<open>A system with one task sleeps, is woken by the tick and runs again.\<close>

lemma one_booted:
  obtains k where "reachable example_links (k, \<lambda>_. None)" "registered k = {Pool 0}" "executing (Pool 0) k"
    "cpu_psp (cpu k) = saved_sp (tcb k (Pool 0)) + 32"
proof -
  let ?k0 = "reset_kernel example_links"
  have c0: "g_fr_task_count ?k0 = 0" by (simp add: reset_kernel_def)
  obtain k1 where k1: "fr_task_create True (Some config_a) ?k0 = Ret (TASK_OK, Wrote (Some (Pool (unat (g_fr_task_count ?k0))))) k1"
    "created_from config_a ?k0 k1"
    using create_ok [OF configs_ok(1), of ?k0] c0 by auto
  have b: "booted example_links k1" by (rule booted.create [OF booted.reset k1(1)])
  have R1: "registered k1 = {Pool 0}" "links k1 = links ?k0"
    using k1(2) c0 by (auto simp: created_from_def registered_def)
  have idle: "idle_placed k1" using R1(2) by (simp add: idle_placed_def reset_kernel_def example_links_def)
  obtain k where k: "fr_scheduler_start k1 = Ret None k" "started_from k1 k"
    using start_closed [of k1] booted_ok [OF b] idle by blast
  have "ready k1 (Pool 0)" using booted_ready [OF b, of "Pool 0"] R1(1) by (simp add: ready_def)
  then have "first_task k1 = Pool 0" using first_task_cases [of k1] R1(1) by (auto simp: ready_def)
  then show thesis
    using that [OF reachable.start [OF b idle k(1)]] k(2) R1(1) by (auto simp: started_from_def executing_def registered_def)
qed

theorem blocked_call_result_witness:
  "\<exists>k c p k'. reachable example_links (k, c) \<and> executing p k \<and> c p = Some AfterSleep \<and>
     resume AfterSleep p k = Ret (Returned True) k'"
proof -
  obtain k where k: "reachable example_links (k, \<lambda>_. None)" "registered k = {Pool 0}" "executing (Pool 0) k"
    "cpu_psp (cpu k) = saved_sp (tcb k (Pool 0)) + 32"
    by (rule one_booted)
  let ?p = "Pool 0" and ?c = "(\<lambda>_. None)(Pool 0 := Some AfterSleep)"
  have cl: "caller ?p k" by (rule executing_caller [OF reachable_ok [OF k(1)] k(3)])
  let ?k1 = "suspended ?p WAIT_SLEEP 0 1 k"
  have e: "exec (Sleep 1) k = Ret Suspended ?k1" using sleep_call [OF cl, of 1] by simp
  have r1: "reachable example_links (?k1, ?c)" using reachable.more [OF k(1) step.call [OF k(3) _ e]] by simp
  note ok1 = system_okD [OF reachable_ok [OF r1]]
  have R1: "registered ?k1 = {?p}" using k(2) by simp
  have x: "expires (g_fr_kernel_tick_count ?k1 + 1) (tcb ?k1 ?p)" by (simp add: expires_def deadline_reached_unat)
  obtain k2 where k2: "SysTick_Handler ?k1 = Ret () k2" "g_fr_scheduler_current_task k2 = g_fr_scheduler_current_task ?k1"
    "cpu k2 = cpu ?k1" "\<And>q. saved_sp (tcb k2 q) = saved_sp (tcb ?k1 q)" "pendsv_pending ?k1 \<Longrightarrow> pendsv_pending k2"
    "registered k2 = registered ?k1"
    "\<And>q. q \<in> registered ?k1 \<Longrightarrow> wview k2 q =
       (if expires (g_fr_kernel_tick_count ?k1 + 1) (tcb ?k1 q) then (None, RESULT_TIMEOUT) else wview ?k1 q)"
    by (rule tick_effect [OF ok1(1,3)]) blast
  have r2: "reachable example_links (k2, ?c)" by (rule reachable.more [OF r1 step.tick [OF k2(1)]])
  note ok2 = system_okD [OF reachable_ok [OF r2]] and base2 = base_okD [OF kernel_okD(1) [OF system_okD(1) [OF reachable_ok [OF r2]]]]
  have cur: "g_fr_scheduler_current_task k2 = Some ?p" using k2(2) caller_facts(5) [OF cl] by simp
  have w2: "wview k2 ?p = (None, RESULT_TIMEOUT)" using k2(7) [of ?p] x unfolding R1 by simp
  then have run: "task_state (tcb k2 ?p) = STATE_RUNNING"
    using base2(3) ok2(3) cur by (auto simp: sched_ok_def wview_def blocked_on_def split: if_splits)
  have p2: "?p \<in> registered k2" unfolding k2(6) R1 by simp
  then have tk: "task_ok 0 (tcb k2 ?p)" using task_ok_registered [OF kernel_okD(1) [OF ok2(1)], of ?p] by auto
  have v: "fr_scheduler_saved_sp_valid (Some ?p) (cpu_psp (cpu k2) - 32) k2"
  proof -
    have "cpu_psp (cpu k2) - 32 = saved_sp (tcb k2 ?p)" using k2(3) k2(4) [of ?p] k(4) by simp
    moreover have "(tcb k2 ?p)\<lparr>saved_sp := saved_sp (tcb k2 ?p)\<rparr> = tcb k2 ?p" by simp
    ultimately show ?thesis
      using tk run geometry_nonnull [of "tcb k2 ?p"] by (simp add: saved_sp_valid_eq task_ok_def)
  qed
  obtain rs p' k3 where k3: "PendSV_Handler (replicate 8 0) k2 = Ret rs k3" "\<not> pendsv_pending k3"
    "g_fr_scheduler_current_task k3 = Some p'" "fr_scheduler_select_next (Some ?p) k2 = Some p'" "g_fr_scheduler_running k3"
    by (rule switch_effect [OF ok2(1,3) cur v, of "replicate 8 0"]) blast
  have "p' = ?p"
    using select_next_running(1) [OF p2 run k3(4)] run unfolding ready_def k2(6) R1 by auto
  then have ex: "executing ?p k3" using k3 by (simp add: executing_def)
  have r3: "reachable example_links (k3, ?c)"
    by (rule reachable.more [OF r2 step.switch [OF _ cur v _ k3(1)]]) (use k2(5) in simp_all)
  have c: "?c ?p = Some AfterSleep" by simp
  from blocked_call_result [OF r3 ex] c have "resume AfterSleep ?p k3 = Ret (Returned True) k3" by blast
  with r3 ex c show ?thesis by blast
qed


section \<open>Object types\<close>

datatype object_type = NoType | SemaphoreType | MutexType | QueueType | EventFlagsType

fun type_of :: "kobj \<Rightarrow> object_type" where
  "type_of NoObject = NoType"
| "type_of (BinarySemaphore b) = SemaphoreType"
| "type_of (CountingSemaphore c) = SemaphoreType"
| "type_of (Mutex m) = MutexType"
| "type_of (Queue q) = QueueType"
| "type_of (EventFlags f) = EventFlagsType"

lemma kind_type: "kind_of r ob \<Longrightarrow> kind_of r ob' \<Longrightarrow> type_of ob = type_of ob'"
  by (cases r; cases ob; cases ob') (simp_all add: is_semaphore_def sem_tokens_def)




section \<open>Rotation restarts after a preemption\<close>

text \<open>
  The turn order starts after the task that had the processor last. When that is a task of higher
  priority in slot 0, the next turn goes to slot 1, whichever of the tasks of slots 1 and 2 it had
  preempted. If it wakes and blocks again within every tick, the task of slot 2 never runs.
\<close>

lemma rotation_restarts_after_preemption:
  assumes "g_fr_task_count k = 3" and "task_state (tcb k (Pool 0)) = STATE_BLOCKED"
    and "ready k (Pool 1)" and "ready k (Pool 2)" and "prio k (Pool 1) = prio k (Pool 2)"
  shows "fr_scheduler_select_next (Some (Pool 0)) k = Some (Pool 1)"
proof -
  have R: "registered k = {Pool 0, Pool 1, Pool 2}" using assms(1) by (auto simp: registered_def)
  have r0: "Pool 0 \<in> registered k" unfolding R by simp
  have turn: "turn_order k 0 = [Pool 1, Pool 2]" by (simp add: turn_order_def assms(1) upt_rec)
  obtain p where p: "fr_scheduler_select_next (Some (Pool 0)) k = Some p"
    using select_next_total [of "Pool 0" k] r0 assms(2) by blast
  have "ready k p" using select_next_blocked [OF r0 assms(2) p] assms(3) by blast
  then have "p = Pool 1 \<or> p = Pool 2" using assms(2) unfolding ready_def R by auto
  moreover have "p \<noteq> Pool 2"
    using select_next_first [OF r0 _ p, of "[Pool 1]" "[]" "Pool 1"] turn assms by auto
  ultimately show ?thesis using p by blast
qed

end
