(* ===== verification/Queue_Wakeups.thy ===== *)
theory Queue_Wakeups
  imports System
begin

text \<open>
  The message queues wake a waiter and let it retry, instead of handing the item over. This theory shows
  that no wake-up is lost by that: in every reachable state in which a receiver still waits, each
  stored item is matched by a receiver that has been signalled and has not run yet, and likewise for
  senders and free slots.
\<close>

section \<open>Units\<close>

text \<open>What a waiter with reason \<open>r\<close> waits for: stored items for receivers, free slots for senders.\<close>

definition units :: "fr_wait_reason \<Rightarrow> fr_queue \<Rightarrow> nat" where
  "units r q = (if r = WAIT_QUEUE_SEND then unat (q_capacity q) - unat (q_count q) else unat (q_count q))"

definition queue_reason :: "fr_wait_reason \<Rightarrow> bool" where
  "queue_reason r \<longleftrightarrow> r = WAIT_QUEUE_SEND \<or> r = WAIT_QUEUE_RECEIVE"

lemma queue_reason_opposite [simp]:
  "queue_reason r \<Longrightarrow> queue_reason (opposite r)" "queue_reason r \<Longrightarrow> opposite r \<noteq> r"
  "queue_reason r \<Longrightarrow> opposite (opposite r) = r"
  by (auto simp: queue_reason_def)

text \<open>Tasks that were woken for reason \<open>r\<close> on \<open>a\<close> and have not resumed yet.\<close>

definition in_flight :: "fr_wait_reason \<Rightarrow> u32 \<Rightarrow> system \<Rightarrow> task_ptr set" where
  "in_flight r a \<sigma> = (case \<sigma> of (k, c) \<Rightarrow>
     {p. (\<exists>x. c p = Some x \<and> wait_of x = (r, a)) \<and> wview k p = (None, RESULT_SIGNALED)})"

definition live_at :: "fr_wait_reason \<Rightarrow> u32 \<Rightarrow> system \<Rightarrow> bool" where
  "live_at r a \<sigma> \<longleftrightarrow> (case \<sigma> of (k, c) \<Rightarrow>
     \<forall>q w. objects k a = Queue q \<and> waiting r a k w \<longrightarrow> units r q \<le> card (in_flight r a (k, c)))"

definition queues_live :: "system \<Rightarrow> bool" where
  "queues_live \<sigma> \<longleftrightarrow> (\<forall>r a. queue_reason r \<longrightarrow> live_at r a \<sigma>)"

lemma finite_in_flight: "system_ok (k, c) \<Longrightarrow> finite (in_flight r a (k, c))"
  by (rule finite_subset [of _ "registered k"]) (auto simp: in_flight_def dest: system_okD(4))

lemma live_at_quiet:
  assumes "live_at r a (k, c)" and "system_ok (k', c')"
    and "\<And>q. objects k' a = Queue q \<Longrightarrow> objects k a = Queue q"
    and "\<And>w. waiting r a k' w \<Longrightarrow> waiting r a k w"
    and "in_flight r a (k, c) \<subseteq> in_flight r a (k', c')"
  shows "live_at r a (k', c')"
  using assms(1,3,4) card_mono [OF finite_in_flight [OF assms(2)] assms(5)]
  unfolding live_at_def by (fastforce intro: order_trans)


section \<open>One pass over a queue\<close>

definition passed :: "task_ptr \<Rightarrow> u32 \<Rightarrow> fr_wait_reason \<Rightarrow> fr_queue \<Rightarrow> kernel \<Rightarrow> kernel \<Rightarrow> bool" where
  "passed p a r q s s' \<longleftrightarrow>
     units r q = 0 \<and> objects s' = objects s \<and> (\<forall>w. w \<noteq> p \<longrightarrow> wview s' w = wview s w) \<or>
     (\<exists>q'. objects s' = (objects s)(a := Queue q') \<and> Suc (units r q') = units r q \<and>
        units (opposite r) q' = Suc (units (opposite r) q) \<and>
        ((\<forall>w. \<not> waiting (opposite r) a s w) \<and> wview s' = wview s \<or>
         (\<exists>w. waiting (opposite r) a s w \<and> wview s' = (wview s)(w := (None, RESULT_SIGNALED)))))"

lemma queue_wake_view:
  assumes "a \<noteq> 0" and "r \<in> {WAIT_QUEUE_SEND, WAIT_QUEUE_RECEIVE}" and "wview u = wview s" and "\<And>w. waiting r a u w = waiting r a s w"
  shows "(\<forall>w. \<not> waiting r a s w) \<and> wview (queue_wake r a u) = wview s \<or>
    (\<exists>w. waiting r a s w \<and> wview (queue_wake r a u) = (wview s)(w := (None, RESULT_SIGNALED)))"
  using select_waiter_Some(1) [of r a u] select_waiter_None [OF assms(1), of r u] assms(2-4)
  by (cases "fr_scheduler_select_waiter_locked r a u") (auto simp: queue_wake_def)

lemma queue_wake_objects [simp]: "objects (queue_wake r a s) = objects s"
  by (simp add: queue_wake_def split: option.splits)

lemma units_sent:
  assumes "queue_ok q" and "q_count q \<noteq> q_capacity q"
  shows "Suc (units WAIT_QUEUE_SEND (sent q)) = units WAIT_QUEUE_SEND q"
    "units WAIT_QUEUE_RECEIVE (sent q) = Suc (units WAIT_QUEUE_RECEIVE q)"
proof -
  have "q_count q < q_capacity q" using queue_okD(6) [OF assms(1)] assms(2) by simp
  then have "unat (q_count q) < unat (q_capacity q)" by (simp add: word_less_nat_alt)
  moreover have "q_capacity (sent q) = q_capacity q" by (simp add: sent_def)
  ultimately show "Suc (units WAIT_QUEUE_SEND (sent q)) = units WAIT_QUEUE_SEND q"
    "units WAIT_QUEUE_RECEIVE (sent q) = Suc (units WAIT_QUEUE_RECEIVE q)"
    using queue_ok_sent(2) [OF assms] by (simp_all add: units_def)
qed

lemma units_received:
  assumes "queue_ok q" and "q_count q \<noteq> 0"
  shows "Suc (units WAIT_QUEUE_RECEIVE (received q)) = units WAIT_QUEUE_RECEIVE q"
    "units WAIT_QUEUE_SEND (received q) = Suc (units WAIT_QUEUE_SEND q)"
proof -
  have "0 < unat (q_count q)" "unat (q_count q) \<le> unat (q_capacity q)"
    using queue_okD(6) [OF assms(1)] assms(2) by (simp_all add: word_le_nat_alt unat_gt_0)
  moreover have "q_capacity (received q) = q_capacity q" by (simp add: received_def)
  ultimately show "Suc (units WAIT_QUEUE_RECEIVE (received q)) = units WAIT_QUEUE_RECEIVE q"
    "units WAIT_QUEUE_SEND (received q) = Suc (units WAIT_QUEUE_SEND q)"
    using queue_ok_received(2) [OF assms] by (simp_all add: units_def)
qed

lemma pass_passed:
  assumes "caller p s" and "objects s a = Queue q" and "a \<noteq> 0"
  shows "fr_queue_send_pass a item to s = Ret r s' \<Longrightarrow> passed p a WAIT_QUEUE_SEND q s s'"
    "fr_queue_receive_pass a item to s = Ret r s' \<Longrightarrow> passed p a WAIT_QUEUE_RECEIVE q s s'"
proof -
  obtain mo n where rem: "fr_wait_timeout_remaining to s = (mo, n)" by (cases "fr_wait_timeout_remaining to s")
  have qok: "queue_ok q" by (rule queue_object_ok [OF caller_facts(2) [OF assms(1)] assms(2)])
  show "passed p a WAIT_QUEUE_SEND q s s'" if "fr_queue_send_pass a item to s = Ret r s'"
  proof (cases "q_count q = q_capacity q")
    case True
    then show ?thesis
      using that send_pass_closed [OF assms(1,2) rem, of item] by (auto simp: passed_def units_def split: if_splits)
  next
    case False
    let ?u = "set_object a (Queue (sent q)) (set_ram (send_ram q item (ram s)) s)"
    have "s' = queue_wake WAIT_QUEUE_RECEIVE a ?u"
      using that False send_pass_closed [OF assms(1,2) rem, of item] by simp
    then show ?thesis
      using units_sent [OF qok False] queue_wake_view [OF assms(3), of WAIT_QUEUE_RECEIVE ?u s]
      by (auto simp: passed_def intro!: exI [of _ "sent q"])
  qed
  show "passed p a WAIT_QUEUE_RECEIVE q s s'" if "fr_queue_receive_pass a item to s = Ret r s'"
  proof (cases "q_count q = 0")
    case True
    then show ?thesis
      using that receive_pass_closed [OF assms(1,2) rem, of item] by (auto simp: passed_def units_def split: if_splits)
  next
    case False
    let ?u = "set_object a (Queue (received q)) (set_ram (receive_ram q item (ram s)) s)"
    have "s' = queue_wake WAIT_QUEUE_SEND a ?u"
      using that False receive_pass_closed [OF assms(1,2) rem, of item] by simp
    then show ?thesis
      using units_received [OF qok False] queue_wake_view [OF assms(3), of WAIT_QUEUE_SEND ?u s]
      by (auto simp: passed_def intro!: exI [of _ "received q"])
  qed
qed


lemma exec_passed:
  assumes "caller p k" and "exec op k = Ret r k'" and "queue_reason (suspends_with op)"
  shows "k' = k \<or> (\<exists>q. objects k (target op) = Queue q \<and> passed p (target op) (suspends_with op) q k k')"
proof -
  consider a item t where "op = Send a item t" | a item t where "op = Receive a item t"
    using assms(3) by (cases op) (auto simp: queue_reason_def)
  then show ?thesis
  proof cases
    case (1 a item t)
    show ?thesis
    proof (cases "is_queue (objects k a) \<and> a \<noteq> 0")
      case True
      then obtain q where "objects k a = Queue q" by (auto elim: is_queueE)
      then show ?thesis
        using assms(2) 1 pass_passed(1) [OF assms(1), of a q item] True
        by (auto simp: fr_queue_send_wait_def split: if_splits option.splits)
    next
      case False
      then show ?thesis
        using assms(2) 1 no_queue(1) [OF assms(1), of a item]
        by (auto simp: fr_queue_send_wait_def split: if_splits option.splits)
    qed
  next
    case (2 a item t)
    show ?thesis
    proof (cases "is_queue (objects k a) \<and> a \<noteq> 0")
      case True
      then obtain q where "objects k a = Queue q" by (auto elim: is_queueE)
      then show ?thesis
        using assms(2) 2 pass_passed(2) [OF assms(1), of a q item] True
        by (auto simp: fr_queue_receive_wait_def split: if_splits option.splits)
    next
      case False
      then show ?thesis
        using assms(2) 2 no_queue(2) [OF assms(1), of a item]
        by (auto simp: fr_queue_receive_wait_def split: if_splits option.splits)
    qed
  qed
qed

lemma resume_passed:
  assumes "caller p k" and "resume x p k = Ret r k'" and "queue_reason (fst (wait_of x))" and "snd (wait_of x) \<noteq> 0"
  shows "k' = k \<and> (wait_result (tcb k p) \<noteq> RESULT_SIGNALED \<or> \<not> is_queue (objects k (snd (wait_of x)))) \<or>
    (\<exists>q. objects k (snd (wait_of x)) = Queue q \<and> passed p (snd (wait_of x)) (fst (wait_of x)) q k k')"
proof (cases "wait_result (tcb k p) = RESULT_SIGNALED \<and> is_queue (objects k (snd (wait_of x)))")
  case True
  then obtain q where q: "objects k (snd (wait_of x)) = Queue q" by (auto elim: is_queueE)
  note pp = pass_passed [OF assms(1) q assms(4)]
  have "passed p (snd (wait_of x)) (fst (wait_of x)) q k k'"
    using assms(2,3) True pp
    by (cases x) (simp_all add: queue_reason_def fr_queue_send_resume_def fr_queue_receive_resume_def)
  then show ?thesis using q by blast
next
  case False
  have "k' = k"
    using assms(2,3) False no_queue [OF assms(1), of "snd (wait_of x)"]
    by (cases x) (simp_all add: queue_reason_def fr_queue_send_resume_def fr_queue_receive_resume_def split: if_splits)
  then show ?thesis using False by blast
qed


section \<open>Steps\<close>

lemma same_view_waiting:
  assumes "base_ok k" and "registered k' = registered k" and "wview k' w = wview k w" and "waiting r a k' w"
  shows "waiting r a k w"
proof -
  have "w \<in> registered k" "blocked_on k w = Some (r, a)"
    using assms(2-4) waiting_blocked_on [OF assms(4)] by (auto simp: waiting_def wview_def)
  then show ?thesis using blocked_on_waiting [OF assms(1)] by blast
qed

lemma waiter_continuation:
  assumes "system_ok (k, c)" and "waiting r a k w"
  obtains x where "c w = Some x" "wait_of x = (r, a)"
proof -
  have b: "blocked_on k w = Some (r, a)" "w \<in> registered k" using assms(2) waiting_blocked_on by (auto simp: waiting_def)
  then obtain x where x: "c w = Some x" using system_okD(5) [OF assms(1), of w] by (cases "c w") auto
  then have "wait_of x = (r, a)"
    using system_okD(6) [OF assms(1) x] b(1) by (auto simp: continuation_ok_def wview_def)
  then show thesis using that x by blast
qed

text \<open>The caller's own side: a pass takes one unit and at most the caller leaves the woken tasks.\<close>

lemma live_at_own:
  assumes ok: "system_ok (k, c)" "system_ok (k', c(p := y))" and cl: "caller p k" and q: "objects k a = Queue q"
    and pass: "passed p a r q k k'" and reg: "registered k' = registered k" and r: "queue_reason r"
    and live: "live_at r a (k, c)"
  shows "live_at r a (k', c(p := y))"
  using pass unfolding passed_def
proof
  assume "units r q = 0 \<and> objects k' = objects k \<and> (\<forall>w. w \<noteq> p \<longrightarrow> wview k' w = wview k w)"
  then show ?thesis using q by (auto simp: live_at_def)
next
  assume "\<exists>q'. objects k' = (objects k)(a := Queue q') \<and> Suc (units r q') = units r q \<and>
        units (opposite r) q' = Suc (units (opposite r) q) \<and>
        ((\<forall>w. \<not> waiting (opposite r) a k w) \<and> wview k' = wview k \<or>
         (\<exists>w. waiting (opposite r) a k w \<and> wview k' = (wview k)(w := (None, RESULT_SIGNALED))))"
  then obtain q' where q': "objects k' = (objects k)(a := Queue q')" "Suc (units r q') = units r q"
    and v: "\<And>w. wview k' w = wview k w \<or> waiting (opposite r) a k w \<and> wview k' w = (None, RESULT_SIGNALED)"
    by (metis fun_upd_apply)
  have "in_flight r a (k, c) - {p} \<subseteq> in_flight r a (k', c(p := y))"
  proof
    fix z assume z: "z \<in> in_flight r a (k, c) - {p}"
    then have "wview k' z = wview k z"
      using v [of z] waiting_blocked_on [of "opposite r" a k z] by (auto simp: in_flight_def wview_def)
    then show "z \<in> in_flight r a (k', c(p := y))" using z by (simp add: in_flight_def)
  qed
  then have "card (in_flight r a (k, c) - {p}) \<le> card (in_flight r a (k', c(p := y)))"
    by (rule card_mono [OF finite_in_flight [OF ok(2)]])
  moreover have "card (in_flight r a (k, c)) \<le> Suc (card (in_flight r a (k, c) - {p}))"
    using card_Suc_Diff1 [OF finite_in_flight [OF ok(1)], of p r a] by (cases "p \<in> in_flight r a (k, c)") simp_all
  moreover have "units r q \<le> card (in_flight r a (k, c))" if "waiting r a k' w" for w
  proof -
    have "blocked_on k' w \<noteq> None" using waiting_blocked_on [OF that] by simp
    then have "wview k' w = wview k w" using v [of w] by (auto simp: wview_def)
    then have "waiting r a k w" by (rule same_view_waiting [OF caller_facts(2) [OF cl] reg _ that])
    then show ?thesis using live q by (auto simp: live_at_def)
  qed
  ultimately show ?thesis using q'(1,2) by (fastforce simp: live_at_def)
qed

text \<open>The other side: a pass adds one unit and wakes a waiter if there is one.\<close>

lemma live_at_other:
  assumes ok: "system_ok (k, c)" "system_ok (k', c(p := y))" and cl: "caller p k" and q: "objects k a = Queue q"
    and pass: "passed p a r q k k'" and reg: "registered k' = registered k" and r: "queue_reason r"
    and me: "\<And>x. c p = Some x \<Longrightarrow> wait_of x = (r, a)" "blocked_on k' p \<noteq> Some (opposite r, a)"
    and live: "live_at (opposite r) a (k, c)"
  shows "live_at (opposite r) a (k', c(p := y))"
  using pass unfolding passed_def
proof
  let ?o = "opposite r"
  assume s: "units r q = 0 \<and> objects k' = objects k \<and> (\<forall>w. w \<noteq> p \<longrightarrow> wview k' w = wview k w)"
  show ?thesis
  proof (rule live_at_quiet [OF live ok(2)])
    show "waiting ?o a k w" if "waiting ?o a k' w" for w
      using that me(2) waiting_blocked_on [OF that] s same_view_waiting [OF caller_facts(2) [OF cl] reg _ that] by metis
    show "in_flight ?o a (k, c) \<subseteq> in_flight ?o a (k', c(p := y))"
      using s me(1) queue_reason_opposite(2) [OF r] by (auto simp: in_flight_def)
  qed (use s in simp)
next
  let ?o = "opposite r"
  assume "\<exists>q'. objects k' = (objects k)(a := Queue q') \<and> Suc (units r q') = units r q \<and>
        units ?o q' = Suc (units ?o q) \<and>
        ((\<forall>w. \<not> waiting ?o a k w) \<and> wview k' = wview k \<or>
         (\<exists>w. waiting ?o a k w \<and> wview k' = (wview k)(w := (None, RESULT_SIGNALED))))"
  then obtain q' where q': "objects k' = (objects k)(a := Queue q')" "units ?o q' = Suc (units ?o q)"
    and v: "(\<forall>w. \<not> waiting ?o a k w) \<and> wview k' = wview k \<or>
         (\<exists>w. waiting ?o a k w \<and> wview k' = (wview k)(w := (None, RESULT_SIGNALED)))" by blast
  from v show ?thesis
  proof
    assume n: "(\<forall>w. \<not> waiting ?o a k w) \<and> wview k' = wview k"
    have "\<not> waiting ?o a k' w" for w
      using n same_view_waiting [OF caller_facts(2) [OF cl] reg, of w ?o a] by auto
    then show ?thesis by (auto simp: live_at_def)
  next
    assume "\<exists>w. waiting ?o a k w \<and> wview k' = (wview k)(w := (None, RESULT_SIGNALED))"
    then obtain w where w: "waiting ?o a k w" "wview k' = (wview k)(w := (None, RESULT_SIGNALED))" by blast
    obtain x where x: "c w = Some x" "wait_of x = (?o, a)" by (rule waiter_continuation [OF ok(1) w(1)])
    have wp: "w \<noteq> p" by (rule waiter_is_not_caller [OF cl w(1)])
    have "insert w (in_flight ?o a (k, c)) \<subseteq> in_flight ?o a (k', c(p := y))"
      using w(2) x wp me(1) queue_reason_opposite(2) [OF r] by (auto simp: in_flight_def)
    then have "card (insert w (in_flight ?o a (k, c))) \<le> card (in_flight ?o a (k', c(p := y)))"
      by (rule card_mono [OF finite_in_flight [OF ok(2)]])
    moreover have "w \<notin> in_flight ?o a (k, c)"
      using waiting_blocked_on [OF w(1)] by (auto simp: in_flight_def wview_def)
    then have "card (insert w (in_flight ?o a (k, c))) = Suc (card (in_flight ?o a (k, c)))"
      using finite_in_flight [OF ok(1)] by simp
    moreover have "units ?o q \<le> card (in_flight ?o a (k, c))" using live q w(1) by (auto simp: live_at_def)
    ultimately show ?thesis using q' by (auto simp: live_at_def)
  qed
qed


text \<open>Calls on other objects and for other reasons.\<close>

lemma served_kind: "served p a rs rw K s r s' \<Longrightarrow> objects s' b \<noteq> objects s b \<Longrightarrow> b = a \<and> K (objects s b) \<and> K (objects s' b)"
  by (simp add: served_def)

lemma live_at_served:
  assumes ok: "system_ok (k, c)" "system_ok (k', c(p := y))" and cl: "caller p k" and sv: "serves p a r k res k'"
    and other: "b \<noteq> a \<or> \<not> queue_reason r" and ro: "queue_reason ro"
    and me: "\<And>x. c p = Some x \<Longrightarrow> wait_of x = (r, a)" and live: "live_at ro b (k, c)"
  shows "live_at ro b (k', c(p := y))"
proof (rule live_at_quiet [OF live ok(2)])
  have reg: "registered k' = registered k" using sv by (simp add: served_def)
  have view: "\<And>w. wview k' w = wview k w \<or> waiting (opposite r) a k w \<and> wview k' w = (None, RESULT_SIGNALED) \<or>
      w = p \<and> wview k' p = (Some (r, a), RESULT_PENDING)"
    using sv unfolding served_def by blast
  show "objects k b = Queue q" if "objects k' b = Queue q" for q
  proof (rule ccontr)
    assume "objects k b \<noteq> Queue q"
    then have "b = a" "kind_of r (objects k' b)" using served_kind [OF sv, of b] that by simp_all
    then show False using other that by (cases r) (auto simp: queue_reason_def is_semaphore_def sem_tokens_def)
  qed
  show "waiting ro b k w" if "waiting ro b k' w" for w
  proof -
    have "blocked_on k' w = Some (ro, b)" by (rule waiting_blocked_on [OF that])
    then have "wview k' w = wview k w" using view [of w] other ro by (auto simp: wview_def)
    then show ?thesis by (rule same_view_waiting [OF caller_facts(2) [OF cl] reg _ that])
  qed
  show "in_flight ro b (k, c) \<subseteq> in_flight ro b (k', c(p := y))"
  proof
    fix z assume z: "z \<in> in_flight ro b (k, c)"
    then obtain x where x: "c z = Some x" "wait_of x = (ro, b)" "wview k z = (None, RESULT_SIGNALED)"
      by (auto simp: in_flight_def)
    then have "z \<noteq> p" using me [of x] other ro by auto
    moreover have "wview k' z = wview k z"
      using view [of z] x(3) waiting_blocked_on [of "opposite r" a k z] \<open>z \<noteq> p\<close> by (auto simp: wview_def)
    ultimately show "z \<in> in_flight ro b (k', c(p := y))" using x by (auto simp: in_flight_def)
  qed
qed

lemma live_at_same:
  assumes "system_ok (k, c(p := y))" and "live_at r a (k, c)" and "p \<notin> in_flight r a (k, c) \<or> \<not> is_queue (objects k a)"
  shows "live_at r a (k, c(p := y))"
proof (cases "is_queue (objects k a)")
  case True
  then show ?thesis
    using assms(3) by (intro live_at_quiet [OF assms(2,1)]) (auto simp: in_flight_def)
next
  case False
  then show ?thesis by (auto simp: live_at_def)
qed

text \<open>A step by a task: a pass over one queue, or something quiet.\<close>

lemma queues_live_call:
  assumes ok: "system_ok (k, c)" "system_ok (k', c(p := y))" and cl: "caller p k" and sv: "serves p a r k res k'"
    and me: "\<And>x. c p = Some x \<Longrightarrow> wait_of x = (r, a)"
    and pass: "queue_reason r \<Longrightarrow> k' = k \<and> (wview k p \<noteq> (None, RESULT_SIGNALED) \<or> c p = None \<or> \<not> is_queue (objects k a)) \<or>
      (\<exists>q. objects k a = Queue q \<and> passed p a r q k k')"
    and live: "queues_live (k, c)"
  shows "queues_live (k', c(p := y))"
  unfolding queues_live_def
proof (intro allI impI)
  fix ro b assume ro: "queue_reason ro"
  have lv: "live_at ro b (k, c)" using live ro by (simp add: queues_live_def)
  show "live_at ro b (k', c(p := y))"
  proof (cases "b \<noteq> a \<or> \<not> queue_reason r")
    case True
    then show ?thesis by (rule live_at_served [OF ok cl sv _ ro me lv])
  next
    case False
    then have qr: "queue_reason r" and b: "b = a" by auto
    have ror: "ro = r \<or> ro = opposite r" using ro qr by (auto simp: queue_reason_def)
    from pass [OF qr] show ?thesis
    proof
      assume s: "k' = k \<and> (wview k p \<noteq> (None, RESULT_SIGNALED) \<or> c p = None \<or> \<not> is_queue (objects k a))"
      then have "p \<notin> in_flight ro b (k, c) \<or> \<not> is_queue (objects k b)" by (auto simp: in_flight_def b)
      then show ?thesis using live_at_same [OF _ lv, of p y] ok(2) s by simp
    next
      assume "\<exists>q. objects k a = Queue q \<and> passed p a r q k k'"
      then obtain q where q: "objects k a = Queue q" "passed p a r q k k'" by blast
      have reg: "registered k' = registered k" using sv by (simp add: served_def)
      have "blocked_on k p = None" using caller_facts(11) [OF cl] by (simp add: blocked_on_def)
      then have nb: "blocked_on k' p \<noteq> Some (opposite r, a)"
        using sv queue_reason_opposite(2) [OF qr] unfolding served_def wview_def by (metis fst_conv option.inject option.discI)
      show ?thesis
        using ror live_at_own [OF ok cl q reg qr] live_at_other [OF ok cl q reg qr me nb] lv by (auto simp: b)
    qed
  qed
qed

text \<open>Interrupts and task code.\<close>

lemma queues_live_quiet:
  assumes "queues_live (k, c)" and "system_ok (k, c)" and "system_ok (k', c)" and "objects k' = objects k" and "registered k' = registered k"
    and "\<And>w. w \<in> registered k \<Longrightarrow> wview k' w = wview k w \<or> blocked_on k w \<noteq> None \<and> blocked_on k' w = None"
  shows "queues_live (k', c)"
  unfolding queues_live_def
proof (intro allI impI)
  fix r a assume "queue_reason r"
  then have "live_at r a (k, c)" using assms(1) by (simp add: queues_live_def)
  then show "live_at r a (k', c)"
  proof (rule live_at_quiet [OF _ assms(3)])
    show "waiting r a k w" if w: "waiting r a k' w" for w
    proof -
      have "w \<in> registered k" "blocked_on k' w \<noteq> None"
        using w waiting_blocked_on [OF w] assms(5) by (auto simp: waiting_def)
      then have "wview k' w = wview k w" using assms(6) [of w] by auto
      then show ?thesis
        by (rule same_view_waiting [OF kernel_okD(1) [OF system_okD(1) [OF assms(2)]] assms(5) _ w])
    qed
    show "in_flight r a (k, c) \<subseteq> in_flight r a (k', c)"
    proof
      fix z assume z: "z \<in> in_flight r a (k, c)"
      then have "z \<in> registered k" "blocked_on k z = None"
        using system_okD(4) [OF assms(2)] by (auto simp: in_flight_def wview_def)
      then have "wview k' z = wview k z" using assms(6) [of z] by auto
      then show "z \<in> in_flight r a (k', c)" using z by (simp add: in_flight_def)
    qed
  qed (use assms(4) in simp)
qed

lemma step_queues_live:
  assumes "step l \<sigma> \<sigma>'" and "system_ok \<sigma>" and "queues_live \<sigma>"
  shows "queues_live \<sigma>'"
  using assms(1) step_keeps_ok [OF assms(1,2)] assms(2,3)
proof (induction rule: step.induct)
  case (tick k k' c)
  note okD = system_okD [OF tick(3)]
  obtain k2 where k2: "SysTick_Handler k = Ret () k2" "objects k2 = objects k" "registered k2 = registered k"
    "\<And>q. q \<in> registered k \<Longrightarrow> wview k2 q =
       (if expires (g_fr_kernel_tick_count k + 1) (tcb k q) then (None, RESULT_TIMEOUT) else wview k q)"
    by (rule tick_effect [OF okD(1,3)]) blast
  have eq: "k' = k2" using tick(1) k2(1) by simp
  have "wview k2 w = wview k w \<or> blocked_on k w \<noteq> None \<and> blocked_on k2 w = None" if "w \<in> registered k" for w
  proof (cases "expires (g_fr_kernel_tick_count k + 1) (tcb k w)")
    case True
    then have "wview k2 w = (None, RESULT_TIMEOUT)" using k2(4) [OF that] by simp
    then show ?thesis using True by (simp add: wview_def blocked_on_def expires_def)
  qed (use k2(4) [OF that] in simp)
  then show ?case using k2(2,3) tick(2) by (intro queues_live_quiet [OF tick(4,3)]) (simp_all add: eq)
next
  case (switch k p regs loaded k' c)
  note okD = system_okD [OF switch(7)]
  obtain rs k2 where k2: "PendSV_Handler regs k = Ret rs k2" "objects k2 = objects k" "registered k2 = registered k"
    "\<And>q. q \<in> registered k \<Longrightarrow> wview k2 q = wview k q"
    by (rule switch_effect [OF okD(1,3) switch(2,3), of regs]) blast
  have "k' = k2" using switch(5) k2(1) by simp
  then show ?case using k2 switch by (intro queues_live_quiet [OF switch(8,7)]) auto
next
  case (run k p sp c m)
  then show ?case
    by (intro queues_live_quiet [OF run(6,5)]) (auto simp: registered_def wview_def blocked_on_def)
next
  case (call p k c op r k')
  have c: "caller p k" by (rule executing_caller [OF call(5,1)])
  from exec_served [OF c, of op] call(3) have sv: "serves p (target op) (suspends_with op) k r k'" by auto
  show ?case
    by (rule queues_live_call [OF call(5,4) c sv _ _ call(6)]) (use call(2) exec_passed [OF c call(3)] in auto)
next
  case (resume p k c x r k')
  have c: "caller p k" by (rule executing_caller [OF resume(5,1)])
  obtain r2 k2 where "resume x p k = Ret r2 k2" "serves p (snd (wait_of x)) (fst (wait_of x)) k r2 k2"
    using resume_step [OF resume(5,1,2)] by metis
  then have sv: "serves p (snd (wait_of x)) (fst (wait_of x)) k r k'" using resume(3) by simp
  have nz: "snd (wait_of x) \<noteq> 0" if "queue_reason (fst (wait_of x))"
    using system_okD(6) [OF resume(5,2)] that by (auto simp: continuation_ok_def queue_reason_def)
  show ?case
    by (rule queues_live_call [OF resume(5,4) c sv _ _ resume(6)])
      (use resume(2) resume_passed [OF c resume(3)] nz in \<open>auto simp: wview_def\<close>)
qed

lemma started_unblocked:
  assumes "booted lm k" and "idle_placed k" and "fr_scheduler_start k = Ret None k'"
  shows "queues_live (k', \<lambda>_. None)"
proof -
  have ok: "system_ok (k', \<lambda>_. None)" using started_ok [OF assms(1,2)] assms(3) by (metis outcome.inject(1))
  have "\<not> waiting r a k' w" for r a w
    using waiter_continuation [OF ok, of r a w] by auto
  then show ?thesis by (auto simp: queues_live_def live_at_def)
qed

lemma reachable_queues_live: "reachable lm \<sigma> \<Longrightarrow> queues_live \<sigma>"
proof (induction rule: reachable.induct)
  case (start k k')
  then show ?case by (rule started_unblocked)
next
  case (more \<sigma> l \<sigma>')
  then show ?case using step_queues_live reachable_ok by blast
qed

text \<open>
  C9. No wake-up is lost. In every reachable state in which a task waits to receive from a queue, the
  queue holds no more items than there are receivers that have been signalled and not yet run; while a
  task waits to send, no more slots are free than there are such senders. In particular a task waits
  on a queue that could serve it only when another task is on its way to use it.
\<close>

theorem queue_no_lost_wakeup:
  assumes "reachable lm (k, c)" and "objects k a = Queue q"
  shows "(waiting WAIT_QUEUE_RECEIVE a k w \<longrightarrow> unat (q_count q) \<le> card (in_flight WAIT_QUEUE_RECEIVE a (k, c))) \<and>
    (waiting WAIT_QUEUE_SEND a k w \<longrightarrow>
       unat (q_capacity q) - unat (q_count q) \<le> card (in_flight WAIT_QUEUE_SEND a (k, c)))"
  using reachable_queues_live [OF assms(1)] assms(2)
  unfolding queues_live_def live_at_def by (force simp: queue_reason_def units_def)


theorem queue_no_lost_wakeup_witness:
  "\<exists>k c q w. reachable example_links (k, c) \<and> objects k 0x20003100 = Queue q \<and> waiting WAIT_QUEUE_RECEIVE 0x20003100 k w \<and>
     unat (q_count q) \<le> card (in_flight WAIT_QUEUE_RECEIVE 0x20003100 (k, c))"
proof -
  obtain k p where k: "reachable example_links (k, \<lambda>_. None)" "executing p k"
    "\<exists>q. objects k 0x20003100 = Queue q \<and> q_count q = 0"
    by (rule two_booted) blast
  obtain q where q: "objects k 0x20003100 = Queue q" "q_count q = 0" using k(3) by blast
  have c: "caller p k" by (rule executing_caller [OF reachable_ok [OF k(1)] k(2)])
  let ?k = "suspended p WAIT_QUEUE_RECEIVE 0x20003100 5 k"
  obtain to where to: "fr_wait_timeout_start 5 k = Some to" by (rule timeout_start_legal [of 5 k]) simp_all
  have "fr_queue_receive_pass 0x20003100 0x20005000 to k = Ret Suspended ?k"
    using receive_pass_closed [OF c q(1) start_remaining [OF to], of "0x20005000"] q(2)
    by (simp add: wait_args_ok_def)
  then have e: "exec (Receive 0x20003100 0x20005000 5) k = Ret Suspended ?k"
    using to caller_facts(3) [OF c] by (simp add: fr_queue_receive_wait_def queue_context_allowed_eq)
  obtain c' where r: "reachable example_links (?k, c')"
    using reachable.more [OF k(1) step.call [OF k(2) _ e]] by auto
  have w: "waiting WAIT_QUEUE_RECEIVE 0x20003100 ?k p" using caller_facts(8) [OF c] by (simp add: waiting_def)
  have o: "objects ?k 0x20003100 = Queue q" using q(1) by simp
  from queue_no_lost_wakeup [OF r o, of p] w have
    "unat (q_count q) \<le> card (in_flight WAIT_QUEUE_RECEIVE 0x20003100 (?k, c'))" by blast
  with r o w show ?thesis by blast
qed

end
