(* ===== verification/Contexts.thy ===== *)
theory Contexts
  imports System
begin

text \<open>
  What a task finds when it runs again. A task that is switched out leaves its registers on its stack and
  its stack pointer in its control block; this theory shows that both survive whatever the other tasks,
  the services and the interrupts do in between, and models the self-test that the repository has for
  it (\<open>port/cortex_m4/context_probe.S\<close>).
\<close>


section \<open>What a step leaves alone\<close>

lemma tick_steady:
  assumes "kernel_ok k" and "g_fr_scheduler_running k" and "SysTick_Handler k = Ret () k'"
  shows "steady k k'" "ram k' = ram k" "registered k' = registered k"
proof -
  obtain s1 k2 where t: "SysTick_Handler k = Ret () k2"
    and e: "expired_in (g_fr_kernel_tick_count k + 1) (registered k) (k\<lparr>g_fr_kernel_tick_count := g_fr_kernel_tick_count k + 1\<rparr>) s1"
    and k2: "k2 = (if fr_scheduler_select_next (g_fr_scheduler_current_task k) s1 \<noteq> g_fr_scheduler_current_task k
           then fr_port_request_context_switch s1 else s1)"
    using tick_ok [OF assms(1,2)] by metis
  have "k' = k2" using t assms(3) by simp
  then have f: "tcb k' = tcb s1" "ram k' = ram s1" "g_fr_task_count k' = g_fr_task_count s1" using k2 by simp_all
  show "steady k k'"
    using e by (auto simp: steady_def fixed_def f expired_in_def wake_task_def expires_def)
  show "ram k' = ram k" "registered k' = registered k"
    using e by (simp_all add: f expired_in_def outside_same_def registered_def)
qed

lemma switch_memory:
  assumes "kernel_ok k" and "g_fr_scheduler_running k" and "g_fr_scheduler_current_task k = Some c"
    and "fr_scheduler_saved_sp_valid (Some c) (cpu_psp (cpu k) - 32) k" and "PendSV_Handler regs k = Ret rs k'"
  obtains p where "g_fr_scheduler_current_task k' = Some p" "tcb k' = switched_tcb c p (cpu_psp (cpu k) - 32) k"
    "registered k' = registered k" "objects k' = objects k" "p = c \<or> p = IdleTask \<or> ready k p"
    "ram k' = store_words (ram k) (cpu_psp (cpu k) - 32) regs"
    "rs = Some (map (\<lambda>i. load32 (ram k') (word_at (saved_sp (tcb k' p)) i)) [0..<8])"
    "cpu_psp (cpu k') = saved_sp (tcb k' p) + 32"
proof -
  let ?sp = "cpu_psp (cpu k) - 32"
  let ?u = "k\<lparr>pendsv_pending := False, ram := store_words (ram k) ?sp regs\<rparr>"
  obtain p s1 where p: "fr_scheduler_select_next (Some c) k = Some p"
    and sw: "fr_scheduler_switch_from_isr ?sp ?u = Ret (saved_sp (tcb s1 p)) s1" "switched_ok c p ?sp ?u s1"
      "fr_scheduler_saved_sp_valid (Some p) (saved_sp (tcb s1 p)) s1"
    using switch_ok [OF assms(1-4) refl] by metis
  have nz: "saved_sp (tcb s1 p) \<noteq> 0" using sw(3) by (auto simp: fr_scheduler_saved_sp_valid_def split: if_splits)
  have k': "k' = s1\<lparr>cpu := (cpu s1)\<lparr>cpu_psp := saved_sp (tcb s1 p) + 32\<rparr>\<rparr>"
    and rs: "rs = Some (map (\<lambda>i. load32 (ram s1) (word_at (saved_sp (tcb s1 p)) i)) [0..<8])"
    using assms(5) sw(1) nz by (simp_all add: PendSV_Handler_def Let_def)
  have "c = IdleTask \<or> c \<in> registered k \<and> (task_state (tcb k c) = STATE_RUNNING \<or> task_state (tcb k c) = STATE_BLOCKED)"
    using base_okD(3) [OF kernel_okD(1) [OF assms(1)]] assms(2,3) by (auto simp: sched_ok_def)
  from select_next_total [OF this] have "p = c \<or> p = IdleTask \<or> ready k p" using p by (metis option.inject)
  then show thesis
    by (rule that [rotated 4]) (use sw(2) rs switched_tcb_cong [of ?u k] in \<open>simp_all add: k' switched_ok_def registered_def\<close>)
qed

text \<open>A context switch changes a stack pointer only in the control block of the outgoing task.\<close>

lemma switched_fixed:
  assumes "tcb k' = switched_tcb c p sp k" and "q \<noteq> c"
  shows "fixed (tcb k' q) = fixed (tcb k q)"
  using assms by (simp add: switched_tcb_def fixed_def)

text \<open>The stack of a task. Its bounds are never changed.\<close>

definition stack_region :: "fr_task \<Rightarrow> u32 set" where
  "stack_region t = {a. stack_base t \<le> a \<and> a < stack_top t}"

lemma stack_region_fixed: "fixed t = fixed t' \<Longrightarrow> stack_region t = stack_region t'"
  by (simp add: fixed_def stack_region_def)

lemma stack_region_switched: "stack_region (switched_tcb c p sp k q) = stack_region (tcb k q)"
  by (simp add: stack_region_def switched_tcb_def)

text \<open>The current task has room for the registers that PendSV stores below its stack pointer.\<close>

definition frame_in_stack :: "kernel \<Rightarrow> bool" where
  "frame_in_stack k \<longleftrightarrow> (case g_fr_scheduler_current_task k of None \<Rightarrow> False
     | Some p \<Rightarrow> fr_scheduler_saved_sp_valid (Some p) (cpu_psp (cpu k) - 32) k \<and> 32 \<le> cpu_psp (cpu k) \<and>
         cpu_psp (cpu k) \<le> stack_top (tcb k p))"

lemma frame_region:
  assumes "frame_in_stack k" and "g_fr_scheduler_current_task k = Some p"
  shows "region (cpu_psp (cpu k) - 32) 32 \<subseteq> stack_region (tcb k p)"
proof
  let ?sp = "cpu_psp (cpu k)"
  have f: "stack_base (tcb k p) \<le> ?sp - 32" "32 \<le> ?sp" "?sp \<le> stack_top (tcb k p)"
    using assms by (auto simp: frame_in_stack_def fr_scheduler_saved_sp_valid_def split: if_splits)
  have u: "unat (?sp - 32) = unat ?sp - 32" using f(2) by (simp add: unat_sub)
  fix x assume "x \<in> region (?sp - 32) 32"
  then obtain i where i: "i < 32" "x = ?sp - 32 + of_nat i" by (auto simp: region_def)
  have "32 \<le> unat ?sp" using f(2) by (simp add: word_le_nat_alt)
  then have "unat (?sp - 32) + i < 4294967296" using i(1) u unat_lt_u32 [of ?sp] by linarith
  then have "unat x = unat (?sp - 32) + i" using i by (simp add: unat_word_ariths unat_of_nat32)
  then show "x \<in> stack_region (tcb k p)"
    using f i(1) u by (auto simp: stack_region_def word_le_nat_alt word_less_nat_alt)
qed

lemma store_words_outside: "x \<notin> region a (4 * length ws) \<Longrightarrow> store_words m a ws x = m x"
proof (induction ws arbitrary: m a)
  case (Cons w ws)
  have in1: "a + of_nat i \<in> region a (4 * length (w # ws))" if "i < 4 + 4 * length ws" for i
    using that by (simp add: region_def)
  have "x \<notin> region (a + 4) (4 * length ws)"
  proof
    assume "x \<in> region (a + 4) (4 * length ws)"
    then obtain i where "i < 4 * length ws" "x = a + of_nat (4 + i)" by (auto simp: region_def)
    then show False using in1 [of "4 + i"] Cons.prems by simp
  qed
  then have "store_words (store32 m a w) (a + 4) ws x = store32 m a w x" by (rule Cons.IH)
  moreover have "x \<noteq> a" "x \<noteq> a + 1" "x \<noteq> a + 2" "x \<noteq> a + 3"
    using in1 [of 0] in1 [of 1] in1 [of 2] in1 [of 3] Cons.prems by auto
  ultimately show ?case by (simp add: store32_def)
qed simp


section \<open>While a task is switched out\<close>

text \<open>
  Steps in which task \<open>p\<close> does not have the processor. What task code and the buffers that tasks hand to
  services write is assumed to be outside \<open>F\<close>; of the tick nothing is assumed, and of a context switch
  only that the outgoing task has not overflowed its stack.
\<close>

inductive away :: "task_ptr \<Rightarrow> u32 set \<Rightarrow> system \<Rightarrow> system \<Rightarrow> bool" for p F where
  here: "away p F \<sigma> \<sigma>"
| more: "away p F \<sigma> (k, c) \<Longrightarrow> g_fr_scheduler_current_task k \<noteq> Some p \<Longrightarrow> step l (k, c) (k', c') \<Longrightarrow>
     (l = Switch \<Longrightarrow> frame_in_stack k) \<Longrightarrow>
     (l \<noteq> Tick \<Longrightarrow> l \<noteq> Switch \<Longrightarrow> \<forall>x \<in> F. ram k' x = ram k x) \<Longrightarrow> away p F \<sigma> (k', c')"

definition kept :: "task_ptr \<Rightarrow> u32 set \<Rightarrow> kernel \<Rightarrow> kernel \<Rightarrow> bool" where
  "kept p F k k' \<longleftrightarrow> fixed (tcb k' p) = fixed (tcb k p) \<and> (\<forall>q. stack_region (tcb k' q) = stack_region (tcb k q)) \<and>
     (\<forall>x \<in> F. ram k' x = ram k x)"

lemma kept_refl: "kept p F k k"
  by (simp add: kept_def)

lemma kept_trans: "kept p F k k' \<Longrightarrow> kept p F k' k'' \<Longrightarrow> kept p F k k''"
  by (simp add: kept_def)

lemma kept_steady: "steady k k' \<Longrightarrow> \<forall>x \<in> F. ram k' x = ram k x \<Longrightarrow> kept p F k k'"
  by (auto simp: kept_def steady_def dest: stack_region_fixed)

lemma kept_switch:
  assumes "kernel_ok k" and "g_fr_scheduler_running k" and "g_fr_scheduler_current_task k = Some c" and "c \<noteq> p"
    and "frame_in_stack k" and "length regs = 8" and "PendSV_Handler regs k = Ret rs k'" and "stack_region (tcb k c) \<inter> F = {}"
  shows "kept p F k k'"
proof -
  have v: "fr_scheduler_saved_sp_valid (Some c) (cpu_psp (cpu k) - 32) k" using assms(3,5) by (simp add: frame_in_stack_def)
  obtain q where q: "tcb k' = switched_tcb c q (cpu_psp (cpu k) - 32) k" "ram k' = store_words (ram k) (cpu_psp (cpu k) - 32) regs"
    by (rule switch_memory [OF assms(1-3) v assms(7)]) blast
  have "ram k' x = ram k x" if "x \<in> F" for x
    unfolding q(2) by (rule store_words_outside) (use that assms(6,8) frame_region [OF assms(5,3)] in auto)
  moreover have "fixed (tcb k' p) = fixed (tcb k p)" by (rule switched_fixed [OF q(1)]) (use assms(4) in simp)
  ultimately show ?thesis by (simp add: kept_def q(1) stack_region_switched)
qed

lemma step_kept:
  assumes "system_ok (k, c)" and "step l (k, c) (k', c')" and "g_fr_scheduler_current_task k \<noteq> Some p"
    and "l = Switch \<Longrightarrow> frame_in_stack k" and "l \<noteq> Tick \<Longrightarrow> l \<noteq> Switch \<Longrightarrow> \<forall>x \<in> F. ram k' x = ram k x"
    and "\<And>q. q \<noteq> p \<Longrightarrow> stack_region (tcb k q) \<inter> F = {}"
  shows "kept p F k k'"
  using assms(2)
proof cases
  case tick
  then show ?thesis using kept_steady tick_steady [OF system_okD(1,3) [OF assms(1)]] by simp
next
  case (switch q regs loaded)
  then show ?thesis using kept_switch [OF system_okD(1,3) [OF assms(1)]] assms(3,4,6) by auto
next
  case (run q sp m)
  then show ?thesis using assms(5) by (intro kept_steady) auto
next
  case (call q op r)
  then have "steady k k'" using call_step [OF assms(1), of q op] by (auto simp: served_def)
  then show ?thesis using kept_steady assms(5) call(1) by simp
next
  case (resume q x r)
  then have "steady k k'" using resume_step [OF assms(1), of q x] by (auto simp: served_def)
  then show ?thesis using kept_steady assms(5) resume(1) by simp
qed

lemma away_kept:
  assumes "away p F \<sigma> \<sigma>'" and "\<sigma> = (k, c)" and "system_ok (k, c)" and "\<And>q. q \<noteq> p \<Longrightarrow> stack_region (tcb k q) \<inter> F = {}"
  shows "system_ok \<sigma>' \<and> kept p F k (fst \<sigma>')"
  using assms(1,2)
proof (induction rule: away.induct)
  case (here \<sigma>)
  then show ?case using assms(3) by (simp add: kept_refl)
next
  case (more \<sigma> k1 c1 l k2 c2)
  then have ok: "system_ok (k1, c1)" "kept p F k k1" by simp_all
  have "stack_region (tcb k1 q) \<inter> F = {}" if "q \<noteq> p" for q using ok(2) assms(4) that by (simp add: kept_def)
  then have "kept p F k1 k2" using step_kept [OF ok(1) more(3,2)] more(4,5) by blast
  then show ?case using kept_trans [OF ok(2)] step_keeps_ok [OF more(3) ok(1)] by simp
qed

lemma load32_region:
  assumes "\<And>x. x \<in> region a 4 \<Longrightarrow> m' x = m x"
  shows "load32 m' a = load32 m a"
proof -
  have "m' (a + of_nat i) = m (a + of_nat i)" if "i < 4" for i using that by (intro assms) (simp add: region_def)
  from this [of 0] this [of 1] this [of 2] this [of 3] show ?thesis by (simp add: load32_def)
qed

lemma load_words_kept_n:
  assumes "\<And>x. x \<in> region a (4 * n) \<Longrightarrow> m' x = m x" and "i < n"
  shows "load32 m' (word_at a i) = load32 m (word_at a i)"
proof (rule load32_region)
  fix x assume "x \<in> region (word_at a i) 4"
  then obtain j where "j < 4" "x = a + of_nat (4 * i + j)" unfolding region_def word_at_byte [symmetric] by auto
  then show "m' x = m x" using assms(2) by (intro assms(1)) (auto simp: region_def image_iff intro!: bexI [of _ "4 * i + j"])
qed

lemma stored_words_load:
  assumes "length regs = 8"
  shows "map (\<lambda>i. load32 (store_words m a regs) (word_at a i)) [0..<8] = regs"
  using load32_store_words [of 0 regs _ m a] assms by (intro nth_equalityI) (simp_all add: word_at_def)

lemma region_upper: "x \<in> region (a + 32) 32 \<Longrightarrow> x \<in> region a 64 \<and> x \<notin> region a 32"
proof -
  assume "x \<in> region (a + 32) 32"
  then obtain i where i: "i < 32" "x = a + of_nat (32 + i)" by (auto simp: region_def)
  have "x \<notin> region a 32"
  proof
    assume "x \<in> region a 32"
    then obtain j where j: "j < 32" "a + of_nat j = a + (of_nat (32 + i) :: u32)" using i(2) by (auto simp: region_def)
    have "j = 32 + i" by (rule byte_offset_inj [OF _ _ j(2)]) (use i(1) j(1) in simp_all)
    then show False using j(1) by simp
  qed
  then show ?thesis using i by (auto simp: region_def image_iff intro!: bexI [of _ "32 + i"])
qed

lemma region_disjoint:
  assumes "unat a + n \<le> unat b" and "unat b + m < 4294967296"
  shows "region a n \<inter> region b m = {}"
proof -
  have "a + of_nat i \<noteq> b + of_nat j" if "i < n" "j < m" for i j
  proof
    assume "a + of_nat i = b + of_nat j"
    then have "unat (a + of_nat i) = unat (b + of_nat j)" by simp
    moreover have "unat (a + of_nat i) = unat a + i" "unat (b + of_nat j) = unat b + j"
      using that assms by (simp_all add: unat_word_ariths unat_of_nat32)
    ultimately show False using that assms by linarith
  qed
  then show ?thesis by (auto simp: region_def)
qed

text \<open>Bytes that do not wrap around the end of the address space form an interval of addresses.\<close>

lemma region_interval:
  assumes "unat b = unat a + n" and "x \<in> region a n"
  shows "a \<le> x \<and> x < b"
proof -
  obtain i where i: "i < n" "x = a + of_nat i" using assms(2) by (auto simp: region_def)
  then have "unat a + i < 4294967296" using assms(1) unat_lt_u32 [of b] by linarith
  then have "unat x = unat a + i" using i(2) by (simp add: unat_word_ariths unat_of_nat32)
  then show ?thesis using assms(1) i(1) by (simp add: word_le_nat_alt word_less_nat_alt)
qed

lemma region_mono: "m \<le> n \<Longrightarrow> region a m \<subseteq> region a n"
  by (auto simp: region_def)


section \<open>Context integrity\<close>

text \<open>
  C5. A task gets its context back. Let task \<open>p\<close> be switched out by PendSV with the registers R4 to R11 in
  \<open>regs\<close>. Then whatever sequence of ticks, context switches, service calls and code of other tasks follows,
  when PendSV selects \<open>p\<close> again it restores exactly these registers and the stack pointer, and the
  exception frame above it, with R0 to R3, R12, LR, PC and xPSR, is untouched. Assumed is that stacks are
  disjoint, that no task overflows its stack, and that no task code writes into \<open>p\<close>'s 64-byte frame.
\<close>

theorem context_restored:
  assumes "reachable lm (k, c)" and "g_fr_scheduler_current_task k = Some p"
    and "fr_scheduler_saved_sp_valid (Some p) (cpu_psp (cpu k) - 32) k" and "length regs = 8"
    and "PendSV_Handler regs k = Ret rs k1"
    and "\<forall>q. q \<noteq> p \<longrightarrow> stack_region (tcb k q) \<inter> region (cpu_psp (cpu k) - 32) 64 = {}"
    and "away p (region (cpu_psp (cpu k) - 32) 64) (k1, c) (k2, c2)"
    and "g_fr_scheduler_current_task k2 \<noteq> Some p" and "frame_in_stack k2" and "length regs2 = 8"
    and "PendSV_Handler regs2 k2 = Ret rs2 k3" and "g_fr_scheduler_current_task k3 = Some p"
  shows "rs2 = Some regs \<and> cpu_psp (cpu k3) = cpu_psp (cpu k) \<and>
    (\<forall>x \<in> region (cpu_psp (cpu k)) 32. ram k3 x = ram k x)"
proof -
  let ?sp = "cpu_psp (cpu k) - 32" and ?F = "region (cpu_psp (cpu k) - 32) 64"
  note ok = system_okD [OF reachable_ok [OF assms(1)]]
  obtain q where q: "tcb k1 = switched_tcb p q ?sp k" "ram k1 = store_words (ram k) ?sp regs"
    by (rule switch_memory [OF ok(1,3) assms(2,3,5)]) blast
  obtain k1' where "PendSV_Handler regs k = Ret k1' k1" "system_ok (k1, c)"
    using switch_step [OF reachable_ok [OF assms(1)] assms(2,3), of regs] assms(5) by auto
  then have ok1: "system_ok (k1, c)" by simp
  have apart: "stack_region (tcb k1 q) \<inter> ?F = {}" if "q \<noteq> p" for q
    using assms(6) that by (simp add: q(1) stack_region_switched)
  have k2: "system_ok (k2, c2)" "kept p ?F k1 k2" using away_kept [OF assms(7) refl ok1 apart] by simp_all
  obtain c' where c': "g_fr_scheduler_current_task k2 = Some c'" "c' \<noteq> p"
    using assms(8,9) by (auto simp: frame_in_stack_def split: option.splits)
  have "stack_region (tcb k2 c') \<inter> ?F = {}" using apart [OF c'(2)] k2(2) by (simp add: kept_def)
  then have "kept p ?F k2 k3"
    by (rule kept_switch [OF system_okD(1,3) [OF k2(1)] c' assms(9-11)])
  then have kept: "kept p ?F k1 k3" by (rule kept_trans [OF k2(2)])
  have v2: "fr_scheduler_saved_sp_valid (Some c') (cpu_psp (cpu k2) - 32) k2" using assms(9) c'(1) by (simp add: frame_in_stack_def)
  obtain p' where p': "g_fr_scheduler_current_task k3 = Some p'"
    "rs2 = Some (map (\<lambda>i. load32 (ram k3) (word_at (saved_sp (tcb k3 p')) i)) [0..<8])" "cpu_psp (cpu k3) = saved_sp (tcb k3 p') + 32"
    by (rule switch_memory [OF system_okD(1,3) [OF k2(1)] c'(1) v2 assms(11)]) blast
  have sp: "saved_sp (tcb k3 p) = ?sp" using kept by (simp add: kept_def fixed_def q(1) switched_tcb_def)
  have mem: "ram k3 x = store_words (ram k) ?sp regs x" if "x \<in> ?F" for x using kept that by (simp add: kept_def q(2))
  have "load32 (ram k3) (word_at ?sp i) = load32 (store_words (ram k) ?sp regs) (word_at ?sp i)" if "i < 8" for i
    using mem region_mono [of 32 64 ?sp] that by (intro load_words_kept_n [of _ 8]) auto
  then have "map (\<lambda>i. load32 (ram k3) (word_at ?sp i)) [0..<8] = regs"
    using stored_words_load [OF assms(4), of "ram k" ?sp] by (metis (mono_tags, lifting) atLeastLessThan_iff map_cong set_upt)
  moreover have "ram k3 x = ram k x" if "x \<in> region (cpu_psp (cpu k)) 32" for x
    using region_upper [of x ?sp] that mem [of x] store_words_outside [of x ?sp regs "ram k"] assms(4) by simp
  ultimately show ?thesis using p' assms(12) sp by simp
qed

text \<open>Two tasks of the same priority alternate.\<close>

lemma alternate:
  assumes "registered k = {Pool i, Pool j}" and "i \<noteq> j" and "task_state (tcb k (Pool i)) = STATE_RUNNING" and "ready k (Pool j)"
    and "prio k (Pool j) = prio k (Pool i)"
  shows "fr_scheduler_select_next (Some (Pool i)) k = Some (Pool j)"
proof -
  have p: "Pool i \<in> registered k" using assms(1) by auto
  obtain s where s: "fr_scheduler_select_next (Some (Pool i)) k = Some s" using select_next_total [of "Pool i" k] p assms(3) by blast
  note r = select_next_running [OF p assms(3) s]
  have "ready k s" using r(1,3) assms(4,5) by auto
  then have "s \<in> {Pool i, Pool j}" "task_state (tcb k s) = STATE_READY" unfolding assms(1) [symmetric] by (simp_all add: ready_def)
  then have "s = Pool j" using assms(3) by auto
  then show ?thesis using s by simp
qed

lemma two_layout:
  assumes "tcb k = ((tcb two_tasks)(IdleTask := idle_tcb two_tasks))(Pool i := (tcb two_tasks (Pool i))\<lparr>task_state := STATE_RUNNING\<rparr>)"
    and "cpu_psp (cpu k) = saved_sp (tcb k (Pool i)) + 32" and "{i, j} = {0, 1}"
  shows "task_state (tcb k (Pool i)) = STATE_RUNNING" "task_state (tcb k (Pool j)) = STATE_READY" "prio k (Pool j) = prio k (Pool i)"
    "fr_scheduler_saved_sp_valid (Some (Pool i)) (cpu_psp (cpu k) - 32) k"
    "fr_scheduler_saved_sp_valid (Some (Pool j)) (saved_sp (tcb k (Pool j))) k"
    "32 \<le> saved_sp (tcb k (Pool j)) + 32" "saved_sp (tcb k (Pool j)) + 32 \<le> stack_top (tcb k (Pool j))"
    "\<forall>q. q \<noteq> Pool i \<longrightarrow> stack_region (tcb k q) \<inter> region (cpu_psp (cpu k) - 32) 64 = {}"
proof -
  have c: "i = 0 \<and> j = 1 \<or> i = 1 \<and> j = 0" using assms(3) by (auto simp: doubleton_eq_iff)
  show "task_state (tcb k (Pool i)) = STATE_RUNNING" "task_state (tcb k (Pool j)) = STATE_READY" "prio k (Pool j) = prio k (Pool i)"
    "fr_scheduler_saved_sp_valid (Some (Pool i)) (cpu_psp (cpu k) - 32) k"
    "fr_scheduler_saved_sp_valid (Some (Pool j)) (saved_sp (tcb k (Pool j))) k"
    "32 \<le> saved_sp (tcb k (Pool j)) + 32" "saved_sp (tcb k (Pool j)) + 32 \<le> stack_top (tcb k (Pool j))"
    using c assms(1,2)
    by (auto simp: two_tasks_def created_task_def config_a_def config_b_def fr_task_calculate_stack_top_def prio_def
        fr_scheduler_saved_sp_valid_def)
  have sp: "cpu_psp (cpu k) - 32 = (if i = 0 then 0x200011C0 else 0x200021C0)"
    using c assms(1,2) by (auto simp: two_tasks_def created_task_def config_a_def config_b_def fr_task_calculate_stack_top_def)
  have R: "unat x \<in> {unat (a :: u32)..<unat a + 64}" if "x \<in> region a 64" "unat a + 64 \<le> 4294967296" for a x
    using that by (auto simp: region_def unat_word_ariths unat_of_nat32)
  have b: "stack_top (tcb k q) \<le> (if i = 0 then 0x200011C0 else 0x200021C0) \<or>
      (if i = 0 then 0x20001200 else 0x20002200) \<le> stack_base (tcb k q)" if "q \<noteq> Pool i" for q
  proof -
    consider "q = Pool 0" | "q = Pool 1" | "q = IdleTask" | "q \<notin> {Pool 0, Pool 1, IdleTask}" by blast
    then show ?thesis
      using that c
      by cases (auto simp: assms(1) two_tasks_def reset_kernel_def zero_task_def created_task_def config_a_def config_b_def
          fr_task_calculate_stack_top_def idle_tcb_def example_links_def)
  qed
  show "\<forall>q. q \<noteq> Pool i \<longrightarrow> stack_region (tcb k q) \<inter> region (cpu_psp (cpu k) - 32) 64 = {}"
  proof (intro allI impI equals0I)
    fix q x assume q: "q \<noteq> Pool i" and "x \<in> stack_region (tcb k q) \<inter> region (cpu_psp (cpu k) - 32) 64"
    then have x: "unat (stack_base (tcb k q)) \<le> unat x" "unat x < unat (stack_top (tcb k q))" "x \<in> region (if i = 0 then 0x200011C0 else 0x200021C0) 64"
      unfolding sp by (simp_all add: stack_region_def word_le_nat_alt word_less_nat_alt)
    show False using b [OF q] x(1,2) R [OF x(3)] by (auto simp: word_le_nat_alt split: if_splits)
  qed
qed

text \<open>
  Two equal tasks alternate: the first is switched out with the registers 1 to 8 and gets them back from
  the next context switch, in which the second leaves 9 to 16.
\<close>

theorem context_restored_witness:
  "\<exists>k p k1 k2 rs. reachable example_links (k, \<lambda>_. None) \<and> g_fr_scheduler_current_task k = Some p \<and>
     PendSV_Handler [1, 2, 3, 4, 5, 6, 7, 8] k = Ret rs k1 \<and> g_fr_scheduler_current_task k1 \<noteq> Some p \<and>
     PendSV_Handler [9, 10, 11, 12, 13, 14, 15, 16] k1 = Ret (Some [1, 2, 3, 4, 5, 6, 7, 8]) k2 \<and>
     g_fr_scheduler_current_task k2 = Some p \<and> cpu_psp (cpu k2) = cpu_psp (cpu k)"
proof -
  obtain k p where k: "reachable example_links (k, \<lambda>_. None)" "registered k = {Pool 0, Pool 1}" "executing p k" "p \<in> registered k"
    "tcb k = ((tcb two_tasks)(IdleTask := idle_tcb two_tasks))(p := (tcb two_tasks p)\<lparr>task_state := STATE_RUNNING\<rparr>)"
    "cpu_psp (cpu k) = saved_sp (tcb k p) + 32"
    by (rule two_booted) blast
  obtain i j where p: "p = Pool i" "{i, j} = {0, 1 :: nat}" "i \<noteq> j" using k(2,4) by (auto simp: doubleton_eq_iff)
  have R: "registered k = {Pool i, Pool j}" using k(2) p(2) by (auto simp: doubleton_eq_iff)
  have cur: "g_fr_scheduler_current_task k = Some (Pool i)" using k(3) p(1) by (simp add: executing_def)
  note lay = two_layout [OF k(5,6) [unfolded p(1)] p(2)] and ok = system_okD [OF reachable_ok [OF k(1)]]
  have rj: "ready k (Pool j)" using lay(2) R by (simp add: ready_def)
  obtain rs n k1 where k1: "PendSV_Handler [1, 2, 3, 4, 5, 6, 7, 8] k = Ret rs k1" "kernel_ok k1" "g_fr_scheduler_running k1"
    "registered k1 = registered k" "g_fr_scheduler_current_task k1 = Some n" "fr_scheduler_select_next (Some (Pool i)) k = Some n"
    "tcb k1 = switched_tcb (Pool i) n (cpu_psp (cpu k) - 32) k" "cpu_psp (cpu k1) = saved_sp (tcb k1 n) + 32"
    by (rule switch_effect [OF ok(1,3) cur lay(4), of "[1, 2, 3, 4, 5, 6, 7, 8]"]) blast
  have n: "n = Pool j" using k1(6) alternate [OF R p(3) lay(1) rj lay(3)] by simp
  have f1: "frame_in_stack k1" using k1(5,7,8) lay(5-7) p(3) n by (auto simp: frame_in_stack_def switched_tcb_def fr_scheduler_saved_sp_valid_def split: if_splits)
  have R1: "registered k1 = {Pool j, Pool i}" using R k1(4) by auto
  have "task_state (tcb k1 (Pool j)) = STATE_RUNNING" "ready k1 (Pool i)" "prio k1 (Pool i) = prio k1 (Pool j)"
    using lay(1,3) R1 p(3) by (auto simp: ready_def k1(7) n switched_tcb_def prio_def)
  from alternate [OF R1 _ this] p(3) have sel: "fr_scheduler_select_next (Some (Pool j)) k1 = Some (Pool i)" by simp
  have v1: "fr_scheduler_saved_sp_valid (Some (Pool j)) (cpu_psp (cpu k1) - 32) k1" using f1 k1(5) n by (simp add: frame_in_stack_def)
  obtain rs2 n2 k2 where k2: "PendSV_Handler [9, 10, 11, 12, 13, 14, 15, 16] k1 = Ret rs2 k2" "g_fr_scheduler_current_task k2 = Some n2"
    "fr_scheduler_select_next (Some (Pool j)) k1 = Some n2"
    by (rule switch_effect [OF k1(2,3) k1(5) [unfolded n] v1, of "[9, 10, 11, 12, 13, 14, 15, 16]"]) blast
  have "rs2 = Some [1, 2, 3, 4, 5, 6, 7, 8] \<and> cpu_psp (cpu k2) = cpu_psp (cpu k)"
    using context_restored [OF k(1) cur lay(4) _ k1(1) lay(8) away.here _ f1 _ k2(1)] k1(5) k2(2,3) sel n p(3) by simp
  then show ?thesis using k(1) cur k1(1,5) k2 sel n p(3) by (intro exI [of _ k] exI [of _ "Pool i"] exI [of _ k1] exI [of _ k2] exI [of _ rs]) auto
qed


section \<open>The context probe\<close>

text \<open>
  \<open>fr_arch_context_probe_yield(pattern)\<close> loads R4 to R11 from a table, yields, and compares them with the table
  when it runs again. The code is split at the call of \<open>fr_task_yield\<close>, after which other tasks may run;
  \<open>sp\<close> is PSP, since the code runs in a task.
\<close>

definition context_probe_enter :: "u32 \<Rightarrow> u32 \<Rightarrow> u32 list \<Rightarrow> u32 \<Rightarrow> kernel \<Rightarrow> u32 list \<times> kernel" where
  "context_probe_enter r0 r3 r4_r11 lr s =
     (let sp = cpu_psp (cpu s) - 40;
          m = store_words (ram s) sp (r3 # r4_r11 @ [lr]);
          m = store32 m sp r0;
          r4_r11 = map (\<lambda>i. load32 m (word_at r0 i)) [0..<8]
      in (r4_r11, s\<lparr>ram := m, cpu := (cpu s)\<lparr>cpu_psp := sp\<rparr>\<rparr>))"

fun probe_compare :: "(u32 \<Rightarrow> u8) \<Rightarrow> u32 \<Rightarrow> nat list \<Rightarrow> u32 list \<Rightarrow> u32" where
  "probe_compare m r0 (i # is) (r # rs) = (if r \<noteq> load32 m (word_at r0 i) then 0 else probe_compare m r0 is rs)"
| "probe_compare m r0 _ _ = 1"

definition context_probe_leave :: "u32 list \<Rightarrow> kernel \<Rightarrow> u32 \<times> u32 list \<times> u32 \<times> kernel" where
  "context_probe_leave r4_r11 s =
     (let sp = cpu_psp (cpu s);
          r0 = load32 (ram s) sp;
          result = probe_compare (ram s) r0 [0..<8] r4_r11;
          saved = map (\<lambda>i. load32 (ram s) (word_at sp i)) [0..<10]
      in (result, take 8 (tl saved), last saved, s\<lparr>cpu := (cpu s)\<lparr>cpu_psp := sp + 40\<rparr>\<rparr>))"

lemma probe_compare_equal:
  "length rs = length is \<Longrightarrow> probe_compare m r0 is rs = (if rs = map (\<lambda>i. load32 m (word_at r0 i)) is then 1 else 0)"
  by (induction m r0 "is" rs rule: probe_compare.induct) auto

text \<open>
  The probe accepts exactly an undisturbed context: if the task comes back from the yield with its stack
  pointer and with its frame of 40 bytes and the table intact, the result is 1 exactly when R4 to R11 are
  the ones loaded before, and the caller's R4 to R11, LR and stack pointer are restored in any case.
\<close>

lemma context_probe_exact:
  assumes "context_probe_enter r0 r3 regs lr s = (loaded, s1)" and "length regs = 8" and "length loaded' = 8"
    and "cpu_psp (cpu s2) = cpu_psp (cpu s1)"
    and "\<And>x. x \<in> region (cpu_psp (cpu s) - 40) 40 \<union> region r0 32 \<Longrightarrow> ram s2 x = ram s1 x"
  shows "\<exists>s3. context_probe_leave loaded' s2 = (if loaded' = loaded then 1 else 0, regs, lr, s3) \<and>
    cpu_psp (cpu s3) = cpu_psp (cpu s) \<and> ram s3 = ram s2"
proof -
  let ?sp = "cpu_psp (cpu s) - 40"
  let ?m = "store32 (store_words (ram s) ?sp (r3 # regs @ [lr])) ?sp r0"
  have s1: "loaded = map (\<lambda>i. load32 ?m (word_at r0 i)) [0..<8]" "ram s1 = ?m" "cpu_psp (cpu s1) = ?sp"
    using assms(1) by (auto simp: context_probe_enter_def Let_def)
  have stk: "load32 (ram s2) (word_at ?sp i) = load32 ?m (word_at ?sp i)" if "i < 10" for i
    using assms(5) that unfolding s1(2) by (intro load_words_kept_n [of _ 10]) auto
  have tab: "load32 (ram s2) (word_at r0 i) = load32 ?m (word_at r0 i)" if "i < 8" for i
    using assms(5) that unfolding s1(2) by (intro load_words_kept_n [of _ 8]) auto
  have frame: "load32 ?m (word_at ?sp i) = (r0 # regs @ [lr]) ! i" if "i < 10" for i
  proof -
    have "load32 ?m (word_at ?sp i) = (if i = 0 then r0 else load32 (store_words (ram s) ?sp (r3 # regs @ [lr])) (word_at ?sp i))"
      using load32_store32_word [of 0 i _ ?sp r0] that by (simp add: word_at_def)
    then show ?thesis
      using load32_store_words [of 0 "r3 # regs @ [lr]" i "ram s" ?sp] that assms(2) by (auto simp: word_at_def nth_Cons')
  qed
  have saved: "map (\<lambda>i. load32 (ram s2) (word_at ?sp i)) [0..<10] = r0 # regs @ [lr]"
    using stk frame assms(2) by (intro nth_equalityI) simp_all
  have "load32 (ram s2) ?sp = r0" using stk [of 0] frame [of 0] by (simp add: word_at_def)
  moreover have "map (\<lambda>i. load32 (ram s2) (word_at r0 i)) [0..<8] = loaded"
    unfolding s1(1) using tab by (intro map_cong) auto
  ultimately show ?thesis
    using assms(2-4) s1(3) saved by (simp add: context_probe_leave_def Let_def probe_compare_equal)
qed


section \<open>The idle task\<close>

text \<open>
  The code of the idle task, from one wake-up to the next: it counts its entry once and then an iteration for
  each time it goes to sleep with \<open>wfi\<close>. It is only ever resumed, so its entry is counted once however often it is preempted.
\<close>

datatype idle_pc = Idle_Entry | Idle_Loop

record idle_code =
  idle_at :: idle_pc
  g_fr_scheduler_idle_entry_count :: u32
  g_fr_scheduler_idle_iterations :: u32

definition fr_scheduler_idle_entry :: "idle_code \<Rightarrow> idle_code" where
  "fr_scheduler_idle_entry t = (case idle_at t of
     Idle_Entry \<Rightarrow> t\<lparr>g_fr_scheduler_idle_entry_count := g_fr_scheduler_idle_entry_count t + 1, idle_at := Idle_Loop\<rparr>
   | Idle_Loop \<Rightarrow> t\<lparr>g_fr_scheduler_idle_iterations := g_fr_scheduler_idle_iterations t + 1\<rparr>)"

lemma idle_counts:
  "(fr_scheduler_idle_entry ^^ Suc n) \<lparr>idle_at = Idle_Entry, g_fr_scheduler_idle_entry_count = 0, g_fr_scheduler_idle_iterations = 0\<rparr> =
     \<lparr>idle_at = Idle_Loop, g_fr_scheduler_idle_entry_count = 1, g_fr_scheduler_idle_iterations = of_nat n\<rparr>"
proof (induction n)
  case (Suc n)
  have next_one: "(fr_scheduler_idle_entry ^^ Suc (Suc n)) t = fr_scheduler_idle_entry ((fr_scheduler_idle_entry ^^ Suc n) t)" for t by simp
  show ?case unfolding next_one Suc.IH by (simp add: fr_scheduler_idle_entry_def add.commute)
qed (simp add: fr_scheduler_idle_entry_def)

end
