(* ===== verification/Creation.thy ===== *)
theory Creation
  imports Contexts
begin

text \<open>
  Tasks that create tasks while the scheduler runs. \<open>fr_task_create\<close> has two critical sections with the
  filling of the new stack between them, so other tasks, their services and interrupts run while a task is half
  created. This theory interleaves the three parts of the creation with the steps of the running system and
  shows that the kernel invariant survives and that every creation completes.
\<close>


section \<open>Steps\<close>

text \<open>How far a task has come in its call: the new slot and its configuration, then also the initial stack pointer.\<close>

datatype build = Reserved nat fr_task_config | Prepared nat fr_task_config u32

primrec slot :: "build \<Rightarrow> nat" where
  "slot (Reserved i cfg) = i"
| "slot (Prepared i cfg sp) = i"

type_synonym creating_system = "kernel \<times> (task_ptr \<Rightarrow> continuation option) \<times> (task_ptr \<Rightarrow> build option)"

text \<open>The task that a step of the system belongs to, when it is a service call.\<close>

fun label_caller :: "label \<Rightarrow> task_ptr option" where
  "label_caller (Call p op) = Some p"
| "label_caller (Resume p) = Some p"
| "label_caller _ = None"

text \<open>
  The initialisers and the trace controls, called when the scheduler runs: the objects can no longer be
  initialised, the assertion record and the trace can.
\<close>

inductive late_call :: "kernel \<Rightarrow> kernel \<Rightarrow> bool" where
  binary: "late_call k (snd (fr_binary_semaphore_init a av k))"
| counting: "late_call k (snd (fr_counting_semaphore_init a n mx k))"
| mutex: "late_call k (snd (fr_mutex_init a k))"
| queue: "late_call k (snd (fr_queue_init a st cap sz k))"
| flags: "late_call k (snd (fr_event_flags_init a k))"
| assertions: "late_call k (fr_assert_init k)"
| trace: "late_call k (fr_trace_init k)"
| trace_clear: "late_call k (fr_trace_clear k)"
| trace_enable: "late_call k (fr_trace_enable en k)"

inductive cstep :: "creating_system \<Rightarrow> creating_system \<Rightarrow> bool" where
  kernel: "step l (k, c) (k', c') \<Longrightarrow> (\<And>p. label_caller l = Some p \<Longrightarrow> b p = None) \<Longrightarrow> cstep (k, c, b) (k', c', b)"
| late: "executing p k \<Longrightarrow> b p = None \<Longrightarrow> late_call k k' \<Longrightarrow> cstep (k, c, b) (k', c, b)"
| reserve: "executing p k \<Longrightarrow> c p = None \<Longrightarrow> b p = None \<Longrightarrow> config_ok cfg \<Longrightarrow>
     fr_task_create_reserve cfg k = (Some i, k') \<Longrightarrow> cstep (k, c, b) (k', c, b(p \<mapsto> Reserved i cfg))"
| prepare: "executing p k \<Longrightarrow> b p = Some (Reserved i cfg) \<Longrightarrow>
     fr_task_create_prepare (Pool i) k (\<lambda>sp s. Ret sp s) = Ret sp k' \<Longrightarrow> cstep (k, c, b) (k', c, b(p \<mapsto> Prepared i cfg sp))"
| publish: "executing p k \<Longrightarrow> b p = Some (Prepared i cfg sp) \<Longrightarrow>
     fr_task_create_publish (Pool i) sp k = Ret r k' \<Longrightarrow> cstep (k, c, b) (k', c, b(p := None))"

inductive creating :: "link_map \<Rightarrow> creating_system \<Rightarrow> bool" for lm where
  running: "reachable lm (k, c) \<Longrightarrow> creating lm (k, c, \<lambda>_. None)"
| more: "creating lm \<sigma> \<Longrightarrow> cstep \<sigma> \<sigma>' \<Longrightarrow> creating lm \<sigma>'"


section \<open>The half-created task\<close>

definition configured :: "fr_task_config \<Rightarrow> nat \<Rightarrow> u32 \<Rightarrow> u32 \<times> u32 \<times> u32 \<times> u32 \<times> u32 \<times> u32 \<times> u32 \<times> u8" where
  "configured cfg i sp = (sp, cfg_stack_memory cfg, fr_task_calculate_stack_top cfg, cfg_entry cfg, cfg_argument cfg,
     cfg_stack_size_words cfg, of_nat i + 1, cfg_priority cfg)"

definition half_created :: "kernel \<Rightarrow> nat \<Rightarrow> fr_task_config \<Rightarrow> bool" where
  "half_created k i cfg \<longleftrightarrow> config_ok cfg \<and> Pool i \<in> registered k \<and> task_state (tcb k (Pool i)) = STATE_CREATED \<and>
     fixed (tcb k (Pool i)) = configured cfg i 0"

fun build_ok :: "kernel \<Rightarrow> build \<Rightarrow> bool" where
  "build_ok k (Reserved i cfg) \<longleftrightarrow> half_created k i cfg"
| "build_ok k (Prepared i cfg sp) \<longleftrightarrow> half_created k i cfg \<and> sp = fr_task_calculate_stack_top cfg - 64"

definition creating_ok :: "creating_system \<Rightarrow> bool" where
  "creating_ok \<sigma> \<longleftrightarrow> (case \<sigma> of (k, c, b) \<Rightarrow> system_ok (k, c) \<and> (\<forall>p x. b p = Some x \<longrightarrow> build_ok k x \<and> c p = None \<and> c (Pool (slot x)) = None) \<and>
     (\<forall>p q x y. b p = Some x \<longrightarrow> b q = Some y \<longrightarrow> slot x = slot y \<longrightarrow> p = q))"

lemma creating_okD:
  assumes "creating_ok (k, c, b)"
  shows "system_ok (k, c)" "b p = Some x \<Longrightarrow> build_ok k x" "b p = Some x \<Longrightarrow> c p = None" "b p = Some x \<Longrightarrow> c (Pool (slot x)) = None"
    "b p = Some x \<Longrightarrow> b q = Some y \<Longrightarrow> slot x = slot y \<Longrightarrow> p = q"
  using assms by (auto simp: creating_ok_def)

text \<open>A half-created task stays as it is while other steps are taken.\<close>

lemma build_ok_cong:
  assumes "build_ok k x" and "tcb k' (Pool (slot x)) = tcb k (Pool (slot x)) \<or>
      fixed (tcb k' (Pool (slot x))) = fixed (tcb k (Pool (slot x))) \<and> task_state (tcb k' (Pool (slot x))) = STATE_CREATED"
    and "registered k \<subseteq> registered k'"
  shows "build_ok k' x"
  using assms(1,2) subsetD [OF assms(3), of "Pool (slot x)"] by (cases x) (auto simp: half_created_def)

lemma build_created: "build_ok k x \<Longrightarrow> Pool (slot x) \<in> registered k \<and> task_state (tcb k (Pool (slot x))) = STATE_CREATED"
  by (cases x) (auto simp: half_created_def)

lemma step_created:
  assumes "system_ok (k, c)" and "step l (k, c) (k', c')" and "q \<in> registered k" and "task_state (tcb k q) = STATE_CREATED"
  shows "registered k' = registered k \<and> fixed (tcb k' q) = fixed (tcb k q) \<and> task_state (tcb k' q) = STATE_CREATED"
  using assms(2)
proof cases
  case tick
  then show ?thesis using tick_steady [OF system_okD(1,3) [OF assms(1)]] assms(4) by (auto simp: steady_def)
next
  case (switch p regs loaded)
  note ok = system_okD [OF assms(1)]
  obtain n where n: "tcb k' = switched_tcb p n (cpu_psp (cpu k) - 32) k" "registered k' = registered k"
    "n = p \<or> n = IdleTask \<or> ready k n"
    by (rule switch_memory [OF ok(1,3) switch(4,5,7)]) blast
  have "q \<noteq> p" using base_okD(3) [OF kernel_okD(1) [OF ok(1)]] ok(3) switch(4) assms(4) by (auto simp: sched_ok_def)
  moreover have "q \<noteq> n" using n(3) calculation assms(3,4) by (auto simp: ready_def)
  ultimately show ?thesis using n(2) assms(4) by (simp add: n(1) switched_tcb_def fixed_def)
next
  case (run p sp m)
  then show ?thesis using assms(4) by (simp add: registered_def)
next
  case (call p op r)
  then show ?thesis using call_step [OF assms(1), of p op] assms(4) by (auto simp: served_def steady_def)
next
  case (resume p x r)
  then show ?thesis using resume_step [OF assms(1), of p x] assms(4) by (auto simp: served_def steady_def)
qed

text \<open>A service keeps its continuation in the table at the caller only.\<close>

lemma step_waits:
  assumes "step l (k, c) (k', c')" and "label_caller l \<noteq> Some q"
  shows "c' q = c q"
  using assms by (cases rule: step.cases) auto


section \<open>The three parts\<close>

text \<open>The first section reserves the next slot, or reports that the registry is full.\<close>

lemma reserve_effect:
  assumes "system_ok (k, c)" and "config_ok cfg" and "g_fr_task_count k < 8"
  obtains k' where "fr_task_create_reserve cfg k = (Some (unat (g_fr_task_count k)), k')" "system_ok (k', c)"
    "build_ok k' (Reserved (unat (g_fr_task_count k)) cfg)" "registered k' = insert (Pool (unat (g_fr_task_count k))) (registered k)"
    "\<And>q. q \<in> registered k \<Longrightarrow> tcb k' q = tcb k q" "pendsv_pending k' = pendsv_pending k"
    "g_fr_scheduler_current_task k' = g_fr_scheduler_current_task k" "g_fr_scheduler_running k' = g_fr_scheduler_running k"
proof -
  let ?n = "unat (g_fr_task_count k)"
  note ok = system_okD [OF assms(1)]
  obtain k' where r: "fr_task_create_reserve cfg k = (Some ?n, k')"
    and t: "fixed (tcb k' (Pool ?n)) = configured cfg ?n 0" "task_state (tcb k' (Pool ?n)) = STATE_CREATED"
      "\<And>q. q \<noteq> Pool ?n \<Longrightarrow> tcb k' q = tcb k q"
    and f: "g_fr_task_count k' = g_fr_task_count k + 1" "objects k' = objects k" "cpu k' = cpu k" "pendsv_pending k' = pendsv_pending k"
      "g_fr_scheduler_current_task k' = g_fr_scheduler_current_task k" "g_fr_scheduler_running k' = g_fr_scheduler_running k"
    using create_reserve_ok [OF assms(3), of cfg] by (auto simp: fixed_def configured_def created_task_def)
  have "unat (g_fr_task_count k') = Suc ?n" unfolding f(1) by (rule unat_Suc_word [OF assms(3)])
  then have R: "registered k' = insert (Pool ?n) (registered k)" by (auto simp: registered_index less_Suc_eq)
  have old: "tcb k' q = tcb k q" if "q \<in> registered k" for q using t(3) that by (cases "q = Pool ?n") auto
  have w: "wview k' q = wview k q" if "q \<in> registered k" for q using old [OF that] by (simp add: wview_def blocked_on_def)
  have K: "kernel_ok k'" using reserve_kernel_ok [OF ok(1) assms(2,3)] r by simp
  have "system_ok (k', c)"
  proof (rule system_okI [OF K])
    show "q \<in> registered k' \<and> continuation_ok k' q x" if "c q = Some x" for q x
      using ok(4,6) [OF that] wview_same(2) [OF w f(2)] by (simp add: R)
    show "blocked_on k' q = None" if "q \<in> registered k'" "c q = None" for q
    proof (cases "q = Pool ?n")
      case True
      then show ?thesis using t(2) by (simp add: blocked_on_def)
    next
      case False
      then show ?thesis using that ok(5) [of q] wview_same(1) [OF w f(2), of q] R by simp
    qed
  qed (use ok(2,3) f in \<open>simp_all add: thread_context_allowed_def\<close>)
  then show thesis by (rule that [OF r]) (use assms(2) t R old f in \<open>auto simp: half_created_def\<close>)
qed

text \<open>The stack is filled and the initial context is built, outside the critical sections.\<close>

lemma prepare_effect:
  assumes "system_ok (k, c)" and "build_ok k (Reserved i cfg)"
  obtains m where "fr_task_create_prepare (Pool i) k (\<lambda>sp s. Ret sp s) = Ret (fr_task_calculate_stack_top cfg - 64) (k\<lparr>ram := m\<rparr>)"
    "m = created_ram cfg (lm_return_trap (links k)) (ram k)" "system_ok (k\<lparr>ram := m\<rparr>, c)"
proof -
  let ?m = "created_ram cfg (lm_return_trap (links k)) (ram k)"
  have v: "fr_task_stack_is_valid cfg" using assms(2) by (simp add: config_ok_def half_created_def)
  have "fr_task_create_prepare (Pool i) k (\<lambda>sp s. Ret sp s) = Ret (fr_task_calculate_stack_top cfg - 64) (k\<lparr>ram := ?m\<rparr>)"
    using initial_sp_facts(2-5) [OF v] assms(2)
    by (simp add: fr_task_create_prepare_def fr_task_stack_fill_def fr_port_task_stack_init_def Let_def created_ram_def
        fixed_def configured_def half_created_def)
  moreover have "system_ok (k\<lparr>ram := ?m\<rparr>, c)" using run_step [OF assms(1), where m = ?m and sp = "cpu_psp (cpu k)"] by simp
  ultimately show thesis using that by blast
qed

text \<open>The second section makes the task ready.\<close>

lemma publish_effect:
  assumes "system_ok (k, c)" and "build_ok k (Prepared i cfg sp)" and nc: "c (Pool i) = None"
  obtains k' where "fr_task_create_publish (Pool i) sp k = Ret (TASK_OK, Wrote (Some (Pool i))) k'" "system_ok (k', c)"
    "ready k' (Pool i)" "fixed (tcb k' (Pool i)) = configured cfg i sp" "wait_reason (tcb k' (Pool i)) = WAIT_NONE"
    "wait_result (tcb k' (Pool i)) = RESULT_PENDING" "registered k' = registered k"
    "\<And>q. q \<noteq> Pool i \<Longrightarrow> tcb k' q = tcb k q" "pendsv_pending k' = pendsv_pending k"
    "g_fr_scheduler_current_task k' = g_fr_scheduler_current_task k" "g_fr_scheduler_running k' = g_fr_scheduler_running k"
    "priority (tcb k' (Pool i)) = priority (tcb k (Pool i))"
    "g_fr_trace k' = trace_write (fr_tick_now k) EVENT_TASK_CREATE (of_nat i + 1) (ucast (cfg_priority cfg)) (cfg_stack_size_words cfg) (g_fr_trace k)"
proof -
  note ok = system_okD [OF assms(1)]
  let ?T = "(tcb k (Pool i))\<lparr>saved_sp := sp, wait_deadline := 0, wait_object := 0, wait_reason := WAIT_NONE,
      wait_result := RESULT_PENDING, wait_has_deadline := False, task_state := STATE_READY\<rparr>"
  have b: "config_ok cfg" "Pool i \<in> registered k" "task_state (tcb k (Pool i)) = STATE_CREATED"
    "fixed (tcb k (Pool i)) = configured cfg i 0" "sp = fr_task_calculate_stack_top cfg - 64"
    using assms(2) by (simp_all add: half_created_def)
  have v: "fr_task_stack_is_valid cfg" using b(1) by (simp add: config_ok_def)
  note sp = initial_sp_facts(2-5) [OF v]
  obtain k' where k': "fr_task_create_publish (Pool i) sp k = Ret (TASK_OK, Wrote (Some (Pool i))) k'" "tcb k' = (tcb k)(Pool i := ?T)"
    and f: "g_fr_task_count k' = g_fr_task_count k" "objects k' = objects k" "cpu k' = cpu k" "pendsv_pending k' = pendsv_pending k"
      "g_fr_scheduler_current_task k' = g_fr_scheduler_current_task k" "g_fr_scheduler_running k' = g_fr_scheduler_running k"
      "g_fr_trace k' = trace_write (fr_tick_now k) EVENT_TASK_CREATE (task_id (tcb k (Pool i))) (ucast (base_priority (tcb k (Pool i))))
         (stack_size_words (tcb k (Pool i))) (g_fr_trace k)"
    using sp b(5)
    by (simp add: fr_task_create_publish_def split_beta Let_def upd_task_def fun_eq_iff fr_trace_record_locked_def
        fr_critical_exit_def fr_critical_enter_def msr_basepri_max_def fr_tick_now_def)
  have R: "registered k' = registered k" by (rule registered_cong [OF f(1)])
  have old: "task_ok i (tcb k (Pool i))" using base_okD(2) [OF kernel_okD(1) [OF ok(1)]] b(2) by (simp add: registered_index)
  have "fr_kernel_saved_sp_valid ?T"
    using sp b(4,5) by (simp add: fr_kernel_saved_sp_valid_def fixed_def configured_def)
  moreover have "fr_kernel_stack_geometry_valid ?T = fr_kernel_stack_geometry_valid (tcb k (Pool i))"
    by (simp add: fr_kernel_stack_geometry_valid_def)
  moreover have "fr_kernel_wait_state_valid ?T" using old b(3) by (simp add: task_ok_def fr_kernel_wait_state_valid_def)
  ultimately have T: "task_ok i ?T" using old by (simp add: task_ok_def)
  have "kernel_ok k'"
    by (rule kernel_ok_new_tcb [OF ok(1) b(2) k'(2) f(1,5,6,2)])
      (use T b(2,3) f(4) R in \<open>auto simp: waits_for_def k'(2)\<close>)
  moreover have w: "wview k' q = wview k q" if "q \<noteq> Pool i" for q using that by (simp add: k'(2) wview_def blocked_on_def)
  have "system_ok (k', c)"
  proof (rule system_okI [OF \<open>kernel_ok k'\<close>])
    show "q \<in> registered k' \<and> continuation_ok k' q x" if "c q = Some x" for q x
    proof -
      have "q \<noteq> Pool i" using that nc by auto
      then show ?thesis using ok(4,6) [OF that] wview_same(2) [OF w f(2)] by (simp add: R)
    qed
    show "blocked_on k' q = None" if "q \<in> registered k'" "c q = None" for q
      using that ok(5) [of q] wview_same(1) [OF w f(2), of q] by (cases "q = Pool i") (simp_all add: R k'(2) blocked_on_def)
  qed (use ok(2,3) f in \<open>simp_all add: thread_context_allowed_def\<close>)
  then show thesis
    by (rule that [OF k'(1)]) (use b(2,4) R f in \<open>simp_all add: k'(2) ready_def fixed_def configured_def\<close>)
qed


section \<open>The invariant\<close>

lemma caller_running:
  assumes "step l (k, c) (k', c')" and "label_caller l = Some p" and "system_ok (k, c)"
  shows "task_state (tcb k p) = STATE_RUNNING"
proof -
  have "executing p k" using assms(1,2) by (cases rule: step.cases) auto
  then show ?thesis
    using base_okD(3) [OF kernel_okD(1) [OF system_okD(1) [OF assms(3)]]] system_okD(3) [OF assms(3)]
    by (auto simp: executing_def sched_ok_def)
qed

lemma cstep_kernel:
  assumes "creating_ok (k, c, b)" and "step l (k, c) (k', c')" and "\<And>p. label_caller l = Some p \<Longrightarrow> b p = None"
  shows "creating_ok (k', c', b)"
proof -
  note inv = creating_okD [OF assms(1)]
  have each: "build_ok k' x \<and> c' p = None \<and> c' (Pool (slot x)) = None" if "b p = Some x" for p x
  proof -
    have q: "Pool (slot x) \<in> registered k" "task_state (tcb k (Pool (slot x))) = STATE_CREATED"
      using build_created [OF inv(2) [OF that]] by simp_all
    have "label_caller l \<noteq> Some p" using assms(3) [of p] that by auto
    moreover have "label_caller l \<noteq> Some (Pool (slot x))" using caller_running [OF assms(2) _ inv(1)] q(2) by auto
    ultimately show ?thesis
      using build_ok_cong [OF inv(2) [OF that]] step_created [OF inv(1) assms(2) q] step_waits [OF assms(2)] inv(3,4) [OF that] by simp
  qed
  then show ?thesis using step_keeps_ok [OF assms(2) inv(1)] inv(5) unfolding creating_ok_def by fast
qed

text \<open>No object is touched by an initialiser that is called too late.\<close>

lemma late_init_rejected:
  assumes "g_fr_scheduler_running k"
  shows "fr_binary_semaphore_init a av k = (False, k)" "fr_counting_semaphore_init a n mx k = (False, k)"
    "fr_mutex_init a k = (False, k)" "fr_queue_init a st cap sz k = (False, k)" "fr_event_flags_init a k = (False, k)"
  using assms
  by (simp_all add: fr_binary_semaphore_init_def fr_counting_semaphore_init_def fr_mutex_init_def fr_queue_init_def
      fr_event_flags_init_def fr_scheduler_is_running_def)

lemma late_call_same:
  assumes "late_call k k'" and "g_fr_scheduler_running k"
  shows "same_kernel k k' \<and> cpu k' = cpu k"
  using assms
proof cases
  case assertions
  then show ?thesis by (simp add: same_kernel_def fr_assert_init_def)
next
  case trace
  then show ?thesis by (simp add: same_kernel_def fr_trace_init_def)
next
  case trace_clear
  then show ?thesis by (simp add: same_kernel_def fr_trace_clear_def split_beta Let_def fr_critical_exit_def
      fr_critical_enter_def msr_basepri_max_def)
next
  case (trace_enable en)
  then show ?thesis by (simp add: same_kernel_def fr_trace_enable_def split_beta Let_def fr_critical_exit_def
      fr_critical_enter_def msr_basepri_max_def)
qed (simp_all add: late_init_rejected assms(2))

lemma cstep_late:
  assumes "creating_ok (k, c, b)" and "late_call k k'"
  shows "creating_ok (k', c, b)"
proof -
  note inv = creating_okD [OF assms(1)]
  note ok = system_okD [OF inv(1)] and same = late_call_same [OF assms(2) system_okD(3) [OF inv(1)]]
  have eq: "tcb k' = tcb k" "registered k' = registered k" "objects k' = objects k" "g_fr_scheduler_running k'"
    using same ok(3) by (simp_all add: same_kernel_def registered_def)
  have "kernel_ok k'" by (rule kernel_ok_same [OF _ ok(1)]) (use same in simp)
  then have "system_ok (k', c)"
    by (rule system_ok_same_waits [OF inv(1)])
      (use eq ok(2) same in \<open>simp_all add: wview_def blocked_on_def thread_context_allowed_def\<close>)
  moreover have "build_ok k' x" if "b p = Some x" for p x
    by (rule build_ok_cong [OF inv(2) [OF that]]) (simp_all add: eq)
  ultimately show ?thesis using inv(3-5) unfolding creating_ok_def by fast
qed

lemma cstep_reserve:
  assumes "creating_ok (k, c, b)" and "c p = None" and "config_ok cfg" and "fr_task_create_reserve cfg k = (Some i, k')"
  shows "creating_ok (k', c, b(p \<mapsto> Reserved i cfg))"
proof -
  note inv = creating_okD [OF assms(1)]
  have room: "g_fr_task_count k < 8"
    using assms(4) by (auto simp: fr_task_create_reserve_def split_beta Let_def not_le split: if_splits)
  obtain k2 where r: "fr_task_create_reserve cfg k = (Some (unat (g_fr_task_count k)), k2)" "system_ok (k2, c)"
    "build_ok k2 (Reserved (unat (g_fr_task_count k)) cfg)" "registered k2 = insert (Pool (unat (g_fr_task_count k))) (registered k)"
    "\<And>q. q \<in> registered k \<Longrightarrow> tcb k2 q = tcb k q"
    by (rule reserve_effect [OF inv(1) assms(3) room]) blast
  have i: "i = unat (g_fr_task_count k)" "k' = k2" using assms(4) r(1) by simp_all
  have new: "Pool i \<notin> registered k" by (simp add: i)
  have "c (Pool i) = None" using system_okD(4) [OF inv(1), of "Pool i"] new by (cases "c (Pool i)") auto
  moreover have "build_ok k' x \<and> c q = None \<and> c (Pool (slot x)) = None \<and> slot x \<noteq> i" if "b q = Some x" for q x
  proof -
    have "Pool (slot x) \<in> registered k" using build_created [OF inv(2) [OF that]] by simp
    then have "slot x \<noteq> i" "tcb k' (Pool (slot x)) = tcb k (Pool (slot x))" using new r(5) i by auto
    then show ?thesis using build_ok_cong [OF inv(2) [OF that], of k'] r(4) i inv(3,4) [OF that] by auto
  qed
  ultimately show ?thesis using r(2,3) i assms(2) inv(5) by (fastforce simp: creating_ok_def split: if_splits)
qed

lemma cstep_prepare:
  assumes "creating_ok (k, c, b)" and "b p = Some (Reserved i cfg)"
    and "fr_task_create_prepare (Pool i) k (\<lambda>sp s. Ret sp s) = Ret sp k'"
  shows "creating_ok (k', c, b(p \<mapsto> Prepared i cfg sp))"
proof -
  note inv = creating_okD [OF assms(1)]
  obtain m where m: "fr_task_create_prepare (Pool i) k (\<lambda>sp s. Ret sp s) = Ret (fr_task_calculate_stack_top cfg - 64) (k\<lparr>ram := m\<rparr>)"
    "system_ok (k\<lparr>ram := m\<rparr>, c)"
    by (rule prepare_effect [OF inv(1) inv(2) [OF assms(2)]]) blast
  have e: "sp = fr_task_calculate_stack_top cfg - 64" "k' = k\<lparr>ram := m\<rparr>" using assms(3) m(1) by simp_all
  have keep: "build_ok k' x" if "build_ok k x" for x
    by (rule build_ok_cong [OF that]) (simp_all add: e(2) registered_def)
  have pi: "build_ok k' (Prepared i cfg sp)" using keep [OF inv(2) [OF assms(2)]] e(1) by simp
  have s: "q = p" if "b q = Some y" "slot y = i" for q y using inv(5) [OF that(1) assms(2)] that(2) by simp
  show ?thesis
    using m(2) e(2) pi keep inv(2-5) inv(3,4) [OF assms(2)] s by (fastforce simp: creating_ok_def split: if_splits)
qed

lemma cstep_publish:
  assumes "creating_ok (k, c, b)" and "b p = Some (Prepared i cfg sp)" and "fr_task_create_publish (Pool i) sp k = Ret r k'"
  shows "creating_ok (k', c, b(p := None))"
proof -
  note inv = creating_okD [OF assms(1)]
  have nc: "c (Pool i) = None" using inv(4) [OF assms(2)] by simp
  obtain k2 where k2: "fr_task_create_publish (Pool i) sp k = Ret (TASK_OK, Wrote (Some (Pool i))) k2" "system_ok (k2, c)"
    "registered k2 = registered k" "\<And>q. q \<noteq> Pool i \<Longrightarrow> tcb k2 q = tcb k q"
    by (rule publish_effect [OF inv(1) inv(2) [OF assms(2)] nc]) blast
  have e: "k' = k2" using assms(3) k2(1) by simp
  have "build_ok k' x" if "b q = Some x" "q \<noteq> p" for q x
  proof -
    have "slot x \<noteq> i" using inv(5) [OF that(1) assms(2)] that(2) by auto
    then show ?thesis using build_ok_cong [OF inv(2) [OF that(1)], of k'] k2(3,4) e by simp
  qed
  then show ?thesis using k2(2) e inv(3-5) by (auto simp: creating_ok_def split: if_splits)
qed

lemma creating_invariant: "creating lm \<sigma> \<Longrightarrow> creating_ok \<sigma>"
proof (induction rule: creating.induct)
  case (running k c)
  then show ?case using reachable_ok by (simp add: creating_ok_def)
next
  case (more \<sigma> \<sigma>')
  from more(2,3) show ?case
    by (cases rule: cstep.cases) (auto intro: cstep_kernel cstep_late cstep_reserve cstep_prepare cstep_publish)
qed


section \<open>Creation completes\<close>

text \<open>
  C10. Tasks can be created while the system runs. Whatever ticks, context switches, service calls, late
  initialisations and other creations happen in between: the kernel invariant holds, no handler and no service asserts while tasks are
  half created; the first part of a creation gets the next slot of the registry, or leaves the kernel unchanged
  when all eight are taken; the second part ends with the stack pointer of a full initial context; and the third
  ends with the task READY with exactly the stack, entry, argument, id and priority of its configuration, with no
  other task touched. It does not request a context switch, so the creator keeps the processor.
\<close>

theorem creation_while_running:
  assumes "creating lm (k, c, b)"
  shows "kernel_ok k \<and> (\<exists>k'. SysTick_Handler k = Ret () k') \<and>
    (\<forall>p regs. g_fr_scheduler_current_task k = Some p \<and> fr_scheduler_saved_sp_valid (Some p) (cpu_psp (cpu k) - 32) k \<longrightarrow>
       (\<exists>rs k'. PendSV_Handler regs k = Ret rs k')) \<and>
    (\<forall>p op. executing p k \<and> c p = None \<longrightarrow> (\<exists>r k'. exec op k = Ret r k')) \<and>
    (\<forall>p x. executing p k \<and> c p = Some x \<longrightarrow> (\<exists>r k'. resume x p k = Ret r k')) \<and>
    (\<forall>cfg. config_ok cfg \<longrightarrow> (if g_fr_task_count k < 8 then \<exists>k'. fr_task_create_reserve cfg k = (Some (unat (g_fr_task_count k)), k')
       else fr_task_create_reserve cfg k = (None, k))) \<and>
    (\<forall>p i cfg. b p = Some (Reserved i cfg) \<longrightarrow>
       (\<exists>k'. fr_task_create_prepare (Pool i) k (\<lambda>sp s. Ret sp s) = Ret (fr_task_calculate_stack_top cfg - 64) k')) \<and>
    (\<forall>p i cfg sp. b p = Some (Prepared i cfg sp) \<longrightarrow>
       (\<exists>k'. fr_task_create_publish (Pool i) sp k = Ret (TASK_OK, Wrote (Some (Pool i))) k' \<and> ready k' (Pool i) \<and>
          fixed (tcb k' (Pool i)) = configured cfg i (fr_task_calculate_stack_top cfg - 64) \<and>
          (\<forall>q. q \<noteq> Pool i \<longrightarrow> tcb k' q = tcb k q) \<and> pendsv_pending k' = pendsv_pending k \<and>
          g_fr_scheduler_current_task k' = g_fr_scheduler_current_task k))"
proof (intro conjI allI impI)
  note inv = creating_okD [OF creating_invariant [OF assms]]
  show "kernel_ok k" by (rule system_okD(1) [OF inv(1)])
  show "\<exists>k'. SysTick_Handler k = Ret () k'" using tick_step [OF inv(1)] by metis
  show "\<exists>rs k'. PendSV_Handler regs k = Ret rs k'"
    if "g_fr_scheduler_current_task k = Some p \<and> fr_scheduler_saved_sp_valid (Some p) (cpu_psp (cpu k) - 32) k" for p regs
    using switch_step [OF inv(1), of p regs] that by metis
  show "\<exists>r k'. exec op k = Ret r k'" if "executing p k \<and> c p = None" for p op
    using call_step [OF inv(1), of p op] that by metis
  show "\<exists>r k'. resume x p k = Ret r k'" if "executing p k \<and> c p = Some x" for p x
    using resume_step [OF inv(1), of p x] that by metis
  show "if g_fr_task_count k < 8 then \<exists>k'. fr_task_create_reserve cfg k = (Some (unat (g_fr_task_count k)), k')
       else fr_task_create_reserve cfg k = (None, k)" if ok: "config_ok cfg" for cfg
  proof (cases "g_fr_task_count k < 8")
    case True
    obtain k' where "fr_task_create_reserve cfg k = (Some (unat (g_fr_task_count k)), k')"
      by (rule reserve_effect [OF inv(1) ok True]) blast
    then show ?thesis using True by simp
  next
    case False
    then show ?thesis by (simp add: fr_task_create_reserve_def split_beta Let_def)
  qed
  show "\<exists>k'. fr_task_create_prepare (Pool i) k (\<lambda>sp s. Ret sp s) = Ret (fr_task_calculate_stack_top cfg - 64) k'"
    if "b p = Some (Reserved i cfg)" for p i cfg
    using prepare_effect [OF inv(1) inv(2) [OF that]] by metis
  show "\<exists>k'. fr_task_create_publish (Pool i) sp k = Ret (TASK_OK, Wrote (Some (Pool i))) k' \<and> ready k' (Pool i) \<and>
          fixed (tcb k' (Pool i)) = configured cfg i (fr_task_calculate_stack_top cfg - 64) \<and>
          (\<forall>q. q \<noteq> Pool i \<longrightarrow> tcb k' q = tcb k q) \<and> pendsv_pending k' = pendsv_pending k \<and>
          g_fr_scheduler_current_task k' = g_fr_scheduler_current_task k"
    if b: "b p = Some (Prepared i cfg sp)" for p i cfg sp
  proof -
    have i: "c (Pool i) = None" "sp = fr_task_calculate_stack_top cfg - 64" using inv(2,4) [OF b] by simp_all
    show ?thesis by (rule publish_effect [OF inv(1) inv(2) [OF b] i(1)]) (use i(2) in blast)
  qed
qed

text \<open>A running task of priority 3 creates one of priority 5, and is about to make it ready.\<close>

definition config_c :: fr_task_config where
  "config_c = \<lparr>cfg_entry = 0x08000181, cfg_argument = 0, cfg_stack_memory = 0x20005000,
     cfg_stack_size_words = 64, cfg_priority = 5\<rparr>"

lemma config_c_ok: "config_ok config_c"
  by (simp add: config_ok_def config_c_def stack_is_valid_iff word_le_nat_alt)

lemma creating_example:
  obtains k p sp where "creating example_links (k, \<lambda>_. None, [p \<mapsto> Prepared 2 config_c sp])" "executing p k" "p \<noteq> Pool 2"
    "prio k p = 3"
proof -
  obtain k p where k: "reachable example_links (k, \<lambda>_. None)" "registered k = {Pool 0, Pool 1}" "executing p k" "p \<in> registered k"
    "tcb k = ((tcb two_tasks)(IdleTask := idle_tcb two_tasks))(p := (tcb two_tasks p)\<lparr>task_state := STATE_RUNNING\<rparr>)"
    "g_fr_task_count k = 2"
    by (rule two_booted) blast
  have "p = Pool 0 \<or> p = Pool 1" using k(2,4) by simp
  then have p: "prio k p = 3" "p \<noteq> Pool 2"
    by (elim disjE; simp add: prio_def k(5) two_tasks_def created_task_def config_a_def config_b_def)+
  have ok: "system_ok (k, \<lambda>_. None)" by (rule reachable_ok [OF k(1)])
  obtain k1 where k1: "fr_task_create_reserve config_c k = (Some 2, k1)" "system_ok (k1, \<lambda>_. None)" "build_ok k1 (Reserved 2 config_c)"
    "\<And>q. q \<in> registered k \<Longrightarrow> tcb k1 q = tcb k q" "pendsv_pending k1 = pendsv_pending k"
    "g_fr_scheduler_current_task k1 = g_fr_scheduler_current_task k" "g_fr_scheduler_running k1 = g_fr_scheduler_running k"
    by (rule reserve_effect [OF ok config_c_ok, unfolded k(6)]) simp_all
  have ex: "executing p k1" using k(3) k1(5-7) by (simp add: executing_def)
  have c1: "creating example_links (k1, \<lambda>_. None, [p \<mapsto> Reserved 2 config_c])"
    by (rule creating.more [OF creating.running [OF k(1)]]) (rule cstep.reserve [OF k(3) _ _ config_c_ok k1(1)], simp_all)
  obtain m sp where m: "fr_task_create_prepare (Pool 2) k1 (\<lambda>sp s. Ret sp s) = Ret sp (k1\<lparr>ram := m\<rparr>)"
    using prepare_effect [OF k1(2,3)] by metis
  have "cstep (k1, \<lambda>_. None, [p \<mapsto> Reserved 2 config_c]) (k1\<lparr>ram := m\<rparr>, \<lambda>_. None, [p \<mapsto> Reserved 2 config_c, p \<mapsto> Prepared 2 config_c sp])"
    by (rule cstep.prepare [OF ex _ m]) simp
  then have "creating example_links (k1\<lparr>ram := m\<rparr>, \<lambda>_. None, [p \<mapsto> Prepared 2 config_c sp])"
    using creating.more [OF c1] by simp
  then show thesis by (rule that) (use k1(4) [OF k(4)] ex p in \<open>simp_all add: executing_def prio_def\<close>)
qed

theorem creation_while_running_witness:
  "\<exists>k p sp k'. creating example_links (k, \<lambda>_. None, [p \<mapsto> Prepared 2 config_c sp]) \<and>
     fr_task_create_publish (Pool 2) sp k = Ret (TASK_OK, Wrote (Some (Pool 2))) k' \<and> ready k' (Pool 2)"
proof -
  obtain k p sp where k: "creating example_links (k, \<lambda>_. None, [p \<mapsto> Prepared 2 config_c sp])" by (rule creating_example) blast
  from creation_while_running [OF k] have "\<exists>k'. fr_task_create_publish (Pool 2) sp k = Ret (TASK_OK, Wrote (Some (Pool 2))) k' \<and> ready k' (Pool 2)"
    by (metis fun_upd_same)
  then show ?thesis using k by blast
qed


section \<open>What creation does not do\<close>

text \<open>
  A task that is created with a higher priority than the running task becomes ready, and neither runs nor has a
  context switch pending: it waits for the next event that makes the scheduler select.
\<close>

lemma created_task_does_not_preempt:
  "\<exists>k p. creating example_links (k, \<lambda>_. None, \<lambda>_. None) \<and> executing p k \<and> ready k (Pool 2) \<and> prio k p < prio k (Pool 2)"
proof -
  obtain k p sp where k: "creating example_links (k, \<lambda>_. None, [p \<mapsto> Prepared 2 config_c sp])" "executing p k" "p \<noteq> Pool 2" "prio k p = 3"
    by (rule creating_example) blast
  note inv = creating_okD [OF creating_invariant [OF k(1)]]
  have b: "build_ok k (Prepared 2 config_c sp)" by (rule inv(2) [of p]) simp
  obtain k' where k': "fr_task_create_publish (Pool 2) sp k = Ret (TASK_OK, Wrote (Some (Pool 2))) k'" "system_ok (k', \<lambda>_. None)" "ready k' (Pool 2)"
    "fixed (tcb k' (Pool 2)) = configured config_c 2 sp" "\<And>q. q \<noteq> Pool 2 \<Longrightarrow> tcb k' q = tcb k q" "pendsv_pending k' = pendsv_pending k"
    "g_fr_scheduler_current_task k' = g_fr_scheduler_current_task k" "g_fr_scheduler_running k' = g_fr_scheduler_running k"
    by (rule publish_effect [OF inv(1) b refl]) blast
  have ex: "executing p k'" using k(2) k'(6-8) by (simp add: executing_def)
  have "cstep (k, \<lambda>_. None, [p \<mapsto> Prepared 2 config_c sp]) (k', \<lambda>_. None, [p \<mapsto> Prepared 2 config_c sp](p := None))"
    by (rule cstep.publish [OF k(2) _ k'(1)]) simp
  then have c: "creating example_links (k', \<lambda>_. None, \<lambda>_. None)" using creating.more [OF k(1)] by simp
  have "prio k' (Pool 2) = eff k' (Pool 2)"
    using kernel_okD(2) [OF system_okD(1) [OF k'(2)]] k'(3) by (simp add: inherit_ok_def inherit_inv_def ready_def)
  then have "5 \<le> prio k' (Pool 2)"
    using base_le_eff [of k' "Pool 2"] k'(4) by (simp add: fixed_def configured_def config_c_def)
  moreover have "prio k' p = 3" using k(3,4) k'(5) by (simp add: prio_def)
  ultimately have "prio k' p < prio k' (Pool 2)" by (simp add: word_le_nat_alt word_less_nat_alt)
  then show ?thesis using c k'(3) ex by blast
qed

text \<open>While a creation is under way, the kernel's self-check reports a violation: it takes the CREATED task for a fault.\<close>

lemma half_created_reported:
  assumes "creating lm (k, c, b)" and "b p = Some x"
  shows "\<not> fst (fr_kernel_check_invariants True k)"
proof -
  note inv = creating_okD [OF creating_invariant [OF assms(1)]]
  have "\<not> slot_ok k True (slot x)" using build_created [OF inv(2) [OF assms(2)]] by (simp add: slot_ok_def Let_def)
  then show ?thesis
    using build_created [OF inv(2) [OF assms(2)]] system_okD(3) [OF inv(1)] by (auto simp: check_result scan_accepts_def)
qed

end
