(* ===== verification/Demo.thy ===== *)
theory Demo
  imports Services Peripherals
begin

text \<open>
  The release demonstration (\<open>src/demo.c\<close>): a producer that sends a numbered message every 100 ticks and
  a consumer that checks their order, measures their latency and toggles the LED. The two task bodies
  are split at their kernel calls: a program counter names the point of the loop, and every piece of
  code between two calls is a definition. The theory \<open>Firmware\<close> runs them on the kernel.
\<close>


section \<open>Data\<close>

definition FR_RELEASE_DEMO_QUEUE_CAPACITY :: u32 where [simp]: "FR_RELEASE_DEMO_QUEUE_CAPACITY = 8"
definition FR_RELEASE_DEMO_TASK_STACK_WORDS :: u32 where [simp]: "FR_RELEASE_DEMO_TASK_STACK_WORDS = 128"
definition FR_RELEASE_DEMO_PRODUCER_PRIORITY :: u8 where [simp]: "FR_RELEASE_DEMO_PRODUCER_PRIORITY = 3"
definition FR_RELEASE_DEMO_CONSUMER_PRIORITY :: u8 where [simp]: "FR_RELEASE_DEMO_CONSUMER_PRIORITY = 4"
definition FR_RELEASE_DEMO_PRODUCER_PERIOD_TICKS :: u32 where [simp]: "FR_RELEASE_DEMO_PRODUCER_PERIOD_TICKS = 100"
definition FR_RELEASE_DEMO_LED_MESSAGE_INTERVAL :: u32 where [simp]: "FR_RELEASE_DEMO_LED_MESSAGE_INTERVAL = 5"
definition FR_QUEUE_WAIT_FOREVER :: u32 where [simp]: "FR_QUEUE_WAIT_FOREVER = UINT32_MAX"

text \<open>\<open>sizeof(fr_release_demo_message_t)\<close>: the sequence number, then the tick of production.\<close>

definition sizeof_message :: u32 where [simp]: "sizeof_message = 8"

definition message_sequence :: "(u32 \<Rightarrow> u8) \<Rightarrow> u32 \<Rightarrow> u32" where
  "message_sequence m a = load32 m a"

definition message_produced_tick :: "(u32 \<Rightarrow> u8) \<Rightarrow> u32 \<Rightarrow> u32" where
  "message_produced_tick m a = load32 m (a + 4)"

record fr_release_demo_status =
  ds_initialized :: bool
  ds_producer_task_id :: u32
  ds_consumer_task_id :: u32
  ds_messages_sent :: u32
  ds_messages_received :: u32
  ds_last_sent_sequence :: u32
  ds_last_received_sequence :: u32
  ds_queue_depth :: u32
  ds_max_latency_ticks :: u32
  ds_order_errors :: u32
  ds_send_errors :: u32
  ds_receive_errors :: u32
  ds_task_create_errors :: u32

text \<open>Where the linker places the static objects and the functions of the demonstration.\<close>

record demo_links =
  dl_queue :: u32
  dl_queue_storage :: u32
  dl_producer_stack :: u32
  dl_consumer_stack :: u32
  dl_producer_entry :: u32
  dl_consumer_entry :: u32

record demo =
  g_fr_release_demo_status :: fr_release_demo_status
  g_fr_release_demo_producer_task :: u32
  g_fr_release_demo_consumer_task :: u32
  dlinks :: demo_links

definition upd_status :: "(fr_release_demo_status \<Rightarrow> fr_release_demo_status) \<Rightarrow> demo \<Rightarrow> demo" where
  "upd_status f d = d\<lparr>g_fr_release_demo_status := f (g_fr_release_demo_status d)\<rparr>"

text \<open>The statement \<open>g_fr_release_demo_queue.count\<close>: the field of the queue object.\<close>

definition queue_count :: "u32 \<Rightarrow> kernel \<Rightarrow> u32" where
  "queue_count a s = (case objects s a of Queue q \<Rightarrow> q_count q | _ \<Rightarrow> 0)"


section \<open>Error counters\<close>

definition fr_release_demo_record_send_error :: "kernel \<Rightarrow> demo \<Rightarrow> kernel \<times> demo" where
  "fr_release_demo_record_send_error s d =
     (let (state, s) = fr_critical_enter s;
          d = upd_status (\<lambda>t. t\<lparr>ds_send_errors := ds_send_errors t + 1\<rparr>) d
      in (fr_critical_exit state s, d))"

definition fr_release_demo_record_receive_error :: "kernel \<Rightarrow> demo \<Rightarrow> kernel \<times> demo" where
  "fr_release_demo_record_receive_error s d =
     (let (state, s) = fr_critical_enter s;
          d = upd_status (\<lambda>t. t\<lparr>ds_receive_errors := ds_receive_errors t + 1\<rparr>) d
      in (fr_critical_exit state s, d))"


section \<open>The producer\<close>

datatype producer_pc = P_Message | P_Send | P_SendFailed | P_Record | P_Sleep | P_SleepFailed

text \<open>The locals of the producer: \<open>sequence\<close>, and the address of \<open>message\<close> in its stack frame.\<close>

record producer =
  pr_pc :: producer_pc
  pr_sequence :: u32
  pr_message :: u32

definition producer_start :: "u32 \<Rightarrow> producer" where
  "producer_start msg = \<lparr>pr_pc = P_Message, pr_sequence = 0, pr_message = msg\<rparr>"

text \<open>The kernel call at a point of the loop, and where the result leads.\<close>

definition producer_call :: "demo_links \<Rightarrow> producer \<Rightarrow> service option" where
  "producer_call l t = (case pr_pc t of
     P_Send \<Rightarrow> Some (Send (dl_queue l) (pr_message t) FR_QUEUE_WAIT_FOREVER)
   | P_Sleep \<Rightarrow> Some (Sleep FR_RELEASE_DEMO_PRODUCER_PERIOD_TICKS)
   | _ \<Rightarrow> None)"

definition producer_returned :: "bool \<Rightarrow> kernel \<Rightarrow> producer \<Rightarrow> producer" where
  "producer_returned ok s t = (case pr_pc t of
     P_Send \<Rightarrow> if \<not> ok then t\<lparr>pr_pc := P_SendFailed\<rparr>
               else t\<lparr>pr_pc := P_Record, pr_sequence := message_sequence (ram s) (pr_message t)\<rparr>
   | P_Sleep \<Rightarrow> if \<not> ok then t\<lparr>pr_pc := P_SleepFailed\<rparr> else t\<lparr>pr_pc := P_Message\<rparr>
   | _ \<Rightarrow> t)"

definition producer_message :: "producer \<Rightarrow> kernel \<Rightarrow> kernel" where
  "producer_message t s = s\<lparr>ram := store32 (store32 (ram s) (pr_message t) (pr_sequence t + 1)) (pr_message t + 4) (fr_tick_now s)\<rparr>"

definition producer_record :: "producer \<Rightarrow> kernel \<Rightarrow> demo \<Rightarrow> kernel \<times> demo" where
  "producer_record t s d =
     (let (state, s) = fr_critical_enter s;
          d = upd_status (\<lambda>u. u\<lparr>ds_messages_sent := ds_messages_sent u + 1, ds_last_sent_sequence := pr_sequence t,
                ds_queue_depth := queue_count (dl_queue (dlinks d)) s\<rparr>) d
      in (fr_critical_exit state s, d))"

text \<open>One piece of the loop body that makes no blocking call.\<close>

definition fr_release_demo_producer_entry :: "kernel \<Rightarrow> demo \<Rightarrow> producer \<Rightarrow> kernel \<times> demo \<times> producer" where
  "fr_release_demo_producer_entry s d t = (case pr_pc t of
     P_Message \<Rightarrow> (producer_message t s, d, t\<lparr>pr_pc := P_Send\<rparr>)
   | P_SendFailed \<Rightarrow> (case fr_release_demo_record_send_error s d of (s, d) \<Rightarrow> (s, d, t\<lparr>pr_pc := P_Message\<rparr>))
   | P_Record \<Rightarrow> (case producer_record t s d of (s, d) \<Rightarrow> (s, d, t\<lparr>pr_pc := P_Sleep\<rparr>))
   | P_SleepFailed \<Rightarrow> (case fr_release_demo_record_send_error s d of (s, d) \<Rightarrow> (s, d, t\<lparr>pr_pc := P_Message\<rparr>))
   | _ \<Rightarrow> (s, d, t))"


section \<open>The consumer\<close>

datatype consumer_pc = C_Receive | C_ReceiveFailed | C_Latency | C_Record | C_Led

record consumer =
  co_pc :: consumer_pc
  co_expected_sequence :: u32
  co_message :: u32
  co_latency :: u32
  co_received :: u32

definition consumer_start :: "u32 \<Rightarrow> consumer" where
  "consumer_start msg = \<lparr>co_pc = C_Receive, co_expected_sequence = 1, co_message = msg, co_latency = 0, co_received = 0\<rparr>"

definition consumer_call :: "demo_links \<Rightarrow> consumer \<Rightarrow> service option" where
  "consumer_call l t = (case co_pc t of
     C_Receive \<Rightarrow> Some (Receive (dl_queue l) (co_message t) FR_QUEUE_WAIT_FOREVER)
   | _ \<Rightarrow> None)"

definition consumer_returned :: "bool \<Rightarrow> consumer \<Rightarrow> consumer" where
  "consumer_returned ok t = (case co_pc t of
     C_Receive \<Rightarrow> if \<not> ok then t\<lparr>co_pc := C_ReceiveFailed\<rparr> else t\<lparr>co_pc := C_Latency\<rparr>
   | _ \<Rightarrow> t)"

definition consumer_latency :: "consumer \<Rightarrow> kernel \<Rightarrow> consumer" where
  "consumer_latency t s = t\<lparr>co_latency := fr_tick_elapsed (message_produced_tick (ram s) (co_message t)) (fr_tick_now s)\<rparr>"

definition consumer_record :: "consumer \<Rightarrow> kernel \<Rightarrow> demo \<Rightarrow> kernel \<times> demo \<times> consumer" where
  "consumer_record t s d =
     (let (state, s) = fr_critical_enter s;
          seq = message_sequence (ram s) (co_message t);
          d = upd_status (\<lambda>u. u\<lparr>ds_messages_received := ds_messages_received u + 1, ds_last_received_sequence := seq,
                ds_queue_depth := queue_count (dl_queue (dlinks d)) s\<rparr>) d;
          (d, t) = (if seq \<noteq> co_expected_sequence t
                    then (upd_status (\<lambda>u. u\<lparr>ds_order_errors := ds_order_errors u + 1\<rparr>) d, t\<lparr>co_expected_sequence := seq + 1\<rparr>)
                    else (d, t\<lparr>co_expected_sequence := co_expected_sequence t + 1\<rparr>));
          d = (if co_latency t > ds_max_latency_ticks (g_fr_release_demo_status d)
               then upd_status (\<lambda>u. u\<lparr>ds_max_latency_ticks := co_latency t\<rparr>) d else d);
          t = t\<lparr>co_received := ds_messages_received (g_fr_release_demo_status d)\<rparr>
      in (fr_critical_exit state s, d, t))"

definition consumer_led :: "consumer \<Rightarrow> mmio \<Rightarrow> mmio" where
  "consumer_led t m = (if co_received t mod FR_RELEASE_DEMO_LED_MESSAGE_INTERVAL = 0 then fr_board_led_toggle m else m)"

definition fr_release_demo_consumer_entry ::
    "kernel \<Rightarrow> demo \<Rightarrow> mmio \<Rightarrow> consumer \<Rightarrow> kernel \<times> demo \<times> mmio \<times> consumer" where
  "fr_release_demo_consumer_entry s d m t = (case co_pc t of
     C_ReceiveFailed \<Rightarrow> (case fr_release_demo_record_receive_error s d of (s, d) \<Rightarrow> (s, d, m, t\<lparr>co_pc := C_Receive\<rparr>))
   | C_Latency \<Rightarrow> (s, d, m, (consumer_latency t s)\<lparr>co_pc := C_Record\<rparr>)
   | C_Record \<Rightarrow> (case consumer_record t s d of (s, d, t) \<Rightarrow> (s, d, m, t\<lparr>co_pc := C_Led\<rparr>))
   | C_Led \<Rightarrow> (s, d, consumer_led t m, t\<lparr>co_pc := C_Receive\<rparr>)
   | _ \<Rightarrow> (s, d, m, t))"


section \<open>Set-up\<close>

definition fr_release_demo_init :: "kernel \<Rightarrow> demo \<Rightarrow> bool \<times> kernel \<times> demo" where
  "fr_release_demo_init s d =
     (let (ok, s) = fr_queue_init (dl_queue (dlinks d)) (dl_queue_storage (dlinks d)) FR_RELEASE_DEMO_QUEUE_CAPACITY sizeof_message s
      in if \<not> ok then (False, s, d)
         else (True, s, upd_status (\<lambda>t. t\<lparr>ds_initialized := True, ds_queue_depth := 0\<rparr>) d))"

text \<open>The caller's handle variable after \<open>fr_task_create\<close>: as before, null, or the address of the slot.\<close>

fun stored_handle :: "handle_write \<Rightarrow> kernel \<Rightarrow> u32 \<Rightarrow> u32" where
  "stored_handle Untouched s h = h"
| "stored_handle (Wrote (Some (Pool i))) s h = lm_task_pool (links s) + sizeof_fr_task * of_nat i"
| "stored_handle (Wrote _) s h = 0"

definition task_create_error :: "demo \<Rightarrow> demo" where
  "task_create_error = upd_status (\<lambda>t. t\<lparr>ds_task_create_errors := ds_task_create_errors t + 1\<rparr>)"

definition producer_config :: "demo_links \<Rightarrow> fr_task_config" where
  "producer_config l = \<lparr>cfg_entry = dl_producer_entry l, cfg_argument = 0, cfg_stack_memory = dl_producer_stack l,
     cfg_stack_size_words = FR_RELEASE_DEMO_TASK_STACK_WORDS, cfg_priority = FR_RELEASE_DEMO_PRODUCER_PRIORITY\<rparr>"

definition consumer_config :: "demo_links \<Rightarrow> fr_task_config" where
  "consumer_config l = \<lparr>cfg_entry = dl_consumer_entry l, cfg_argument = 0, cfg_stack_memory = dl_consumer_stack l,
     cfg_stack_size_words = FR_RELEASE_DEMO_TASK_STACK_WORDS, cfg_priority = FR_RELEASE_DEMO_CONSUMER_PRIORITY\<rparr>"

definition demo_task_ids :: "kernel \<Rightarrow> demo \<Rightarrow> (bool \<times> demo) outcome" where
  "demo_task_ids s d = (case fr_task_get_info (g_fr_release_demo_producer_task d) True s of
     (None, s) \<Rightarrow> Ret (False, task_create_error d) s
   | (Some info, s) \<Rightarrow>
       let d = upd_status (\<lambda>t. t\<lparr>ds_producer_task_id := ti_id info\<rparr>) d
       in (case fr_task_get_info (g_fr_release_demo_consumer_task d) True s of
             (None, s) \<Rightarrow> Ret (False, task_create_error d) s
           | (Some info, s) \<Rightarrow> Ret (True, upd_status (\<lambda>t. t\<lparr>ds_consumer_task_id := ti_id info\<rparr>) d) s))"

definition fr_release_demo_create_tasks :: "kernel \<Rightarrow> demo \<Rightarrow> (bool \<times> demo) outcome" where
  "fr_release_demo_create_tasks s d =
     (if \<not> ds_initialized (g_fr_release_demo_status d) then Ret (False, task_create_error d) s
      else and_then (fr_task_create True (Some (producer_config (dlinks d))) s) (\<lambda>(r, h) s.
        let d = d\<lparr>g_fr_release_demo_producer_task := stored_handle h s (g_fr_release_demo_producer_task d)\<rparr>
        in if r \<noteq> TASK_OK then Ret (False, task_create_error d) s
           else and_then (fr_task_create True (Some (consumer_config (dlinks d))) s) (\<lambda>(r, h) s.
             let d = d\<lparr>g_fr_release_demo_consumer_task := stored_handle h s (g_fr_release_demo_consumer_task d)\<rparr>
             in if r \<noteq> TASK_OK then Ret (False, task_create_error d) s else demo_task_ids s d)))"

definition fr_release_demo_get_status :: "bool \<Rightarrow> kernel \<Rightarrow> demo \<Rightarrow> fr_release_demo_status option \<times> kernel" where
  "fr_release_demo_get_status out_valid s d =
     (if \<not> out_valid then (None, s)
      else let (state, s) = fr_critical_enter s; out = g_fr_release_demo_status d
           in (Some out, fr_critical_exit state s))"

end
