(* ===== verification/Uart.thy ===== *)
theory Uart
  imports Peripherals
begin

text \<open>
  The USART2 driver (\<open>bsp/stm32f446re/uart.c\<close>). Configuration registers are memory-mapped words; the
  status and data registers have read and write effects that belong to the peripheral, so the device is
  a parameter: its state type and the functions that read SR and DR and write DR (\<open>usart_io\<close>). What the
  driver relies on is the predicate \<open>usart_law\<close>, the documented behaviour of the transmitter.

  The polling loops may wait forever on a device that never becomes ready: they are partial functions,
  whose result \<open>None\<close> means that the call does not return.
\<close>


section \<open>Registers\<close>

definition FR_RCC_APB1ENR :: u32 where [simp]: "FR_RCC_APB1ENR = 0x40023840"
definition FR_GPIOA_OTYPER :: u32 where [simp]: "FR_GPIOA_OTYPER = 0x40020004"
definition FR_GPIOA_OSPEEDR :: u32 where [simp]: "FR_GPIOA_OSPEEDR = 0x40020008"
definition FR_GPIOA_PUPDR :: u32 where [simp]: "FR_GPIOA_PUPDR = 0x4002000C"
definition FR_GPIOA_AFRL :: u32 where [simp]: "FR_GPIOA_AFRL = 0x40020020"
definition FR_USART2_BRR :: u32 where [simp]: "FR_USART2_BRR = 0x40004408"
definition FR_USART2_CR1 :: u32 where [simp]: "FR_USART2_CR1 = 0x4000440C"
definition FR_USART2_CR2 :: u32 where [simp]: "FR_USART2_CR2 = 0x40004410"
definition FR_USART2_CR3 :: u32 where [simp]: "FR_USART2_CR3 = 0x40004414"

definition FR_RCC_APB1ENR_USART2EN :: u32 where "FR_RCC_APB1ENR_USART2EN = push_bit 17 1"
definition FR_GPIO_MODE_AF :: u32 where "FR_GPIO_MODE_AF = 2"
definition FR_GPIO_SPEED_HIGH :: u32 where "FR_GPIO_SPEED_HIGH = 2"
definition FR_GPIO_PULL_NONE :: u32 where "FR_GPIO_PULL_NONE = 0"
definition FR_GPIO_PULL_UP :: u32 where "FR_GPIO_PULL_UP = 1"
definition FR_GPIO_AF_USART2 :: u32 where "FR_GPIO_AF_USART2 = 7"

definition FR_USART_SR_PE :: u32 where "FR_USART_SR_PE = push_bit 0 1"
definition FR_USART_SR_FE :: u32 where "FR_USART_SR_FE = push_bit 1 1"
definition FR_USART_SR_NE :: u32 where "FR_USART_SR_NE = push_bit 2 1"
definition FR_USART_SR_ORE :: u32 where "FR_USART_SR_ORE = push_bit 3 1"
definition FR_USART_SR_RXNE :: u32 where "FR_USART_SR_RXNE = push_bit 5 1"
definition FR_USART_SR_TC :: u32 where "FR_USART_SR_TC = push_bit 6 1"
definition FR_USART_SR_TXE :: u32 where "FR_USART_SR_TXE = push_bit 7 1"
definition FR_USART_CR1_RE :: u32 where "FR_USART_CR1_RE = push_bit 2 1"
definition FR_USART_CR1_TE :: u32 where "FR_USART_CR1_TE = push_bit 3 1"
definition FR_USART_CR1_UE :: u32 where "FR_USART_CR1_UE = push_bit 13 1"

definition FR_USART_ERROR_MASK :: u32 where
  "FR_USART_ERROR_MASK = FR_USART_SR_PE OR FR_USART_SR_FE OR FR_USART_SR_NE OR FR_USART_SR_ORE"


section \<open>State\<close>

record 'd usart_io =
  read_sr :: "'d \<Rightarrow> u32 \<times> 'd"
  read_dr :: "'d \<Rightarrow> u32 \<times> 'd"
  write_dr :: "u32 \<Rightarrow> 'd \<Rightarrow> 'd"

record 'd uart =
  g_fr_uart_initialized :: bool
  g_fr_uart_peripheral_clock_hz :: u32
  g_fr_uart_baud_rate :: u32
  g_fr_uart_baud_divisor :: u32
  g_fr_uart_tx_bytes :: u32
  g_fr_uart_rx_bytes :: u32
  g_fr_uart_rx_error_count :: u32
  uart_mmio :: mmio
  usart2 :: 'd

record fr_uart_status =
  us_peripheral_clock_hz :: u32
  us_baud_rate :: u32
  us_baud_divisor :: u32
  us_tx_bytes :: u32
  us_rx_bytes :: u32
  us_rx_error_count :: u32
  us_initialized :: bool
  us_tx_ready :: bool
  us_rx_ready :: bool


section \<open>Operations\<close>

definition fr_uart_thread_context_allowed :: "kernel \<Rightarrow> bool" where
  "fr_uart_thread_context_allowed s \<longleftrightarrow>
     cpu_ipsr (cpu s) = 0 \<and> cpu_primask (cpu s) AND 1 = 0 \<and> cpu_faultmask (cpu s) AND 1 = 0 \<and> cpu_basepri (cpu s) = 0"

definition fr_uart_calculate_brr :: "u32 \<Rightarrow> u32 \<Rightarrow> u32" where
  "fr_uart_calculate_brr peripheral_clock_hz baud_rate =
     (if peripheral_clock_hz = 0 \<or> baud_rate = 0 then 0
      else let rounding = baud_rate div 2
           in if peripheral_clock_hz > UINT32_MAX - rounding then 0
              else let divisor = (peripheral_clock_hz + rounding) div baud_rate
                   in if divisor < 16 \<or> divisor > 0xFFFF then 0 else divisor)"

text \<open>Replace the bits of \<open>old\<close> by \<open>new\<close> in a register, as the source does for each GPIO field pair.\<close>

definition reg_field :: "u32 \<Rightarrow> u32 \<Rightarrow> u32 \<Rightarrow> mmio \<Rightarrow> mmio" where
  "reg_field a old new m = m(a := (m a AND NOT old) OR new)"

definition uart_pins :: "mmio \<Rightarrow> mmio" where
  "uart_pins m =
     (let m = m(RCC_AHB1ENR := m RCC_AHB1ENR OR RCC_AHB1ENR_GPIOAEN);
          m = m(FR_RCC_APB1ENR := m FR_RCC_APB1ENR OR FR_RCC_APB1ENR_USART2EN);
          m = reg_field GPIOA_MODER (push_bit 4 3 OR push_bit 6 3)
                (push_bit 4 FR_GPIO_MODE_AF OR push_bit 6 FR_GPIO_MODE_AF) m;
          m = m(FR_GPIOA_OTYPER := m FR_GPIOA_OTYPER AND NOT (push_bit 2 1 OR push_bit 3 1));
          m = reg_field FR_GPIOA_OSPEEDR (push_bit 4 3 OR push_bit 6 3)
                (push_bit 4 FR_GPIO_SPEED_HIGH OR push_bit 6 FR_GPIO_SPEED_HIGH) m;
          m = reg_field FR_GPIOA_PUPDR (push_bit 4 3 OR push_bit 6 3)
                (push_bit 4 FR_GPIO_PULL_NONE OR push_bit 6 FR_GPIO_PULL_UP) m
      in reg_field FR_GPIOA_AFRL (push_bit 8 0xF OR push_bit 12 0xF)
           (push_bit 8 FR_GPIO_AF_USART2 OR push_bit 12 FR_GPIO_AF_USART2) m)"

definition fr_uart_init :: "'d usart_io \<Rightarrow> u32 \<Rightarrow> u32 \<Rightarrow> 'd uart \<Rightarrow> bool \<times> 'd uart" where
  "fr_uart_init io peripheral_clock_hz baud_rate u =
     (if g_fr_uart_initialized u then (False, u)
      else let baud_divisor = fr_uart_calculate_brr peripheral_clock_hz baud_rate
           in if baud_divisor = 0 then (False, u)
              else let m = uart_pins (uart_mmio u);
                       m = m(FR_USART2_CR1 := 0);
                       m = m(FR_USART2_CR2 := 0);
                       m = m(FR_USART2_CR3 := 0);
                       m = m(FR_USART2_BRR := baud_divisor);
                       (stale_status, d) = read_sr io (usart2 u);
                       (stale_data, d) = read_dr io d;
                       m = m(FR_USART2_CR1 := FR_USART_CR1_RE OR FR_USART_CR1_TE OR FR_USART_CR1_UE)
                   in (True, u\<lparr>uart_mmio := m, usart2 := d, g_fr_uart_peripheral_clock_hz := peripheral_clock_hz,
                         g_fr_uart_baud_rate := baud_rate, g_fr_uart_baud_divisor := baud_divisor,
                         g_fr_uart_tx_bytes := 0, g_fr_uart_rx_bytes := 0, g_fr_uart_rx_error_count := 0,
                         g_fr_uart_initialized := True\<rparr>))"

text \<open>The busy-wait \<open>while ((FR_USART2_SR & mask) == 0u)\<close>.\<close>

partial_function (option) poll_sr :: "'d usart_io \<Rightarrow> u32 \<Rightarrow> 'd \<Rightarrow> 'd option" where
  "poll_sr io bits d = (let r = read_sr io d in if fst r AND bits = 0 then poll_sr io bits (snd r) else Some (snd r))"

text \<open>The transmit loop over the remaining bytes.\<close>

fun uart_write_loop :: "'d usart_io \<Rightarrow> u8 list \<Rightarrow> 'd uart \<Rightarrow> 'd uart option" where
  "uart_write_loop io [] u = Some u"
| "uart_write_loop io (b # bs) u =
     (case poll_sr io FR_USART_SR_TXE (usart2 u) of
        None \<Rightarrow> None
      | Some d \<Rightarrow> uart_write_loop io bs
          (u\<lparr>usart2 := write_dr io (ucast b) d, g_fr_uart_tx_bytes := g_fr_uart_tx_bytes u + 1\<rparr>))"

text \<open>\<open>data\<close> gives the byte at every offset from the pointer; \<open>None\<close> is the null pointer.\<close>

definition fr_uart_write ::
    "'d usart_io \<Rightarrow> (nat \<Rightarrow> u8) option \<Rightarrow> u32 \<Rightarrow> kernel \<Rightarrow> 'd uart \<Rightarrow> (bool \<times> 'd uart) option" where
  "fr_uart_write io data len s u =
     (case data of
        None \<Rightarrow> Some (False, u)
      | Some byte \<Rightarrow>
          if \<not> g_fr_uart_initialized u \<or> len = 0 \<or> \<not> fr_uart_thread_context_allowed s then Some (False, u)
          else case uart_write_loop io (map byte [0..<unat len]) u of
                 None \<Rightarrow> None
               | Some u \<Rightarrow> (case poll_sr io FR_USART_SR_TC (usart2 u) of
                                None \<Rightarrow> None | Some d \<Rightarrow> Some (True, u\<lparr>usart2 := d\<rparr>)))"

text \<open>The received byte is the first component; \<open>None\<close> is the result false.\<close>

definition fr_uart_try_read :: "'d usart_io \<Rightarrow> bool \<Rightarrow> kernel \<Rightarrow> 'd uart \<Rightarrow> u8 option \<times> 'd uart" where
  "fr_uart_try_read io out_valid s u =
     (if \<not> g_fr_uart_initialized u \<or> \<not> out_valid \<or> \<not> fr_uart_thread_context_allowed s then (None, u)
      else let (status, d) = read_sr io (usart2 u)
           in if status AND FR_USART_ERROR_MASK \<noteq> 0
              then let (discarded, d) = read_dr io d
                   in (None, u\<lparr>usart2 := d, g_fr_uart_rx_error_count := g_fr_uart_rx_error_count u + 1\<rparr>)
              else if status AND FR_USART_SR_RXNE = 0 then (None, u\<lparr>usart2 := d\<rparr>)
              else let (data, d) = read_dr io d
                   in (Some (ucast data), u\<lparr>usart2 := d, g_fr_uart_rx_bytes := g_fr_uart_rx_bytes u + 1\<rparr>))"

definition fr_uart_get_status ::
    "'d usart_io \<Rightarrow> bool \<Rightarrow> kernel \<Rightarrow> 'd uart \<Rightarrow> fr_uart_status option \<times> kernel \<times> 'd uart" where
  "fr_uart_get_status io out_valid s u =
     (if \<not> out_valid then (None, s, u)
      else let (critical_state, s) = fr_critical_enter s;
               (status, d) = read_sr io (usart2 u);
               u = u\<lparr>usart2 := d\<rparr>;
               out = \<lparr>us_peripheral_clock_hz = g_fr_uart_peripheral_clock_hz u, us_baud_rate = g_fr_uart_baud_rate u,
                  us_baud_divisor = g_fr_uart_baud_divisor u, us_tx_bytes = g_fr_uart_tx_bytes u,
                  us_rx_bytes = g_fr_uart_rx_bytes u, us_rx_error_count = g_fr_uart_rx_error_count u,
                  us_initialized = g_fr_uart_initialized u, us_tx_ready = (status AND FR_USART_SR_TXE \<noteq> 0),
                  us_rx_ready = (status AND FR_USART_SR_RXNE \<noteq> 0)\<rparr>
           in (Some out, fr_critical_exit critical_state s, u))"


section \<open>The transmitter\<close>

text \<open>
  What the driver relies on, with \<open>sent\<close> the bytes given to the transmitter so far (RM0390, section 25.4.2):
  reading SR or DR sends nothing; a byte written to DR after SR showed TXE is sent; SR shows TXE and TC
  after finitely many reads.
\<close>

fun sr_reads :: "'d usart_io \<Rightarrow> nat \<Rightarrow> 'd \<Rightarrow> 'd" where
  "sr_reads io 0 d = d"
| "sr_reads io (Suc n) d = sr_reads io n (snd (read_sr io d))"

definition answers :: "'d usart_io \<Rightarrow> u32 \<Rightarrow> 'd \<Rightarrow> bool" where
  "answers io bits d \<longleftrightarrow> (\<exists>n. fst (read_sr io (sr_reads io n d)) AND bits \<noteq> 0)"

definition usart_law :: "'d usart_io \<Rightarrow> ('d \<Rightarrow> u8 list) \<Rightarrow> bool" where
  "usart_law io sent \<longleftrightarrow>
     (\<forall>d. sent (snd (read_sr io d)) = sent d) \<and> (\<forall>d. sent (snd (read_dr io d)) = sent d) \<and>
     (\<forall>d v. fst (read_sr io d) AND FR_USART_SR_TXE \<noteq> 0 \<longrightarrow> sent (write_dr io v (snd (read_sr io d))) = sent d @ [ucast v]) \<and>
     (\<forall>d. answers io FR_USART_SR_TXE d \<and> answers io FR_USART_SR_TC d)"

lemma usart_lawD:
  assumes "usart_law io sent"
  shows "sent (snd (read_sr io d)) = sent d" "sent (snd (read_dr io d)) = sent d"
    "fst (read_sr io d) AND FR_USART_SR_TXE \<noteq> 0 \<Longrightarrow> sent (write_dr io v (snd (read_sr io d))) = sent d @ [ucast v]"
    "answers io FR_USART_SR_TXE d" "answers io FR_USART_SR_TC d"
  using assms by (auto simp: usart_law_def)

lemma poll_returns:
  assumes "fst (read_sr io (sr_reads io n d)) AND bits \<noteq> 0"
  shows "\<exists>k. poll_sr io bits d = Some (snd (read_sr io (sr_reads io k d))) \<and>
    fst (read_sr io (sr_reads io k d)) AND bits \<noteq> 0"
  using assms
proof (induction n arbitrary: d)
  case 0
  then show ?case by (intro exI [of _ 0]) (simp add: poll_sr.simps Let_def)
next
  case (Suc n)
  show ?case
  proof (cases "fst (read_sr io d) AND bits = 0")
    case True
    then have "poll_sr io bits d = poll_sr io bits (snd (read_sr io d))" by (subst poll_sr.simps) (simp add: Let_def)
    then show ?thesis using Suc.IH [of "snd (read_sr io d)"] Suc.prems by (metis sr_reads.simps(2))
  next
    case False
    then show ?thesis by (intro exI [of _ 0]) (simp add: poll_sr.simps Let_def)
  qed
qed

lemma sent_sr_reads: "usart_law io sent \<Longrightarrow> sent (sr_reads io n d) = sent d"
  by (induction n arbitrary: d) (simp_all add: usart_lawD(1))

lemma poll_txe:
  assumes "usart_law io sent"
  obtains d' where "poll_sr io FR_USART_SR_TXE d = Some d'" "sent d' = sent d" "\<And>v. sent (write_dr io v d') = sent d @ [ucast v]"
proof -
  obtain n where "fst (read_sr io (sr_reads io n d)) AND FR_USART_SR_TXE \<noteq> 0"
    using usart_lawD(4) [OF assms] by (auto simp: answers_def)
  from poll_returns [OF this] obtain k where k: "poll_sr io FR_USART_SR_TXE d = Some (snd (read_sr io (sr_reads io k d)))"
    "fst (read_sr io (sr_reads io k d)) AND FR_USART_SR_TXE \<noteq> 0" by blast
  show thesis
    by (rule that [OF k(1)]) (simp_all add: usart_lawD(1) [OF assms] usart_lawD(3) [OF assms k(2)] sent_sr_reads [OF assms])
qed

lemma poll_tc:
  assumes "usart_law io sent"
  obtains d' where "poll_sr io FR_USART_SR_TC d = Some d'" "sent d' = sent d"
proof -
  obtain n where "fst (read_sr io (sr_reads io n d)) AND FR_USART_SR_TC \<noteq> 0"
    using usart_lawD(5) [OF assms] by (auto simp: answers_def)
  from poll_returns [OF this] obtain k where "poll_sr io FR_USART_SR_TC d = Some (snd (read_sr io (sr_reads io k d)))" by blast
  then show thesis using that usart_lawD(1) [OF assms] sent_sr_reads [OF assms] by metis
qed

lemma write_loop_sends:
  assumes "usart_law io sent"
  shows "\<exists>u'. uart_write_loop io bs u = Some u' \<and> sent (usart2 u') = sent (usart2 u) @ bs \<and>
    u' = u\<lparr>usart2 := usart2 u', g_fr_uart_tx_bytes := g_fr_uart_tx_bytes u + of_nat (length bs)\<rparr>"
proof (induction bs arbitrary: u)
  case Nil
  then show ?case by simp
next
  case (Cons b bs)
  obtain d' where d': "poll_sr io FR_USART_SR_TXE (usart2 u) = Some d'" "\<And>v. sent (write_dr io v d') = sent (usart2 u) @ [ucast v]"
    using poll_txe [OF assms, of "usart2 u"] by metis
  let ?u = "u\<lparr>usart2 := write_dr io (ucast b) d', g_fr_uart_tx_bytes := g_fr_uart_tx_bytes u + 1\<rparr>"
  obtain u' where u': "uart_write_loop io bs ?u = Some u'" "sent (usart2 u') = sent (usart2 ?u) @ bs"
    "u' = ?u\<lparr>usart2 := usart2 u', g_fr_uart_tx_bytes := g_fr_uart_tx_bytes ?u + of_nat (length bs)\<rparr>"
    using Cons.IH [of ?u] by blast
  have "u' = u\<lparr>usart2 := usart2 u', g_fr_uart_tx_bytes := g_fr_uart_tx_bytes u + of_nat (length (b # bs))\<rparr>"
    by (subst u'(3)) (simp add: ac_simps)
  moreover have "ucast (ucast b :: u32) = b" by (rule bit_word_eqI) (simp add: bit_simps)
  ultimately show ?case using d' u'(1,2) by simp
qed

lemma uart_write_sends:
  assumes "usart_law io sent" and "g_fr_uart_initialized u" and "len \<noteq> 0" and "thread_context_allowed s"
  shows "\<exists>d. fr_uart_write io (Some byte) len s u = Some (True, u\<lparr>usart2 := d, g_fr_uart_tx_bytes := g_fr_uart_tx_bytes u + len\<rparr>) \<and>
      sent d = sent (usart2 u) @ map byte [0..<unat len]"
proof -
  have ctx: "fr_uart_thread_context_allowed s"
    using assms(4) by (simp add: fr_uart_thread_context_allowed_def thread_context_allowed_def)
  obtain u' where u': "uart_write_loop io (map byte [0..<unat len]) u = Some u'"
    "sent (usart2 u') = sent (usart2 u) @ map byte [0..<unat len]"
    "u' = u\<lparr>usart2 := usart2 u', g_fr_uart_tx_bytes := g_fr_uart_tx_bytes u + of_nat (length (map byte [0..<unat len]))\<rparr>"
    using write_loop_sends [OF assms(1), of "map byte [0..<unat len]" u] by blast
  obtain d where d: "poll_sr io FR_USART_SR_TC (usart2 u') = Some d" "sent d = sent (usart2 u')"
    by (rule poll_tc [OF assms(1)])
  have "fr_uart_write io (Some byte) len s u = Some (True, u'\<lparr>usart2 := d\<rparr>)"
    using assms ctx u'(1) d(1) by (simp add: fr_uart_write_def)
  moreover have "u'\<lparr>usart2 := d\<rparr> = u\<lparr>usart2 := d, g_fr_uart_tx_bytes := g_fr_uart_tx_bytes u + len\<rparr>"
    by (subst u'(3)) simp
  ultimately show ?thesis using d(2) u'(2) by auto
qed



section \<open>Properties\<close>

text \<open>
  C31. Transmission is complete and terminates. On a transmitter that behaves as documented, \<open>fr_uart_write\<close>
  called from a thread on an initialised UART with at least one byte returns true, after having given
  exactly the bytes of the buffer to the transmitter, in order, and having counted them; nothing else of
  the driver's state changes. A null pointer is rejected without touching the device whatever the rest of
  the call, and so are an empty buffer, an uninitialised UART and a context with interrupts masked.
\<close>

theorem uart_write_transmits:
  assumes "usart_law io sent"
  shows "(if g_fr_uart_initialized u \<and> len \<noteq> 0 \<and> thread_context_allowed s
    then \<exists>d. fr_uart_write io (Some byte) len s u = Some (True, u\<lparr>usart2 := d, g_fr_uart_tx_bytes := g_fr_uart_tx_bytes u + len\<rparr>) \<and>
      sent d = sent (usart2 u) @ map byte [0..<unat len]
    else fr_uart_write io (Some byte) len s u = Some (False, u)) \<and>
    fr_uart_write io None len s u = Some (False, u)"
proof (cases "g_fr_uart_initialized u \<and> len \<noteq> 0 \<and> thread_context_allowed s")
  case True
  then show ?thesis using uart_write_sends [OF assms] by (auto simp: fr_uart_write_def)
next
  case False
  then show ?thesis
    by (auto simp: fr_uart_write_def fr_uart_thread_context_allowed_def thread_context_allowed_def)
qed

text \<open>A transmitter that needs two status reads per byte.\<close>

definition slow_io :: "(nat \<times> u8 list) usart_io" where
  "slow_io = \<lparr>read_sr = (\<lambda>(n, out). (if n = 0 then 0xC0 else 0, (n - 1, out))), read_dr = (\<lambda>d. (0, d)),
     write_dr = (\<lambda>v (n, out). (2, out @ [ucast v]))\<rparr>"

lemma slow_io_reads: "sr_reads slow_io n (k, out) = (k - n, out)"
  by (induction n arbitrary: k) (simp_all add: slow_io_def)

lemma slow_io_law: "usart_law slow_io snd"
proof -
  have "answers slow_io bits (k, out)" if "(0xC0 :: u32) AND bits \<noteq> 0" for bits k out
    unfolding answers_def using that by (intro exI [of _ k]) (simp add: slow_io_reads, simp add: slow_io_def)
  then have "answers slow_io FR_USART_SR_TXE d" "answers slow_io FR_USART_SR_TC d" for d
    by (cases d; simp add: FR_USART_SR_TXE_def FR_USART_SR_TC_def)+
  then show ?thesis by (auto simp: usart_law_def slow_io_def split: prod.splits if_splits)
qed

definition ready_uart :: "(nat \<times> u8 list) uart" where
  "ready_uart = \<lparr>g_fr_uart_initialized = True, g_fr_uart_peripheral_clock_hz = 16000000, g_fr_uart_baud_rate = 115200,
     g_fr_uart_baud_divisor = 139, g_fr_uart_tx_bytes = 0, g_fr_uart_rx_bytes = 0, g_fr_uart_rx_error_count = 0,
     uart_mmio = (\<lambda>_. 0), usart2 = (0, [])\<rparr>"

theorem uart_write_transmits_witness:
  "\<exists>u. fr_uart_write slow_io (Some (\<lambda>i. [79, 75] ! i)) 2 two_running ready_uart = Some (True, u) \<and> snd (usart2 u) = [79, 75]"
proof -
  have "g_fr_uart_initialized ready_uart \<and> (2 :: u32) \<noteq> 0 \<and> thread_context_allowed two_running"
    by (simp add: ready_uart_def two_running_facts)
  with uart_write_transmits [OF slow_io_law, of ready_uart 2 two_running "\<lambda>i. [79, 75] ! i"] show ?thesis
    by (auto simp: ready_uart_def upt_rec)
qed

lemma rounding_guard: "c > UINT32_MAX - b div 2 \<longleftrightarrow> unat c + unat b div 2 \<ge> 2 ^ 32"
proof -
  have "unat b < 4294967296" using unat_bound [of b] by simp
  then have b: "unat b div 2 \<le> 4294967295" by linarith
  then have "unat (UINT32_MAX - b div 2) = 4294967295 - unat b div 2"
    by (subst unat_sub) (simp_all add: word_le_nat_alt unat_div)
  then show ?thesis using b by (simp add: word_less_nat_alt) linarith
qed

lemma nearest_multiple:
  fixes c b m :: nat
  assumes "m \<le> c + b div 2" "c + b div 2 < b + m"
  shows "2 * \<bar>int c - int m\<bar> \<le> int b"
  using assms by presburger

text \<open>
  The baud-rate divisor is the nearest one. \<open>fr_uart_calculate_brr\<close> returns 0 exactly when a
  frequency is zero, the rounded sum would overflow 32 bits, or the divisor does not fit the register
  (below 16 or above 65535). Otherwise the divisor differs from the exact quotient by at most one half.
\<close>

lemma uart_divisor_nearest:
  "(let d = fr_uart_calculate_brr c b; q = (unat c + unat b div 2) div unat b
    in (d = 0) = (c = 0 \<or> b = 0 \<or> unat c + unat b div 2 \<ge> 2 ^ 32 \<or> q < 16 \<or> q > 65535) \<and>
       (d = 0 \<or> 16 \<le> unat d \<and> unat d \<le> 65535 \<and> 2 * \<bar>int (unat c) - int (unat d) * int (unat b)\<bar> \<le> int (unat b)))"
proof (cases "c = 0 \<or> b = 0 \<or> unat c + unat b div 2 \<ge> 2 ^ 32")
  case True
  then have "fr_uart_calculate_brr c b = 0" using rounding_guard [of b c] by (auto simp: fr_uart_calculate_brr_def Let_def)
  then show ?thesis using True by (auto simp: Let_def)
next
  case False
  let ?q = "(unat c + unat b div 2) div unat b"
  have nz: "c \<noteq> 0" "b \<noteq> 0" "unat c + unat b div 2 < 2 ^ 32" using False by auto
  have le: "\<not> c > UINT32_MAX - b div 2" using rounding_guard [of b c] nz(3) by simp
  have sum: "unat (c + b div 2) = unat c + unat b div 2"
    using nz(3) by (subst unat_add_lem [THEN iffD1]) (simp_all add: unat_div)
  then have dq: "unat ((c + b div 2) div b) = ?q" by (simp add: unat_div)
  have eq: "fr_uart_calculate_brr c b = (if ?q < 16 \<or> ?q > 65535 then 0 else (c + b div 2) div b)"
    using nz le by (simp add: fr_uart_calculate_brr_def Let_def word_less_nat_alt dq)
  show ?thesis
  proof (cases "?q < 16 \<or> ?q > 65535")
    case True
    then show ?thesis using eq by (auto simp: Let_def)
  next
    case in_range: False
    have d: "unat (fr_uart_calculate_brr c b) = ?q" using eq in_range dq by simp
    have nzd: "fr_uart_calculate_brr c b \<noteq> 0" using d in_range by (auto simp del: unat_eq_zero)
    have "?q * unat b \<le> unat c + unat b div 2" by simp
    moreover have "unat c + unat b div 2 < unat b + ?q * unat b"
      using nz(2) by (intro dividend_less_div_times) (simp add: unat_gt_0)
    ultimately have "2 * \<bar>int (unat c) - int ?q * int (unat b)\<bar> \<le> int (unat b)"
      unfolding of_nat_mult [symmetric] by (rule nearest_multiple)
    from this [folded d] in_range [folded d] show ?thesis using nzd in_range nz by (simp add: Let_def)
  qed
qed

end
