(* ===== verification/Monitor.thy ===== *)
theory Monitor
  imports Demo Uart
begin

text \<open>
  The UART monitor (\<open>src/monitor.c\<close>): formatting into a bounded line buffer, the five commands and the
  poll loop. A C string is a function from offsets to bytes, \<open>None\<close> the null pointer; a call that does
  not return (an unterminated string, a transmitter that never gets ready) has the result \<open>None\<close>.
  The functions run on one task between two interrupts; preemption while the monitor waits for the
  transmitter changes the kernel state but not the line or the driver.
\<close>


section \<open>State and strings\<close>

definition FR_RELEASE_MONITOR_STACK_WORDS :: u32 where [simp]: "FR_RELEASE_MONITOR_STACK_WORDS = 128"
definition FR_RELEASE_MONITOR_PRIORITY :: u8 where [simp]: "FR_RELEASE_MONITOR_PRIORITY = 1"
definition FR_RELEASE_MONITOR_POLL_TICKS :: u32 where [simp]: "FR_RELEASE_MONITOR_POLL_TICKS = 50"
definition FR_RELEASE_MONITOR_LINE_CAPACITY :: u32 where [simp]: "FR_RELEASE_MONITOR_LINE_CAPACITY = 192"
definition FR_RELEASE_MONITOR_TRACE_COUNT :: u32 where [simp]: "FR_RELEASE_MONITOR_TRACE_COUNT = 8"

type_synonym cstring = "nat \<Rightarrow> u8"
type_synonym line = "cstring \<times> u32"

record 'd release =
  rl_kernel :: kernel
  rl_uart :: "'d uart"
  rl_demo :: demo
  g_fr_fault_record :: fr_fault_record
  g_fr_release_monitor_line :: cstring
  g_fr_release_monitor_trace :: "fr_trace_entry list"
  g_fr_release_monitor_task :: u32
  rl_monitor_entry :: u32
  rl_monitor_stack :: u32

text \<open>A string literal: its characters, then zeros.\<close>

definition cstr :: "string \<Rightarrow> cstring" where
  "cstr t i = (if i < length t then of_char (t ! i) else 0)"

definition CR :: char where "CR = CHR 0x0D"
definition LF :: char where "LF = CHR 0x0A"
definition FR_VERSION_STRING :: string where "FR_VERSION_STRING = ''0.1.0''"

partial_function (option) text_length_loop :: "cstring \<Rightarrow> u32 \<Rightarrow> u32 option" where
  "text_length_loop t n = (if t (unat n) \<noteq> 0 then text_length_loop t (n + 1) else Some n)"

definition fr_release_text_length :: "cstring option \<Rightarrow> u32 option" where
  "fr_release_text_length t = (case t of None \<Rightarrow> Some 0 | Some t \<Rightarrow> text_length_loop t 0)"

definition fr_release_write_text :: "'d usart_io \<Rightarrow> cstring option \<Rightarrow> 'd release \<Rightarrow> (bool \<times> 'd release) option" where
  "fr_release_write_text io t w = (case t of
     None \<Rightarrow> Some (False, w)
   | Some t \<Rightarrow> (case fr_release_text_length (Some t) of
       None \<Rightarrow> None
     | Some n \<Rightarrow> (case fr_uart_write io (Some t) n (rl_kernel w) (rl_uart w) of
         None \<Rightarrow> None
       | Some (ok, u) \<Rightarrow> Some (ok, w\<lparr>rl_uart := u\<rparr>))))"


section \<open>The line buffer\<close>

text \<open>
  A line is the array with the value of \<open>*length\<close>. The callers pass the address of a local, so the tests
  of \<open>length\<close> for null are never taken and are left out.
\<close>

definition fr_release_line_append_char :: "u8 \<Rightarrow> line \<Rightarrow> bool \<times> line" where
  "fr_release_line_append_char v b = (case b of (l, n) \<Rightarrow>
     if n \<ge> FR_RELEASE_MONITOR_LINE_CAPACITY - 1 then (False, (l, n))
     else (True, (l(unat n := v, unat (n + 1) := 0), n + 1)))"

function append_text_loop :: "cstring \<Rightarrow> nat \<Rightarrow> line \<Rightarrow> bool \<times> line" where
  "append_text_loop t i b =
     (if t i = 0 then (True, b)
      else case fr_release_line_append_char (t i) b of
        (False, b) \<Rightarrow> (False, b)
      | (True, b) \<Rightarrow> append_text_loop t (Suc i) b)"
  by pat_completeness auto
termination
  by (relation "measure (\<lambda>(t, i, b). 192 - unat (snd b))")
    (auto simp: fr_release_line_append_char_def unat_Suc_word [of _ 191] word_less_nat_alt not_le split: prod.splits if_splits)

declare append_text_loop.simps [simp del]

definition fr_release_line_append_text :: "cstring option \<Rightarrow> line \<Rightarrow> bool \<times> line" where
  "fr_release_line_append_text t b = (case t of None \<Rightarrow> (False, b) | Some t \<Rightarrow> append_text_loop t 0 b)"

text \<open>The digits of \<open>value\<close>, least significant first; \<open>digits[digit_count]\<close> is the next element.\<close>

function digit_loop :: "u32 \<Rightarrow> u8 list \<Rightarrow> u8 list" where
  "digit_loop value digits =
     (if value \<noteq> 0 \<and> length digits < 10 then digit_loop (value div 10) (digits @ [48 + ucast (value mod 10)]) else digits)"
  by pat_completeness auto
termination by (relation "measure (\<lambda>(_, digits). 10 - length digits)") auto

declare digit_loop.simps [simp del]

fun emit_digits :: "u8 list \<Rightarrow> nat \<Rightarrow> line \<Rightarrow> bool \<times> line" where
  "emit_digits digits 0 b = (True, b)"
| "emit_digits digits (Suc digit_count) b =
     (case fr_release_line_append_char (digits ! digit_count) b of
        (False, b) \<Rightarrow> (False, b)
      | (True, b) \<Rightarrow> emit_digits digits digit_count b)"

definition fr_release_line_append_u32 :: "u32 \<Rightarrow> line \<Rightarrow> bool \<times> line" where
  "fr_release_line_append_u32 value b =
     (if value = 0 then fr_release_line_append_char (of_char CHR ''0'') b
      else let digits = digit_loop value [] in emit_digits digits (length digits) b)"

fun hex_loop :: "nat list \<Rightarrow> u32 \<Rightarrow> line \<Rightarrow> bool \<times> line" where
  "hex_loop [] value b = (True, b)"
| "hex_loop (shift # shifts) value b =
     (case fr_release_line_append_char (cstr ''0123456789ABCDEF'' (unat (drop_bit shift value AND 0xF))) b of
        (False, b) \<Rightarrow> (False, b)
      | (True, b) \<Rightarrow> hex_loop shifts value b)"

definition fr_release_line_append_hex_u32 :: "u32 \<Rightarrow> line \<Rightarrow> bool \<times> line" where
  "fr_release_line_append_hex_u32 value b =
     (case fr_release_line_append_text (Some (cstr ''0x'')) b of
        (False, b) \<Rightarrow> (False, b)
      | (True, b) \<Rightarrow> hex_loop [28, 24, 20, 16, 12, 8, 4, 0] value b)"

text \<open>A chain of appends joined by \<open>&&\<close>.\<close>

fun built :: "(line \<Rightarrow> bool \<times> line) list \<Rightarrow> line \<Rightarrow> bool \<times> line" where
  "built [] b = (True, b)"
| "built (f # fs) b = (case f b of (False, b) \<Rightarrow> (False, b) | (True, b) \<Rightarrow> built fs b)"


section \<open>Commands\<close>

fun fr_release_trace_event_name :: "fr_trace_event \<Rightarrow> string" where
  "fr_release_trace_event_name EVENT_TASK_CREATE = ''CREATE''"
| "fr_release_trace_event_name EVENT_SCHEDULER_START = ''START''"
| "fr_release_trace_event_name EVENT_TASK_BLOCK = ''BLOCK''"
| "fr_release_trace_event_name EVENT_TASK_TIMEOUT = ''TIMEOUT''"
| "fr_release_trace_event_name EVENT_TASK_UNBLOCK = ''UNBLOCK''"
| "fr_release_trace_event_name EVENT_CONTEXT_SWITCH = ''SWITCH''"
| "fr_release_trace_event_name EVENT_NONE = ''UNKNOWN''"

definition help_text :: string where
  "help_text = ''Commands: h/? help, s status, k kernel, t trace, v version'' @ [CR, LF]"

definition fr_release_emit_help :: "'d usart_io \<Rightarrow> 'd release \<Rightarrow> 'd release option" where
  "fr_release_emit_help io w = map_option snd (fr_release_write_text io (Some (cstr help_text)) w)"

definition version_text :: string where
  "version_text = ''ForgeRTOS v'' @ FR_VERSION_STRING @ [CR, LF]"

definition fr_release_emit_version :: "'d usart_io \<Rightarrow> 'd release \<Rightarrow> 'd release option" where
  "fr_release_emit_version io w = map_option snd (fr_release_write_text io (Some (cstr version_text)) w)"

text \<open>The end of \<open>fr_release_emit_status\<close> and \<open>fr_release_emit_kernel\<close>: send the line, or the error text.\<close>

definition send_line :: "'d usart_io \<Rightarrow> (line \<Rightarrow> bool \<times> line) list \<Rightarrow> string \<Rightarrow> 'd release \<Rightarrow> 'd release option" where
  "send_line io parts error w =
     (let l = (g_fr_release_monitor_line w)(0 := 0);
          (ok, (l, n)) = built parts (l, 0);
          w = w\<lparr>g_fr_release_monitor_line := l\<rparr>
      in case (if ok then fr_uart_write io (Some l) n (rl_kernel w) (rl_uart w) else Some (False, rl_uart w)) of
           None \<Rightarrow> None
         | Some (written, u) \<Rightarrow>
             let w = w\<lparr>rl_uart := u\<rparr>
             in if written then Some w else map_option snd (fr_release_write_text io (Some (cstr error)) w))"

definition status_parts :: "kernel \<Rightarrow> fr_release_demo_status \<Rightarrow> fr_trace_status \<Rightarrow> fr_uart_status \<Rightarrow> (line \<Rightarrow> bool \<times> line) list" where
  "status_parts s demo trace uart =
     [fr_release_line_append_text (Some (cstr ''STATUS tick='')), fr_release_line_append_u32 (fr_tick_now s),
      fr_release_line_append_text (Some (cstr '' tasks='')), fr_release_line_append_u32 (fr_task_count s),
      fr_release_line_append_text (Some (cstr '' sent='')), fr_release_line_append_u32 (ds_messages_sent demo),
      fr_release_line_append_text (Some (cstr '' recv='')), fr_release_line_append_u32 (ds_messages_received demo),
      fr_release_line_append_text (Some (cstr '' q='')), fr_release_line_append_u32 (ds_queue_depth demo),
      fr_release_line_append_text (Some (cstr '' latmax='')), fr_release_line_append_u32 (ds_max_latency_ticks demo),
      fr_release_line_append_text (Some (cstr '' derr='')),
      fr_release_line_append_u32 (ds_order_errors demo + ds_send_errors demo + ds_receive_errors demo + ds_task_create_errors demo),
      fr_release_line_append_text (Some (cstr '' trace='')), fr_release_line_append_u32 (ts_count trace),
      fr_release_line_append_char (of_char CHR ''/''), fr_release_line_append_u32 (ts_capacity trace),
      fr_release_line_append_text (Some (cstr '' ovw='')), fr_release_line_append_u32 (ts_overwritten_events trace),
      fr_release_line_append_text (Some (cstr '' rxerr='')), fr_release_line_append_u32 (us_rx_error_count uart),
      fr_release_line_append_text (Some (cstr [CR, LF]))]"

definition fr_release_emit_status :: "'d usart_io \<Rightarrow> 'd release \<Rightarrow> 'd release option" where
  "fr_release_emit_status io w =
     (let unavailable = (\<lambda>w. map_option snd (fr_release_write_text io (Some (cstr (''ERR status unavailable'' @ [CR, LF]))) w))
      in case fr_release_demo_get_status True (rl_kernel w) (rl_demo w) of
           (None, s) \<Rightarrow> unavailable (w\<lparr>rl_kernel := s\<rparr>)
         | (Some demo, s) \<Rightarrow>
             (case fr_trace_get_status True s of
                (None, s) \<Rightarrow> unavailable (w\<lparr>rl_kernel := s\<rparr>)
              | (Some trace, s) \<Rightarrow>
                  (case fr_uart_get_status io True s (rl_uart w) of
                     (None, s, u) \<Rightarrow> unavailable (w\<lparr>rl_kernel := s, rl_uart := u\<rparr>)
                   | (Some uart, s, u) \<Rightarrow>
                       send_line io (status_parts s demo trace uart) (''ERR status format'' @ [CR, LF])
                         (w\<lparr>rl_kernel := s, rl_uart := u\<rparr>))))"

definition kernel_parts :: "kernel \<Rightarrow> fr_kernel_invariant_report \<Rightarrow> fr_fault_record \<Rightarrow> (line \<Rightarrow> bool \<times> line) list" where
  "kernel_parts s report fault =
     [fr_release_line_append_text (Some (cstr ''KERNEL tasks='')), fr_release_line_append_u32 (kr_task_count report),
      fr_release_line_append_text (Some (cstr '' run='')), fr_release_line_append_u32 (kr_running_tasks report),
      fr_release_line_append_text (Some (cstr '' ready='')), fr_release_line_append_u32 (kr_ready_tasks report),
      fr_release_line_append_text (Some (cstr '' blocked='')), fr_release_line_append_u32 (kr_blocked_tasks report),
      fr_release_line_append_text (Some (cstr '' current='')), fr_release_line_append_u32 (kr_current_task_id report),
      fr_release_line_append_text (Some (cstr '' inv='')), fr_release_line_append_hex_u32 (kr_violation_mask report),
      fr_release_line_append_text (Some (cstr '' assert='')), fr_release_line_append_u32 (ar_count (g_fr_assert_record s)),
      fr_release_line_append_text (Some (cstr '' fault='')), fr_release_line_append_hex_u32 (fr_magic fault),
      fr_release_line_append_text (Some (cstr [CR, LF]))]"

definition fr_release_emit_kernel :: "'d usart_io \<Rightarrow> 'd release \<Rightarrow> 'd release option" where
  "fr_release_emit_kernel io w = (case fr_kernel_check_invariants True (rl_kernel w) of
     (valid, None, s) \<Rightarrow> Some (w\<lparr>rl_kernel := s\<rparr>)
   | (valid, Some report, s) \<Rightarrow>
       send_line io (kernel_parts s report (g_fr_fault_record w)) (''ERR kernel format'' @ [CR, LF]) (w\<lparr>rl_kernel := s\<rparr>))"

definition trace_parts :: "fr_trace_entry \<Rightarrow> (line \<Rightarrow> bool \<times> line) list" where
  "trace_parts e =
     [fr_release_line_append_char (of_char CHR ''#''), fr_release_line_append_u32 (te_sequence e),
      fr_release_line_append_text (Some (cstr '' t='')), fr_release_line_append_u32 (te_tick e),
      fr_release_line_append_char (of_char CHR '' ''),
      fr_release_line_append_text (Some (cstr (fr_release_trace_event_name (te_event e)))),
      fr_release_line_append_text (Some (cstr '' task='')), fr_release_line_append_u32 (te_task_id e),
      fr_release_line_append_text (Some (cstr '' a0='')), fr_release_line_append_u32 (te_arg0 e),
      fr_release_line_append_text (Some (cstr '' a1='')), fr_release_line_append_u32 (te_arg1 e),
      fr_release_line_append_text (Some (cstr [CR, LF]))]"

fun emit_trace_loop :: "'d usart_io \<Rightarrow> fr_trace_entry list \<Rightarrow> 'd release \<Rightarrow> 'd release option" where
  "emit_trace_loop io [] w = Some w"
| "emit_trace_loop io (e # es) w =
     (let l = (g_fr_release_monitor_line w)(0 := 0);
          (ok, (l, n)) = built (trace_parts e) (l, 0);
          w = w\<lparr>g_fr_release_monitor_line := l\<rparr>
      in case (if ok then fr_uart_write io (Some l) n (rl_kernel w) (rl_uart w) else Some (False, rl_uart w)) of
           None \<Rightarrow> None
         | Some (written, u) \<Rightarrow> if written then emit_trace_loop io es (w\<lparr>rl_uart := u\<rparr>) else Some (w\<lparr>rl_uart := u\<rparr>))"

definition trace_title :: string where
  "trace_title = ''TRACE newest events:'' @ [CR, LF]"

definition fr_release_emit_trace :: "'d usart_io \<Rightarrow> 'd release \<Rightarrow> 'd release option" where
  "fr_release_emit_trace io w = (case fr_trace_snapshot True FR_RELEASE_MONITOR_TRACE_COUNT (rl_kernel w) of
     (count, entries, s) \<Rightarrow>
       let w = w\<lparr>rl_kernel := s,
             g_fr_release_monitor_trace := entries @ drop (length entries) (g_fr_release_monitor_trace w)\<rparr>
       in case fr_release_write_text io (Some (cstr trace_title)) w of
            None \<Rightarrow> None
          | Some (False, w) \<Rightarrow> Some w
          | Some (True, w) \<Rightarrow> emit_trace_loop io (take (unat count) (g_fr_release_monitor_trace w)) w)"

definition unknown_text :: string where
  "unknown_text = ''ERR unknown command'' @ [CR, LF]"

definition fr_release_process_command :: "'d usart_io \<Rightarrow> u8 \<Rightarrow> 'd release \<Rightarrow> 'd release option" where
  "fr_release_process_command io command w =
     (if command = of_char CR \<or> command = of_char LF then Some w
      else if command = of_char CHR ''h'' \<or> command = of_char CHR ''?'' then fr_release_emit_help io w
      else if command = of_char CHR ''s'' then fr_release_emit_status io w
      else if command = of_char CHR ''k'' then fr_release_emit_kernel io w
      else if command = of_char CHR ''t'' then fr_release_emit_trace io w
      else if command = of_char CHR ''v'' then fr_release_emit_version io w
      else map_option snd (fr_release_write_text io (Some (cstr unknown_text)) w))"

text \<open>
  The monitor task: the banner, then for ever the drain of the receiver and a sleep of 50 ticks. The
  drain ends when nothing is received.
\<close>

definition banner_text :: string where
  "banner_text = [CR, LF] @ ''ForgeRTOS v'' @ FR_VERSION_STRING @ '' release demo @ 115200 8-N-1'' @ [CR, LF]"

definition monitor_banner :: "'d usart_io \<Rightarrow> 'd release \<Rightarrow> 'd release option" where
  "monitor_banner io w = (case fr_release_write_text io (Some (cstr banner_text)) w of
     None \<Rightarrow> None | Some (_, w) \<Rightarrow> fr_release_emit_help io w)"

partial_function (option) monitor_drain :: "'d usart_io \<Rightarrow> 'd release \<Rightarrow> 'd release option" where
  "monitor_drain io w =
     (let r = fr_uart_try_read io True (rl_kernel w) (rl_uart w);
          w = w\<lparr>rl_uart := snd r\<rparr>
      in case fst r of
           None \<Rightarrow> Some w
         | Some command \<Rightarrow> Option.bind (fr_release_process_command io command w) (monitor_drain io))"

definition monitor_sleep_failed :: "'d usart_io \<Rightarrow> 'd release \<Rightarrow> 'd release option" where
  "monitor_sleep_failed io w = map_option snd (fr_release_write_text io (Some (cstr (''ERR monitor sleep'' @ [CR, LF]))) w)"

definition monitor_config :: "'d release \<Rightarrow> fr_task_config" where
  "monitor_config w = \<lparr>cfg_entry = rl_monitor_entry w, cfg_argument = 0, cfg_stack_memory = rl_monitor_stack w,
     cfg_stack_size_words = FR_RELEASE_MONITOR_STACK_WORDS, cfg_priority = FR_RELEASE_MONITOR_PRIORITY\<rparr>"

definition fr_release_monitor_create_task :: "'d release \<Rightarrow> (bool \<times> 'd release) outcome" where
  "fr_release_monitor_create_task w =
     and_then (fr_task_create True (Some (monitor_config w)) (rl_kernel w)) (\<lambda>(r, h) s.
       Ret (r = TASK_OK, w\<lparr>rl_kernel := s, g_fr_release_monitor_task := stored_handle h s (g_fr_release_monitor_task w)\<rparr>) s)"


section \<open>What the appends write\<close>

text \<open>An append that succeeds when its bytes fit, puts them after the text of the line and keeps it terminated.\<close>

definition appends :: "(line \<Rightarrow> bool \<times> line) \<Rightarrow> u8 list \<Rightarrow> bool" where
  "appends f ys \<longleftrightarrow> (\<forall>l n. unat n + length ys \<le> 191 \<longrightarrow>
     (\<exists>l'. f (l, n) = (True, (l', n + of_nat (length ys))) \<and>
        map l' [0..<unat n + length ys] = map l [0..<unat n] @ ys \<and>
        (l (unat n) = 0 \<longrightarrow> l' (unat n + length ys) = 0)))"

lemma appendsE:
  assumes "appends f ys" and "unat n + length ys \<le> 191"
  obtains l' where "f (l, n) = (True, (l', n + of_nat (length ys)))" "unat (n + of_nat (length ys)) = unat n + length ys"
    "map l' [0..<unat n + length ys] = map l [0..<unat n] @ ys" "l (unat n) = 0 \<longrightarrow> l' (unat n + length ys) = 0"
proof -
  have "unat (n + of_nat (length ys)) = unat n + length ys"
    using assms(2) by (simp add: unat_word_ariths unat_of_nat32)
  then show thesis using assms that unfolding appends_def by blast
qed

lemma appends_char: "appends (fr_release_line_append_char v) [v]"
proof -
  have "unat n + 1 \<le> 191 \<Longrightarrow> \<not> 191 \<le> n \<and> unat (n + 1) = Suc (unat n)" for n :: u32
    using unat_Suc_word [of n 191] by (simp add: word_le_nat_alt word_less_nat_alt)
  then show ?thesis by (auto simp: appends_def fr_release_line_append_char_def)
qed

lemma appends_none: "appends (\<lambda>b. (True, b)) []"
  by (auto simp: appends_def)

text \<open>Two appends joined by \<open>&&\<close>.\<close>

definition both :: "(line \<Rightarrow> bool \<times> line) \<Rightarrow> (line \<Rightarrow> bool \<times> line) \<Rightarrow> line \<Rightarrow> bool \<times> line" where
  "both f g b = (case f b of (False, b) \<Rightarrow> (False, b) | (True, b) \<Rightarrow> g b)"

lemma appends_both:
  assumes "appends f xs" and "appends g ys"
  shows "appends (both f g) (xs @ ys)"
  unfolding appends_def
proof (intro allI impI)
  fix l and n :: u32 assume room: "unat n + length (xs @ ys) \<le> 191"
  have r1: "unat n + length xs \<le> 191" using room by simp
  obtain l1 where 1: "f (l, n) = (True, (l1, n + of_nat (length xs)))"
    "unat (n + of_nat (length xs)) = unat n + length xs" "map l1 [0..<unat n + length xs] = map l [0..<unat n] @ xs"
    "l (unat n) = 0 \<longrightarrow> l1 (unat n + length xs) = 0"
    by (rule appendsE [OF assms(1) r1, of l]) (rule that)
  have r2: "unat (n + of_nat (length xs)) + length ys \<le> 191" using room 1(2) by simp
  obtain l2 where 2:
    "g (l1, n + of_nat (length xs)) = (True, (l2, n + of_nat (length xs) + of_nat (length ys)))"
    "map l2 [0..<unat n + length xs + length ys] = map l1 [0..<unat n + length xs] @ ys"
    "l1 (unat n + length xs) = 0 \<longrightarrow> l2 (unat n + length xs + length ys) = 0"
    by (rule appendsE [OF assms(2) r2, of l1, unfolded 1(2)]) (rule that)
  show "\<exists>l'. both f g (l, n) = (True, (l', n + of_nat (length (xs @ ys)))) \<and>
      map l' [0..<unat n + length (xs @ ys)] = map l [0..<unat n] @ xs @ ys \<and>
      (l (unat n) = 0 \<longrightarrow> l' (unat n + length (xs @ ys)) = 0)"
    using 1 2 by (intro exI [of _ l2]) (simp add: both_def add.assoc)
qed

lemma built_both: "built (f # fs) = both f (built fs)" "built [] = (\<lambda>b. (True, b))"
  by (simp_all add: both_def fun_eq_iff)

lemma appends_built: "list_all2 appends fs yss \<Longrightarrow> appends (built fs) (concat yss)"
  by (induction rule: list_all2_induct) (simp_all add: built_both appends_none appends_both del: built.simps)


subsection \<open>Text\<close>

definition bytes :: "string \<Rightarrow> u8 list" where
  "bytes t = map of_char t"

definition terminated :: "string \<Rightarrow> bool" where
  "terminated t \<longleftrightarrow> CHR 0x00 \<notin> set t"

lemma of_char_zero: "(of_char c :: u8) = 0 \<longleftrightarrow> c = CHR 0x00"
proof (cases c)
  case (Char b0 b1 b2 b3 b4 b5 b6 b7)
  then show ?thesis by (cases b0; cases b1; cases b2; cases b3; cases b4; cases b5; cases b6; cases b7) simp_all
qed

lemma append_text_step: "append_text_loop t i b =
    (if t i = 0 then (True, b) else both (fr_release_line_append_char (t i)) (append_text_loop t (Suc i)) b)"
  by (subst append_text_loop.simps) (simp add: both_def)

lemma append_text_from:
  assumes "terminated t" and "i \<le> length t"
  shows "appends (append_text_loop (cstr t) i) (drop i (bytes t))"
  using assms(2)
proof (induction "length t - i" arbitrary: i)
  case 0
  then have "cstr t i = 0" by (simp add: cstr_def)
  then have "append_text_loop (cstr t) i = (\<lambda>b. (True, b))" by (intro ext, subst append_text_step) simp
  then show ?case using 0 appends_none by (simp add: bytes_def)
next
  case (Suc k)
  then have i: "i < length t" by simp
  then have nz: "cstr t i = of_char (t ! i)" "cstr t i \<noteq> 0" using assms(1) by (auto simp: cstr_def of_char_zero terminated_def in_set_conv_nth)
  then have "append_text_loop (cstr t) i = both (fr_release_line_append_char (of_char (t ! i))) (append_text_loop (cstr t) (Suc i))"
    using nz by (intro ext, subst append_text_step) simp
  moreover have "drop i (bytes t) = [of_char (t ! i)] @ drop (Suc i) (bytes t)"
    using i by (simp add: bytes_def Cons_nth_drop_Suc [symmetric])
  ultimately show ?case using appends_both [OF appends_char Suc.hyps(1)] Suc.hyps(2) i by simp
qed

lemma append_text_Some: "fr_release_line_append_text (Some t) = append_text_loop t 0"
  by (simp add: fr_release_line_append_text_def fun_eq_iff)

lemma appends_text: "terminated t \<Longrightarrow> appends (fr_release_line_append_text (Some (cstr t))) (bytes t)"
  using append_text_from [of t 0] by (simp add: append_text_Some)

lemma text_length_from:
  assumes "terminated t" and "length t < 4294967296" and "i \<le> length t"
  shows "text_length_loop (cstr t) (of_nat i) = Some (of_nat (length t))"
  using assms(3)
proof (induction "length t - i" arbitrary: i)
  case 0
  then show ?case using assms(2) by (subst text_length_loop.simps) (simp add: cstr_def unat_of_nat32)
next
  case (Suc k)
  then have i: "i < length t" by simp
  then have "cstr t i \<noteq> 0" using assms(1) by (auto simp: cstr_def of_char_zero terminated_def in_set_conv_nth)
  then show ?case
    using Suc.hyps(1) [of "Suc i"] Suc.hyps(2) i assms(2)
    by (subst text_length_loop.simps) (simp add: unat_of_nat32 add.commute)
qed

lemma text_length: "terminated t \<Longrightarrow> length t < 4294967296 \<Longrightarrow> fr_release_text_length (Some (cstr t)) = Some (of_nat (length t))"
  using text_length_from [of t 0] by (simp add: fr_release_text_length_def)

lemma cstr_bytes: "map (cstr t) [0..<length t] = bytes t"
  by (auto simp: bytes_def cstr_def intro: nth_equalityI)


subsection \<open>Numbers\<close>

fun dec :: "nat \<Rightarrow> u8 list" where
  "dec n = (if n < 10 then [48 + of_nat n] else dec (n div 10) @ [48 + of_nat (n mod 10)])"

declare dec.simps [simp del]

lemma dec_length: "n < 10 ^ k \<Longrightarrow> 0 < k \<Longrightarrow> length (dec n) \<le> k"
proof (induction k arbitrary: n)
  case (Suc k)
  show ?case
  proof (cases "n < 10")
    case False
    then have "0 < k" using Suc.prems by (cases k) auto
    then show ?thesis using Suc.IH [of "n div 10"] Suc.prems(1) False by (subst dec.simps) simp
  qed (simp add: dec.simps)
qed simp

lemma dec_u32: "length (dec (unat (v :: u32))) \<le> 10"
  by (rule dec_length, rule less_trans [OF unat_lt_u32]) simp_all

lemma digit_loop_dec:
  "length digits + length (dec (unat v)) \<le> 10 \<Longrightarrow> v \<noteq> 0 \<Longrightarrow> digit_loop v digits = digits @ rev (dec (unat v))"
proof (induction v digits rule: digit_loop.induct)
  case (1 v digits)
  have "unat (v mod 10) = unat v mod 10" by (simp add: unat_mod)
  then have d: "ucast (v mod 10) = (of_nat (unat v mod 10) :: u8)" by (metis of_nat_unat)
  have room: "length digits < 10" using 1(2) by (subst (asm) dec.simps) (auto split: if_splits)
  show ?case
  proof (cases "unat v < 10")
    case True
    then have "v div 10 = 0" by (simp add: word_unat_eq_iff unat_div)
    moreover have "dec (unat v) = [48 + of_nat (unat v mod 10)]" using True by (simp add: dec.simps)
    ultimately show ?thesis
      using 1(3) room d by (subst digit_loop.simps, subst digit_loop.simps) simp
  next
    case False
    then have nz: "v div 10 \<noteq> 0" by (simp add: word_unat_eq_iff unat_div)
    have dec: "dec (unat v) = dec (unat (v div 10)) @ [48 + of_nat (unat v mod 10)]"
      using False by (subst dec.simps) (simp add: unat_div)
    then have le: "length (digits @ [48 + ucast (v mod 10)]) + length (dec (unat (v div 10))) \<le> 10" using 1(2) by simp
    show ?thesis
      using 1(1) [OF _ le nz] 1(3) room dec d by (subst digit_loop.simps) simp
  qed
qed

lemma appends_digits: "n \<le> length digits \<Longrightarrow> appends (emit_digits digits n) (rev (take n digits))"
proof (induction n)
  case 0
  have "emit_digits digits 0 = (\<lambda>b. (True, b))" by (simp add: fun_eq_iff)
  then show ?case using appends_none by simp
next
  case (Suc n)
  have "emit_digits digits (Suc n) = both (fr_release_line_append_char (digits ! n)) (emit_digits digits n)"
    by (simp add: both_def fun_eq_iff)
  then show ?case using appends_both [OF appends_char Suc.IH] Suc.prems by (simp add: take_Suc_conv_app_nth)
qed

lemma appends_u32: "appends (fr_release_line_append_u32 v) (dec (unat v))"
proof (cases "v = 0")
  case True
  then have "fr_release_line_append_u32 v = fr_release_line_append_char 48"
    by (simp add: fr_release_line_append_u32_def fun_eq_iff)
  then show ?thesis using True appends_char by (simp add: dec.simps)
next
  case False
  then have "digit_loop v [] = rev (dec (unat v))" using digit_loop_dec [of "[]" v] dec_u32 by simp
  then have "fr_release_line_append_u32 v = emit_digits (rev (dec (unat v))) (length (rev (dec (unat v))))"
    using False by (simp add: fr_release_line_append_u32_def fun_eq_iff Let_def)
  then show ?thesis using appends_digits [of "length (dec (unat v))" "rev (dec (unat v))"] by simp
qed

definition hex :: "u32 \<Rightarrow> u8 list" where
  "hex v = map (\<lambda>shift. cstr ''0123456789ABCDEF'' (unat (drop_bit shift v AND 0xF))) [28, 24, 20, 16, 12, 8, 4, 0]"

lemma appends_hex_loop:
  "appends (hex_loop shifts v) (map (\<lambda>shift. cstr ''0123456789ABCDEF'' (unat (drop_bit shift v AND 0xF))) shifts)"
proof (induction shifts)
  case Nil
  have "hex_loop [] v = (\<lambda>b. (True, b))" by (simp add: fun_eq_iff)
  then show ?case using appends_none by simp
next
  case (Cons s shifts)
  have "hex_loop (s # shifts) v =
      both (fr_release_line_append_char (cstr ''0123456789ABCDEF'' (unat (drop_bit s v AND 0xF)))) (hex_loop shifts v)"
    by (simp add: both_def fun_eq_iff)
  then show ?case using appends_both [OF appends_char Cons.IH] by simp
qed

lemma appends_hex: "appends (fr_release_line_append_hex_u32 v) (bytes ''0x'' @ hex v)"
proof -
  have "fr_release_line_append_hex_u32 v = both (fr_release_line_append_text (Some (cstr ''0x''))) (hex_loop [28, 24, 20, 16, 12, 8, 4, 0] v)"
    by (simp add: fr_release_line_append_hex_u32_def both_def fun_eq_iff)
  moreover have "terminated ''0x''" by (simp add: terminated_def)
  ultimately show ?thesis unfolding hex_def using appends_both [OF appends_text appends_hex_loop] by metis
qed


subsection \<open>Reading numbers back\<close>

definition parse_dec :: "u8 list \<Rightarrow> nat" where
  "parse_dec ds = foldl (\<lambda>n d. 10 * n + (unat d - 48)) 0 ds"

definition hex_value :: "u8 \<Rightarrow> nat" where
  "hex_value d = (if d \<le> 57 then unat d - 48 else unat d - 55)"

definition parse_hex :: "u8 list \<Rightarrow> nat" where
  "parse_hex ds = foldl (\<lambda>n d. 16 * n + hex_value d) 0 ds"

lemma digit_char: "n < 10 \<Longrightarrow> unat (48 + of_nat n :: u8) = 48 + n"
  by (simp add: unat_word_ariths unat_of_nat take_bit_nat_def)

lemma parse_dec_dec: "parse_dec (dec n) = n"
proof (induction n rule: dec.induct)
  case (1 n)
  then show ?case by (subst dec.simps) (simp add: parse_dec_def digit_char)
qed

lemma dec_digits: "d \<in> set (dec n) \<Longrightarrow> 48 \<le> d \<and> d \<le> 57"
proof (induction n arbitrary: d rule: dec.induct)
  case (1 n)
  have r: "48 \<le> (48 + of_nat k :: u8) \<and> 48 + of_nat k \<le> (57 :: u8)" if "k < 10" for k
    using digit_char [OF that] that by (simp add: word_le_nat_alt)
  show ?case
  proof (cases "n < 10")
    case True
    then show ?thesis using 1(2) r [of n] by (subst (asm) dec.simps) simp
  next
    case False
    then show ?thesis using 1 r [of "n mod 10"] by (subst (asm) (2) dec.simps) auto
  qed
qed

lemma dec_first: "dec n \<noteq> [] \<and> (hd (dec n) = 48 \<longleftrightarrow> n = 0)"
proof (induction n rule: dec.induct)
  case (1 n)
  have "(48 + of_nat n :: u8) = 48 \<longleftrightarrow> n = 0" if "n < 10"
    using digit_char [OF that] by (auto simp: word_unat_eq_iff)
  then show ?case using 1 by (subst (1 2) dec.simps) auto
qed

lemma hex_digit_value: "k < 16 \<Longrightarrow> hex_value (cstr ''0123456789ABCDEF'' k) = k"
proof -
  assume "k < 16"
  then have "k \<in> set [0..<16]" by simp
  moreover have "list_all (\<lambda>k. hex_value (cstr ''0123456789ABCDEF'' k) = k) [0..<16]"
    by (simp add: upt_rec cstr_def hex_value_def)
  ultimately show ?thesis by (simp only: list_all_iff)
qed

lemma nibble: "unat (drop_bit s v AND 0xF :: u32) = unat v div 2 ^ s mod 16"
proof -
  have m: "(0xF :: u32) = mask 4" by (simp add: mask_eq_exp_minus_1)
  have "unat (drop_bit s v AND 0xF) = take_bit 4 (unat (drop_bit s v))"
    unfolding m take_bit_eq_mask [symmetric] by (simp add: unsigned_take_bit_eq)
  then show ?thesis by (simp add: take_bit_nat_def unat_drop_bit_eq drop_bit_nat_def)
qed

lemma parse_hex_hex: "parse_hex (hex v) = unat v"
proof -
  define x where "x = unat v"
  have lt: "x < 4294967296" by (simp add: x_def)
  have d: "hex_value (cstr ''0123456789ABCDEF'' (unat (drop_bit s v AND 0xF))) = x div 2 ^ s mod 16" for s
    unfolding nibble x_def by (rule hex_digit_value) simp
  have "parse_hex (hex v) = foldl (\<lambda>n s. 16 * n + x div 2 ^ s mod 16) 0 [28, 24, 20, 16, 12, 8, 4, 0]"
    unfolding parse_hex_def hex_def foldl_map d ..
  also have "\<dots> = x"
  proof -
    have h: "16 * (x div (16 * m)) + x div m mod 16 = x div m" for m
      by (metis div_mult2_eq mult.commute mult_div_mod_eq)
    have "x div 268435456 mod 16 = x div 268435456" using lt by simp
    then show ?thesis
      using h [of 16777216] h [of 1048576] h [of 65536] h [of 4096] h [of 256] h [of 16] h [of 1] by simp
  qed
  finally show ?thesis by (simp add: x_def)
qed

text \<open>
  C30. Numbers can be read back. A decimal number is printed with 1 to 10 digits, without leading zeros,
  and a hexadecimal one as \<open>0x\<close> and eight digits; reading the digits back gives the number, for every
  32-bit value. The digits are appended to the text of the line whenever they fit.
\<close>

theorem monitor_numbers_read_back:
  "(\<exists>ds. appends (fr_release_line_append_u32 v) ds \<and> 1 \<le> length ds \<and> length ds \<le> 10 \<and>
      list_all (\<lambda>d. 48 \<le> d \<and> d \<le> 57) ds \<and> (hd ds = 48) = (v = 0) \<and> parse_dec ds = unat v) \<and>
   (\<exists>hs. appends (fr_release_line_append_hex_u32 v) (bytes ''0x'' @ hs) \<and> length hs = 8 \<and> parse_hex hs = unat v)"
proof
  have "1 \<le> length (dec (unat v))" using dec_first [of "unat v"] by (cases "dec (unat v)") auto
  moreover have "(hd (dec (unat v)) = 48) = (v = 0)" using dec_first [of "unat v"] by (simp add: unat_eq_zero)
  ultimately show "\<exists>ds. appends (fr_release_line_append_u32 v) ds \<and> 1 \<le> length ds \<and> length ds \<le> 10 \<and>
      list_all (\<lambda>d. 48 \<le> d \<and> d \<le> 57) ds \<and> (hd ds = 48) = (v = 0) \<and> parse_dec ds = unat v"
    using appends_u32 [of v] dec_u32 [of v] dec_digits parse_dec_dec by (auto simp: list_all_iff)
  have "length (hex v) = 8" by (simp add: hex_def)
  then show "\<exists>hs. appends (fr_release_line_append_hex_u32 v) (bytes ''0x'' @ hs) \<and> length hs = 8 \<and> parse_hex hs = unat v"
    using appends_hex [of v] parse_hex_hex [of v] by blast
qed


section \<open>The line is never overrun\<close>

text \<open>From any length in range an append writes inside the array and leaves the length in range.\<close>

definition stays_inside :: "(line \<Rightarrow> bool \<times> line) \<Rightarrow> bool" where
  "stays_inside f \<longleftrightarrow> (\<forall>l n. unat n \<le> 191 \<longrightarrow>
     (case f (l, n) of (_, (l', n')) \<Rightarrow> n \<le> n' \<and> unat n' \<le> 191 \<and> (\<forall>i. i \<ge> 192 \<longrightarrow> l' i = l i)))"

lemma inside_char: "stays_inside (fr_release_line_append_char v)"
proof -
  have "\<not> 191 \<le> n \<Longrightarrow> unat (n + 1) = Suc (unat n) \<and> Suc (unat n) \<le> 191" for n :: u32
    using unat_Suc_word [of n 191] by (simp add: word_le_nat_alt word_less_nat_alt)
  then show ?thesis by (auto simp: stays_inside_def fr_release_line_append_char_def word_le_nat_alt)
qed

lemma inside_none: "stays_inside (\<lambda>b. (True, b))"
  by (simp add: stays_inside_def)

lemma insideD:
  assumes "stays_inside f" and "unat n \<le> 191" and "f (l, n) = (ok, (l', n'))"
  shows "n \<le> n'" "unat n' \<le> 191" "i \<ge> 192 \<Longrightarrow> l' i = l i"
proof -
  have "case f (l, n) of (_, (l', n')) \<Rightarrow> n \<le> n' \<and> unat n' \<le> 191 \<and> (\<forall>i. i \<ge> 192 \<longrightarrow> l' i = l i)"
    by (rule assms(1) [unfolded stays_inside_def, THEN spec [of _ l], THEN spec [of _ n], THEN mp, OF assms(2)])
  then show "n \<le> n'" "unat n' \<le> 191" "i \<ge> 192 \<Longrightarrow> l' i = l i" using assms(3) by simp_all
qed

lemma inside_both:
  assumes "stays_inside f" and "stays_inside g"
  shows "stays_inside (both f g)"
  unfolding stays_inside_def
proof (intro allI impI)
  fix l and n :: u32 assume n: "unat n \<le> 191"
  obtain ok1 l1 n1 where 1: "f (l, n) = (ok1, (l1, n1))" by (metis prod_cases3)
  obtain ok2 l2 n2 where 2: "g (l1, n1) = (ok2, (l2, n2))" by (metis prod_cases3)
  note i1 = insideD [OF assms(1) n 1] and i2 = insideD [OF assms(2) insideD(2) [OF assms(1) n 1] 2]
  show "case both f g (l, n) of (_, l', n') \<Rightarrow> n \<le> n' \<and> unat n' \<le> 191 \<and> (\<forall>i. i \<ge> 192 \<longrightarrow> l' i = l i)"
    using i1 i2 1 2 by (cases ok1) (auto simp: both_def)
qed

lemma inside_text: "stays_inside (append_text_loop t i)"
proof -
  have "unat n \<le> 191 \<Longrightarrow> case append_text_loop t i (l, n) of (_, (l', n')) \<Rightarrow> n \<le> n' \<and> unat n' \<le> 191 \<and> (\<forall>i. i \<ge> 192 \<longrightarrow> l' i = l i)"
    for l n
  proof (induction t i "(l, n)" arbitrary: l n rule: append_text_loop.induct)
    case (1 t i l n)
    obtain ok l1 n1 where c: "fr_release_line_append_char (t i) (l, n) = (ok, (l1, n1))" by (metis prod_cases3)
    note i1 = insideD [OF inside_char 1(2) c]
    show ?case
    proof (cases "t i \<noteq> 0 \<and> ok")
      case True
      then show ?thesis
        using 1(1) [OF _ c [symmetric]] c i1 by (subst append_text_step) (auto simp: both_def split: prod.splits)
    next
      case False
      then show ?thesis using c i1 1(2) by (subst append_text_step) (auto simp: both_def)
    qed
  qed
  then show ?thesis by (simp add: stays_inside_def)
qed

lemma inside_digits: "stays_inside (emit_digits ds n)"
proof (induction n)
  case 0
  have "emit_digits ds 0 = (\<lambda>b. (True, b))" by (simp add: fun_eq_iff)
  then show ?case using inside_none by simp
next
  case (Suc n)
  have "emit_digits ds (Suc n) = both (fr_release_line_append_char (ds ! n)) (emit_digits ds n)"
    by (simp add: both_def fun_eq_iff)
  then show ?case using inside_both [OF inside_char Suc.IH] by simp
qed

lemma inside_u32: "stays_inside (fr_release_line_append_u32 v)"
proof (cases "v = 0")
  case True
  then have "fr_release_line_append_u32 v = fr_release_line_append_char 48"
    by (simp add: fr_release_line_append_u32_def fun_eq_iff)
  then show ?thesis using inside_char by simp
next
  case False
  then have "fr_release_line_append_u32 v = emit_digits (digit_loop v []) (length (digit_loop v []))"
    by (simp add: fr_release_line_append_u32_def fun_eq_iff Let_def)
  then show ?thesis using inside_digits by simp
qed

lemma inside_hex_loop: "stays_inside (hex_loop shifts v)"
proof (induction shifts)
  case Nil
  have "hex_loop [] v = (\<lambda>b. (True, b))" by (simp add: fun_eq_iff)
  then show ?case using inside_none by simp
next
  case (Cons s shifts)
  have "hex_loop (s # shifts) v =
      both (fr_release_line_append_char (cstr ''0123456789ABCDEF'' (unat (drop_bit s v AND 0xF)))) (hex_loop shifts v)"
    by (simp add: both_def fun_eq_iff)
  then show ?case using inside_both [OF inside_char Cons.IH] by simp
qed

text \<open>
  C29. The line buffer is never overrun. From any length up to 191, every append function, for every
  character, number and text, even one that is null or not terminated, returns after finitely many steps,
  writes inside the 192 bytes of the buffer only, and leaves the length at most 191, so that the
  terminating zero has a place.
\<close>

theorem monitor_line_never_overrun:
  "stays_inside (fr_release_line_append_char c) \<and> stays_inside (fr_release_line_append_text t) \<and>
   stays_inside (fr_release_line_append_u32 v) \<and> stays_inside (fr_release_line_append_hex_u32 v)"
proof -
  have "fr_release_line_append_hex_u32 v = both (fr_release_line_append_text (Some (cstr ''0x''))) (hex_loop [28, 24, 20, 16, 12, 8, 4, 0] v)"
    by (simp add: fr_release_line_append_hex_u32_def both_def fun_eq_iff)
  moreover have tx: "stays_inside (fr_release_line_append_text t)" for t
  proof (cases t)
    case None
    then show ?thesis by (simp add: stays_inside_def fr_release_line_append_text_def)
  next
    case (Some u)
    then show ?thesis using inside_text by (simp add: append_text_Some)
  qed
  ultimately show ?thesis using tx inside_char inside_u32 inside_both [OF tx inside_hex_loop] by simp
qed


section \<open>Responses\<close>

text \<open>What the monitor must send, from the state it reports on.\<close>

definition number :: "u32 \<Rightarrow> u8 list" where
  "number v = dec (unat v)"

definition status_line :: "kernel \<Rightarrow> fr_release_demo_status \<Rightarrow> u32 \<Rightarrow> u8 list" where
  "status_line s d rx_errors = concat
     [bytes ''STATUS tick='', number (g_fr_kernel_tick_count s), bytes '' tasks='', number (g_fr_task_count s),
      bytes '' sent='', number (ds_messages_sent d), bytes '' recv='', number (ds_messages_received d),
      bytes '' q='', number (ds_queue_depth d), bytes '' latmax='', number (ds_max_latency_ticks d),
      bytes '' derr='', number (ds_order_errors d + ds_send_errors d + ds_receive_errors d + ds_task_create_errors d),
      bytes '' trace='', number (trace_count (g_fr_trace s)), bytes ''/'', number FR_TRACE_BUFFER_CAPACITY,
      bytes '' ovw='', number (trace_overwritten_events (g_fr_trace s)), bytes '' rxerr='', number rx_errors, bytes [CR, LF]]"

definition kernel_line :: "kernel \<Rightarrow> fr_fault_record \<Rightarrow> u8 list" where
  "kernel_line s fault = (let report = the (fst (snd (fr_kernel_check_invariants True s))) in concat
     [bytes ''KERNEL tasks='', number (kr_task_count report), bytes '' run='', number (kr_running_tasks report),
      bytes '' ready='', number (kr_ready_tasks report), bytes '' blocked='', number (kr_blocked_tasks report),
      bytes '' current='', number (kr_current_task_id report), bytes '' inv='', bytes ''0x'' @ hex (kr_violation_mask report),
      bytes '' assert='', number (ar_count (g_fr_assert_record s)), bytes '' fault='', bytes ''0x'' @ hex (fr_magic fault),
      bytes [CR, LF]])"

definition trace_line :: "fr_trace_entry \<Rightarrow> u8 list" where
  "trace_line e = concat
     [bytes ''#'', number (te_sequence e), bytes '' t='', number (te_tick e), bytes '' '',
      bytes (fr_release_trace_event_name (te_event e)), bytes '' task='', number (te_task_id e),
      bytes '' a0='', number (te_arg0 e), bytes '' a1='', number (te_arg1 e), bytes [CR, LF]]"

definition response :: "u8 \<Rightarrow> 'd release \<Rightarrow> u8 list" where
  "response command w =
     (if command \<in> {0x0D, 0x0A} then []
      else if command \<in> {of_char CHR ''h'', of_char CHR ''?''} then bytes help_text
      else if command = of_char CHR ''s''
      then status_line (rl_kernel w) (g_fr_release_demo_status (rl_demo w)) (g_fr_uart_rx_error_count (rl_uart w))
      else if command = of_char CHR ''k'' then kernel_line (rl_kernel w) (g_fr_fault_record w)
      else if command = of_char CHR ''t''
      then bytes trace_title @ concat (map trace_line (fst (snd (fr_trace_snapshot True FR_RELEASE_MONITOR_TRACE_COUNT (rl_kernel w)))))
      else if command = of_char CHR ''v'' then bytes version_text
      else bytes unknown_text)"

text \<open>The step from \<open>w\<close> to \<open>w'\<close> sends exactly \<open>out\<close> and changes only the line, the trace copy and the transmitter.\<close>

definition says :: "('d \<Rightarrow> u8 list) \<Rightarrow> 'd release \<Rightarrow> u8 list \<Rightarrow> 'd release \<Rightarrow> bool" where
  "says log w out w' \<longleftrightarrow>
     (\<exists>d. rl_uart w' = (rl_uart w)\<lparr>usart2 := d, g_fr_uart_tx_bytes := g_fr_uart_tx_bytes (rl_uart w) + of_nat (length out)\<rparr> \<and>
        log d = log (usart2 (rl_uart w)) @ out) \<and>
     rl_kernel w' = rl_kernel w \<and> rl_demo w' = rl_demo w \<and> g_fr_fault_record w' = g_fr_fault_record w \<and>
     g_fr_release_monitor_task w' = g_fr_release_monitor_task w"

definition can_say :: "'d release \<Rightarrow> bool" where
  "can_say w \<longleftrightarrow> g_fr_uart_initialized (rl_uart w) \<and> thread_context_allowed (rl_kernel w)"

lemma says_nothing: "says log w [] w"
  by (auto simp: says_def intro!: exI [of _ "usart2 (rl_uart w)"])

lemma says_trans: "says log w xs w1 \<Longrightarrow> says log w1 ys w2 \<Longrightarrow> says log w (xs @ ys) w2"
  by (auto simp: says_def add.assoc)

lemma says_can: "says log w out w' \<Longrightarrow> can_say w \<Longrightarrow> can_say w'"
  by (auto simp: says_def can_say_def)

lemma write_says:
  assumes "usart_law io log" and "can_say w" and "n \<noteq> 0" and "rl_kernel w' = rl_kernel w" and "rl_uart w' = rl_uart w"
    and "rl_demo w' = rl_demo w" and "g_fr_fault_record w' = g_fr_fault_record w"
    and "g_fr_release_monitor_task w' = g_fr_release_monitor_task w"
  shows "\<exists>u. fr_uart_write io (Some l) n (rl_kernel w) (rl_uart w) = Some (True, u) \<and>
    says log w (map l [0..<unat n]) (w'\<lparr>rl_uart := u\<rparr>)"
  using uart_write_sends [OF assms(1), of "rl_uart w" n "rl_kernel w" l] assms(2-)
  by (auto simp: can_say_def says_def)

lemma write_text_says:
  assumes "usart_law io log" and "can_say w" and "terminated t" and "t \<noteq> []" and "length t < 4294967296"
  shows "\<exists>w'. fr_release_write_text io (Some (cstr t)) w = Some (True, w') \<and> says log w (bytes t) w'"
proof -
  have n: "unat (of_nat (length t) :: u32) = length t" using assms(5) by (rule unat_of_nat32)
  then have "(of_nat (length t) :: u32) \<noteq> 0" using assms(4) by (metis length_0_conv unat_0)
  from write_says [OF assms(1,2) this, of w "cstr t"] n
  show ?thesis using text_length [OF assms(3,5)] by (auto simp: fr_release_write_text_def cstr_bytes)
qed

lemma built_line:
  assumes "list_all2 appends parts yss" and "length (concat yss) \<le> 191"
  obtains l' where "built parts (l, 0) = (True, (l', of_nat (length (concat yss))))"
    "map l' [0..<length (concat yss)] = concat yss"
proof -
  have "unat (0 :: u32) + length (concat yss) \<le> 191" using assms(2) by simp
  then show thesis by (rule appendsE [OF appends_built [OF assms(1)], of _ l]) (simp add: that)
qed

lemma line_says:
  assumes "usart_law io log" and "can_say w" and "list_all2 appends parts yss" and "length (concat yss) \<le> 191" and "concat yss \<noteq> []"
  obtains l' u where "built parts ((g_fr_release_monitor_line w)(0 := 0), 0) = (True, (l', of_nat (length (concat yss))))"
    "fr_uart_write io (Some l') (of_nat (length (concat yss))) (rl_kernel w) (rl_uart w) = Some (True, u)"
    "says log w (concat yss) (w\<lparr>g_fr_release_monitor_line := l', rl_uart := u\<rparr>)"
proof -
  obtain l' where l': "built parts ((g_fr_release_monitor_line w)(0 := 0), 0) = (True, (l', of_nat (length (concat yss))))"
    "map l' [0..<length (concat yss)] = concat yss"
    by (rule built_line [OF assms(3,4)])
  have n: "unat (of_nat (length (concat yss)) :: u32) = length (concat yss)" using assms(4) by (simp add: unat_of_nat32)
  then have nz: "(of_nat (length (concat yss)) :: u32) \<noteq> 0" using assms(5) by (metis length_0_conv unat_0)
  from write_says [OF assms(1,2) nz, of "w\<lparr>g_fr_release_monitor_line := l'\<rparr>" l', unfolded n l'(2)]
  show thesis using that [OF l'(1)] by auto
qed

lemma send_line_says:
  assumes "usart_law io log" and "can_say w" and "list_all2 appends parts yss" and "length (concat yss) \<le> 191" and "concat yss \<noteq> []"
  shows "\<exists>w'. send_line io parts error w = Some w' \<and> says log w (concat yss) w'"
proof -
  obtain l' u where "built parts ((g_fr_release_monitor_line w)(0 := 0), 0) = (True, (l', of_nat (length (concat yss))))"
    "fr_uart_write io (Some l') (of_nat (length (concat yss))) (rl_kernel w) (rl_uart w) = Some (True, u)"
    "says log w (concat yss) (w\<lparr>g_fr_release_monitor_line := l', rl_uart := u\<rparr>)"
    by (rule line_says [OF assms])
  then show ?thesis by (simp add: send_line_def Let_def del: length_concat)
qed

lemma append_one: "appends (fr_release_line_append_char (of_char c)) (bytes [c])"
  by (simp add: bytes_def appends_char)

lemma appends_number: "appends (fr_release_line_append_u32 v) (number v)"
  by (simp add: number_def appends_u32)

lemma number_length: "length (number v) \<le> 10"
  by (simp add: number_def dec_u32)

lemma hex_length: "length (hex v) = 8"
  by (simp add: hex_def)

lemma bytes_length [simp]: "length (bytes t) = length t"
  by (simp add: bytes_def)

lemma status_says:
  assumes "usart_law io log" and "can_say w"
  shows "\<exists>w'. fr_release_emit_status io w = Some w' \<and>
    says log w (status_line (rl_kernel w) (g_fr_release_demo_status (rl_demo w)) (g_fr_uart_rx_error_count (rl_uart w))) w'"
proof -
  let ?s = "rl_kernel w" and ?d = "g_fr_release_demo_status (rl_demo w)" and ?u = "rl_uart w"
  define w1 where "w1 = w\<lparr>rl_uart := ?u\<lparr>usart2 := snd (read_sr io (usart2 ?u))\<rparr>\<rparr>"
  obtain trace uart where st: "fst (fr_trace_get_status True ?s) = Some trace" "fst (fr_uart_get_status io True ?s ?u) = Some uart"
    "ts_count trace = trace_count (g_fr_trace ?s)" "ts_capacity trace = FR_TRACE_BUFFER_CAPACITY"
    "ts_overwritten_events trace = trace_overwritten_events (g_fr_trace ?s)" "us_rx_error_count uart = g_fr_uart_rx_error_count ?u"
    by (simp add: fr_trace_get_status_def fr_uart_get_status_def split_beta Let_def fr_critical_enter_def)
  have e: "fr_release_emit_status io w = send_line io (status_parts ?s ?d trace uart) (''ERR status format'' @ [CR, LF]) w1"
    using st(1,2) by (auto simp: fr_release_emit_status_def fr_release_demo_get_status_def fr_trace_get_status_def
        fr_uart_get_status_def split_beta Let_def w1_def)
  let ?yss = "[bytes ''STATUS tick='', number (g_fr_kernel_tick_count ?s), bytes '' tasks='', number (g_fr_task_count ?s),
      bytes '' sent='', number (ds_messages_sent ?d), bytes '' recv='', number (ds_messages_received ?d),
      bytes '' q='', number (ds_queue_depth ?d), bytes '' latmax='', number (ds_max_latency_ticks ?d),
      bytes '' derr='', number (ds_order_errors ?d + ds_send_errors ?d + ds_receive_errors ?d + ds_task_create_errors ?d),
      bytes '' trace='', number (trace_count (g_fr_trace ?s)), bytes ''/'', number FR_TRACE_BUFFER_CAPACITY,
      bytes '' ovw='', number (trace_overwritten_events (g_fr_trace ?s)), bytes '' rxerr='', number (g_fr_uart_rx_error_count ?u),
      bytes [CR, LF]]"
  have parts: "list_all2 appends (status_parts ?s ?d trace uart) ?yss"
    by (simp add: status_parts_def st append_one [of "CHR ''/''", simplified] appends_number appends_text terminated_def fr_tick_now_def fr_task_count_def
        CR_def LF_def del: FR_TRACE_BUFFER_CAPACITY_def)
  have len: "length (concat ?yss) \<le> 191"
    using number_length [of "g_fr_kernel_tick_count ?s"] number_length [of "g_fr_task_count ?s"] number_length [of "ds_messages_sent ?d"]
      number_length [of "ds_messages_received ?d"] number_length [of "ds_queue_depth ?d"] number_length [of "ds_max_latency_ticks ?d"]
      number_length [of "ds_order_errors ?d + ds_send_errors ?d + ds_receive_errors ?d + ds_task_create_errors ?d"]
      number_length [of "trace_count (g_fr_trace ?s)"] number_length [of FR_TRACE_BUFFER_CAPACITY]
      number_length [of "trace_overwritten_events (g_fr_trace ?s)"] number_length [of "g_fr_uart_rx_error_count ?u"]
    by (simp del: FR_TRACE_BUFFER_CAPACITY_def)
  have can: "can_say w1" using assms(2) by (simp add: w1_def can_say_def)
  obtain w' where w': "fr_release_emit_status io w = Some w'" "says log w1 (concat ?yss) w'"
    using send_line_says [OF assms(1) can parts len] unfolding e by (auto simp: bytes_def)
  have "says log w [] w1"
    using usart_lawD(1) [OF assms(1)] by (auto simp: says_def w1_def)
  from says_trans [OF this w'(2)] w'(1) show ?thesis by (simp only: status_line_def append_Nil) blast
qed

lemma kernel_says:
  assumes "usart_law io log" and "can_say w"
  shows "\<exists>w'. fr_release_emit_kernel io w = Some w' \<and> says log w (kernel_line (rl_kernel w) (g_fr_fault_record w)) w'"
proof -
  let ?s = "rl_kernel w" and ?f = "g_fr_fault_record w"
  obtain valid report where r: "fr_kernel_check_invariants True ?s = (valid, Some report, ?s)"
    using check_keeps_state [of ?s] check_reports [of ?s] by (metis prod.collapse)
  have e: "fr_release_emit_kernel io w = send_line io (kernel_parts ?s report ?f) (''ERR kernel format'' @ [CR, LF]) w"
    by (simp add: fr_release_emit_kernel_def r)
  let ?yss = "[bytes ''KERNEL tasks='', number (kr_task_count report), bytes '' run='', number (kr_running_tasks report),
      bytes '' ready='', number (kr_ready_tasks report), bytes '' blocked='', number (kr_blocked_tasks report),
      bytes '' current='', number (kr_current_task_id report), bytes '' inv='', bytes ''0x'' @ hex (kr_violation_mask report),
      bytes '' assert='', number (ar_count (g_fr_assert_record ?s)), bytes '' fault='', bytes ''0x'' @ hex (fr_magic ?f),
      bytes [CR, LF]]"
  have parts: "list_all2 appends (kernel_parts ?s report ?f) ?yss"
    by (simp add: kernel_parts_def appends_number appends_text appends_hex terminated_def CR_def LF_def)
  have len: "length (concat ?yss) \<le> 191"
    using number_length [of "kr_task_count report"] number_length [of "kr_running_tasks report"]
      number_length [of "kr_ready_tasks report"] number_length [of "kr_blocked_tasks report"]
      number_length [of "kr_current_task_id report"] number_length [of "ar_count (g_fr_assert_record ?s)"]
    by (simp add: hex_length)
  show ?thesis
    using send_line_says [OF assms parts len] unfolding e by (auto simp: bytes_def kernel_line_def r)
qed

lemma trace_line_parts: "\<exists>yss. list_all2 appends (trace_parts e) yss \<and> concat yss = trace_line e \<and> length (concat yss) \<le> 191"
proof -
  let ?yss = "[bytes ''#'', number (te_sequence e), bytes '' t='', number (te_tick e), bytes '' '',
      bytes (fr_release_trace_event_name (te_event e)), bytes '' task='', number (te_task_id e),
      bytes '' a0='', number (te_arg0 e), bytes '' a1='', number (te_arg1 e), bytes [CR, LF]]"
  have name: "terminated (fr_release_trace_event_name (te_event e))" "length (fr_release_trace_event_name (te_event e)) \<le> 7"
    by (cases "te_event e"; simp add: terminated_def)+
  have crlf: "terminated [CR, LF]" "terminated '' t=''" "terminated '' task=''" "terminated '' a0=''" "terminated '' a1=''"
    by (simp_all add: terminated_def CR_def LF_def)
  have "list_all2 appends (trace_parts e) ?yss"
    by (simp add: trace_parts_def append_one [of "CHR ''#''", simplified] append_one [of "CHR '' ''", simplified]
        appends_number appends_text name crlf)
  moreover have "length (concat ?yss) \<le> 191"
    using number_length [of "te_sequence e"] number_length [of "te_tick e"] number_length [of "te_task_id e"]
      number_length [of "te_arg0 e"] number_length [of "te_arg1 e"] name(2)
    by simp
  moreover have "concat ?yss = trace_line e" by (simp only: trace_line_def)
  ultimately show ?thesis by blast
qed

lemma trace_loop_says:
  assumes "usart_law io log" and "can_say w"
  shows "\<exists>w'. emit_trace_loop io es w = Some w' \<and> says log w (concat (map trace_line es)) w'"
  using assms(2)
proof (induction es arbitrary: w)
  case Nil
  then show ?case using says_nothing by auto
next
  case (Cons e es)
  obtain yss where y: "list_all2 appends (trace_parts e) yss" "concat yss = trace_line e" "length (concat yss) \<le> 191"
    using trace_line_parts by blast
  have "concat yss \<noteq> []" unfolding y(2) by (simp add: trace_line_def bytes_def)
  then obtain l' u where l: "built (trace_parts e) ((g_fr_release_monitor_line w)(0 := 0), 0) = (True, (l', of_nat (length (concat yss))))"
    "fr_uart_write io (Some l') (of_nat (length (concat yss))) (rl_kernel w) (rl_uart w) = Some (True, u)"
    "says log w (trace_line e) (w\<lparr>g_fr_release_monitor_line := l', rl_uart := u\<rparr>)"
    using line_says [OF assms(1) Cons.prems y(1,3)] unfolding y(2) by blast
  obtain w' where w': "emit_trace_loop io es (w\<lparr>g_fr_release_monitor_line := l', rl_uart := u\<rparr>) = Some w'"
    "says log (w\<lparr>g_fr_release_monitor_line := l', rl_uart := u\<rparr>) (concat (map trace_line es)) w'"
    using Cons.IH [OF says_can [OF l(3) Cons.prems]] by blast
  show ?case using says_trans [OF l(3) w'(2)] w'(1) l(1,2) by (simp add: Let_def del: length_concat)
qed

lemma trace_copy_length: "length (trace_copy n t i) = n"
  by (induction n arbitrary: i) simp_all

lemma snapshot_facts:
  "fr_trace_snapshot b n s = (c, es, s') \<Longrightarrow> s' = s \<and> length es = unat c"
  by (auto simp: fr_trace_snapshot_def split_beta Let_def trace_copy_length split: if_splits)

lemma trace_says:
  assumes "usart_law io log" and "can_say w"
  shows "\<exists>w'. fr_release_emit_trace io w = Some w' \<and>
    says log w (bytes trace_title @ concat (map trace_line (fst (snd (fr_trace_snapshot True FR_RELEASE_MONITOR_TRACE_COUNT (rl_kernel w)))))) w'"
proof -
  obtain c es where s: "fr_trace_snapshot True FR_RELEASE_MONITOR_TRACE_COUNT (rl_kernel w) = (c, es, rl_kernel w)" "length es = unat c"
    using snapshot_facts by (metis prod_cases3)
  let ?w = "w\<lparr>g_fr_release_monitor_trace := es @ drop (length es) (g_fr_release_monitor_trace w)\<rparr>"
  have can: "can_say ?w" using assms(2) by (simp add: can_say_def)
  have "terminated trace_title" "trace_title \<noteq> []" "length trace_title < 4294967296"
    by (simp_all add: trace_title_def terminated_def CR_def LF_def)
  then obtain w1 where w1: "fr_release_write_text io (Some (cstr trace_title)) ?w = Some (True, w1)" "says log ?w (bytes trace_title) w1"
    using write_text_says [OF assms(1) can] by blast
  have "g_fr_release_monitor_trace w1 = g_fr_release_monitor_trace ?w"
    using w1(1) by (auto simp: fr_release_write_text_def split: option.splits prod.splits)
  then have tk: "take (unat c) (g_fr_release_monitor_trace w1) = es" using s(2) by simp
  obtain w2 where w2: "emit_trace_loop io es w1 = Some w2" "says log w1 (concat (map trace_line es)) w2"
    using trace_loop_says [OF assms(1) says_can [OF w1(2) can]] by blast
  have "says log w [] ?w" using says_nothing [of log w] by (simp add: says_def)
  from says_trans [OF this says_trans [OF w1(2) w2(2)]] show ?thesis
    using w1(1) w2(1) s(1) tk by (auto simp: fr_release_emit_trace_def Let_def)
qed

lemma fixed_texts:
  "terminated help_text" "help_text \<noteq> []" "length help_text < 4294967296"
  "terminated version_text" "version_text \<noteq> []" "length version_text < 4294967296"
  "terminated unknown_text" "unknown_text \<noteq> []" "length unknown_text < 4294967296"
  "terminated banner_text" "banner_text \<noteq> []" "length banner_text < 4294967296"
  by (simp_all add: help_text_def version_text_def unknown_text_def banner_text_def FR_VERSION_STRING_def terminated_def CR_def LF_def)

lemma text_says:
  assumes "usart_law io log" and "can_say w" and "terminated t" and "t \<noteq> []" and "length t < 4294967296"
  shows "\<exists>w'. map_option snd (fr_release_write_text io (Some (cstr t)) w) = Some w' \<and> says log w (bytes t) w'"
  using write_text_says [OF assms] by force

lemma command_says:
  assumes "usart_law io log" and "can_say w"
  shows "\<exists>w'. fr_release_process_command io command w = Some w' \<and> says log w (response command w) w'"
proof -
  consider "command = 0x0D \<or> command = 0x0A" | "command = 104 \<or> command = 63" | "command = 115" | "command = 107" | "command = 116"
    | "command = 118" | "command \<notin> {0x0D, 0x0A, 104, 63, 115, 107, 116, 118}"
    by auto
  then show ?thesis
  proof cases
    case 1
    then show ?thesis using says_nothing by (auto simp: fr_release_process_command_def response_def CR_def LF_def)
  next
    case 2
    then show ?thesis
      using text_says [OF assms fixed_texts(1-3)] by (auto simp: fr_release_process_command_def response_def CR_def LF_def fr_release_emit_help_def)
  next
    case 3
    then show ?thesis using status_says [OF assms] by (simp add: fr_release_process_command_def response_def CR_def LF_def)
  next
    case 4
    then show ?thesis using kernel_says [OF assms] by (simp add: fr_release_process_command_def response_def CR_def LF_def)
  next
    case 5
    then show ?thesis using trace_says [OF assms] by (simp add: fr_release_process_command_def response_def CR_def LF_def)
  next
    case 6
    then show ?thesis
      using text_says [OF assms fixed_texts(4-6)] by (simp add: fr_release_process_command_def response_def CR_def LF_def fr_release_emit_version_def)
  next
    case 7
    then show ?thesis
      using text_says [OF assms fixed_texts(7-9)] by (simp add: fr_release_process_command_def response_def CR_def LF_def)
  qed
qed

text \<open>
  C28. Every command is answered completely. On a transmitter that behaves as documented, with the UART
  initialised and interrupts enabled, processing a command byte returns, and exactly its response has
  been sent: nothing for a line ending, the fixed texts for help, version and unknown commands, the
  status and kernel lines with the values of the state in decimal and hexadecimal, and the newest
  trace entries, oldest first. The lines always fit the buffer, so no error text is sent. The kernel,
  the demonstration and the rest of the driver are unchanged.
\<close>

theorem monitor_answers_command:
  assumes "usart_law io log" and "can_say w"
  shows "\<exists>w'. fr_release_process_command io command w = Some w' \<and> says log w (response command w) w'"
  using assms by (rule command_says)

definition quiet_demo :: demo where
  "quiet_demo = \<lparr>g_fr_release_demo_status = \<lparr>ds_initialized = True, ds_producer_task_id = 1, ds_consumer_task_id = 2, ds_messages_sent = 7,
     ds_messages_received = 7, ds_last_sent_sequence = 7, ds_last_received_sequence = 7, ds_queue_depth = 0, ds_max_latency_ticks = 1,
     ds_order_errors = 0, ds_send_errors = 0, ds_receive_errors = 0, ds_task_create_errors = 0\<rparr>,
     g_fr_release_demo_producer_task = 0, g_fr_release_demo_consumer_task = 0,
     dlinks = \<lparr>dl_queue = 0x20002000, dl_queue_storage = 0x20002100, dl_producer_stack = 0x20002200, dl_consumer_stack = 0x20002400,
       dl_producer_entry = 0x08001001, dl_consumer_entry = 0x08001101\<rparr>\<rparr>"

definition quiet_release :: "(nat \<times> u8 list) release" where
  "quiet_release = \<lparr>rl_kernel = two_running, rl_uart = ready_uart, rl_demo = quiet_demo, g_fr_fault_record = zero_record,
     g_fr_release_monitor_line = (\<lambda>_. 0), g_fr_release_monitor_trace = [], g_fr_release_monitor_task = 0,
     rl_monitor_entry = 0x08001201, rl_monitor_stack = 0x20002600\<rparr>"

theorem monitor_answers_command_witness:
  "\<exists>w'. fr_release_process_command slow_io 118 quiet_release = Some w' \<and>
     snd (usart2 (rl_uart w')) = bytes (''ForgeRTOS v0.1.0'' @ [CR, LF])"
proof -
  have "can_say quiet_release" by (simp add: can_say_def quiet_release_def ready_uart_def two_running_facts)
  moreover have "response 118 quiet_release = bytes (''ForgeRTOS v0.1.0'' @ [CR, LF])"
    by (simp add: response_def version_text_def FR_VERSION_STRING_def)
  moreover have "snd (usart2 (rl_uart quiet_release)) = []" by (simp add: quiet_release_def ready_uart_def)
  ultimately show ?thesis using monitor_answers_command [OF slow_io_law, of quiet_release 118] by (auto simp: says_def)
qed

end
