(* ===== verification/Boot.thy ===== *)
theory Boot
  imports System Monitor
begin

text \<open>
  The start of the release firmware (\<open>src/main.c\<close>): \<open>main\<close> captures the boot snapshot, prepares the
  bootstrap stack and enters it; \<open>fr_release_bootstrap_entry\<close> initialises every component, creates the
  three tasks and starts the scheduler. Every early exit into \<open>fr_release_halt\<close> is a result.
\<close>


section \<open>Model\<close>

definition FR_RELEASE_BOOTSTRAP_STACK_WORDS :: nat where [simp]: "FR_RELEASE_BOOTSTRAP_STACK_WORDS = 128"
definition FR_RELEASE_STACK_PATTERN :: u32 where [simp]: "FR_RELEASE_STACK_PATTERN = 0xA5A5A5A5"
definition FR_RELEASE_TICK_HZ :: u32 where [simp]: "FR_RELEASE_TICK_HZ = 1000"
definition FR_RELEASE_UART_BAUD_RATE :: u32 where [simp]: "FR_RELEASE_UART_BAUD_RATE = 115200"

definition fr_release_prepare_bootstrap_stack :: "u32 \<Rightarrow> kernel \<Rightarrow> kernel" where
  "fr_release_prepare_bootstrap_stack stack s =
     s\<lparr>ram := store_words (ram s) stack (replicate FR_RELEASE_BOOTSTRAP_STACK_WORDS FR_RELEASE_STACK_PATTERN)\<rparr>"

text \<open>The flag of the result says whether the scheduler runs; false is the endless loop of \<open>fr_release_halt\<close>.\<close>

definition fr_release_halt :: "'d release \<Rightarrow> (bool \<times> 'd release) outcome" where
  "fr_release_halt w = Ret (False, w) (rl_kernel w)"

definition bootstrap_tasks :: "'d release \<Rightarrow> (bool \<times> 'd release) outcome" where
  "bootstrap_tasks w =
     (let (ok, s, d) = fr_release_demo_init (rl_kernel w) (rl_demo w);
          w = w\<lparr>rl_kernel := s, rl_demo := d\<rparr>
      in if \<not> ok then fr_release_halt w
         else and_then (fr_release_demo_create_tasks (rl_kernel w) (rl_demo w)) (\<lambda>(ok, d) s.
           let w = w\<lparr>rl_kernel := s, rl_demo := d\<rparr>
           in if \<not> ok then fr_release_halt w
              else and_then (fr_release_monitor_create_task w) (\<lambda>(ok, w) s.
                if \<not> ok then fr_release_halt w
                else and_then (fr_scheduler_start (rl_kernel w)) (\<lambda>status s.
                  let w = w\<lparr>rl_kernel := s\<rparr>
                  in case status of None \<Rightarrow> Ret (True, w) s | Some _ \<Rightarrow> fr_release_halt w))))"

definition fr_release_bootstrap_entry :: "'d usart_io \<Rightarrow> 'd release \<Rightarrow> (bool \<times> 'd release) outcome" where
  "fr_release_bootstrap_entry io w =
     (let w = w\<lparr>rl_kernel := fr_assert_init (rl_kernel w)\<rparr>;
          u = rl_uart w;
          u = u\<lparr>uart_mmio := fr_fault_init (uart_mmio u)\<rparr>;
          u = u\<lparr>uart_mmio := fr_board_init (uart_mmio u)\<rparr>;
          (ok, u) = fr_uart_init io FR_BOARD_RESET_CORE_CLOCK_HZ FR_RELEASE_UART_BAUD_RATE u;
          w = w\<lparr>rl_uart := u\<rparr>
      in if \<not> ok then fr_release_halt w
         else let (ok, s, m) = fr_systick_init FR_BOARD_RESET_CORE_CLOCK_HZ FR_RELEASE_TICK_HZ (rl_kernel w) (uart_mmio u);
                  w = w\<lparr>rl_kernel := s, rl_uart := u\<lparr>uart_mmio := m\<rparr>\<rparr>
              in if \<not> ok then fr_release_halt w
                 else bootstrap_tasks (w\<lparr>rl_kernel := fr_trace_init (rl_kernel w)\<rparr>))"

definition main :: "'d usart_io \<Rightarrow> (nat \<Rightarrow> u32) \<Rightarrow> u32 \<Rightarrow> 'd release \<Rightarrow> fr_arch_boot_snapshot \<times> (bool \<times> 'd release) outcome" where
  "main io g_pfnVectors g_fr_release_bootstrap_stack w =
     (let snapshot = fr_arch_capture_boot_snapshot (uart_mmio (rl_uart w)) g_pfnVectors (cpu (rl_kernel w));
          s = fr_release_prepare_bootstrap_stack g_fr_release_bootstrap_stack (rl_kernel w);
          stack_top = g_fr_release_bootstrap_stack + 4 * of_nat FR_RELEASE_BOOTSTRAP_STACK_WORDS;
          s = fr_arch_enter_thread_psp stack_top s
      in (snapshot, fr_release_bootstrap_entry io (w\<lparr>rl_kernel := s\<rparr>)))"

text \<open>The state in which the startup code calls \<open>main\<close>: every static variable is zero.\<close>

definition zero_status :: fr_release_demo_status where
  "zero_status = \<lparr>ds_initialized = False, ds_producer_task_id = 0, ds_consumer_task_id = 0, ds_messages_sent = 0,
     ds_messages_received = 0, ds_last_sent_sequence = 0, ds_last_received_sequence = 0, ds_queue_depth = 0,
     ds_max_latency_ticks = 0, ds_order_errors = 0, ds_send_errors = 0, ds_receive_errors = 0, ds_task_create_errors = 0\<rparr>"

definition power_on :: "link_map \<Rightarrow> demo_links \<Rightarrow> u32 \<Rightarrow> u32 \<Rightarrow> mmio \<Rightarrow> 'd \<Rightarrow> 'd release" where
  "power_on lm l monitor_entry monitor_stack m dev =
     \<lparr>rl_kernel = reset_kernel lm,
      rl_uart = \<lparr>g_fr_uart_initialized = False, g_fr_uart_peripheral_clock_hz = 0, g_fr_uart_baud_rate = 0,
        g_fr_uart_baud_divisor = 0, g_fr_uart_tx_bytes = 0, g_fr_uart_rx_bytes = 0, g_fr_uart_rx_error_count = 0,
        uart_mmio = m, usart2 = dev\<rparr>,
      rl_demo = \<lparr>g_fr_release_demo_status = zero_status, g_fr_release_demo_producer_task = 0,
        g_fr_release_demo_consumer_task = 0, dlinks = l\<rparr>,
      g_fr_fault_record = zero_record, g_fr_release_monitor_line = (\<lambda>_. 0), g_fr_release_monitor_trace = replicate 8 zero_trace_entry,
      g_fr_release_monitor_task = 0, rl_monitor_entry = monitor_entry, rl_monitor_stack = monitor_stack\<rparr>"

text \<open>What the linker script and the alignment attributes guarantee of the placement.\<close>

definition release_placed :: "'d release \<Rightarrow> bool" where
  "release_placed w \<longleftrightarrow> (let l = dlinks (rl_demo w) in
     config_ok (producer_config l) \<and> config_ok (consumer_config l) \<and> config_ok (monitor_config w) \<and>
     dl_queue l \<noteq> 0 \<and> dl_queue_storage l \<noteq> 0 \<and> pool_placed (rl_kernel w) \<and> idle_placed (rl_kernel w))"


section \<open>Creation of the tasks\<close>

lemma slot_info:
  assumes "pool_placed s" and "g_fr_task_count s \<le> 8" and "\<And>i. i < unat (g_fr_task_count s) \<Longrightarrow> task_id (tcb s (Pool i)) \<noteq> 0"
    and "i < unat (g_fr_task_count s)"
  shows "\<exists>info. fr_task_get_info (lm_task_pool (links s) + 56 * of_nat i) True s = (Some info, s) \<and> ti_id info = task_id (tcb s (Pool i))"
proof -
  let ?h = "lm_task_pool (links s) + 56 * of_nat i"
  have i8: "i < 8" using assms(2,4) by (simp add: word_le_nat_alt)
  obtain c where c: "fr_critical_enter s = (cpu_basepri (cpu s), s\<lparr>cpu := c\<rparr>)"
    "\<And>t. cpu t = cpu s \<Longrightarrow> fr_critical_exit (cpu_basepri (cpu s)) (t\<lparr>cpu := c\<rparr>) = t"
    using critical_section [of s] by blast
  have same: "fr_task_handle_is_valid ?h (s\<lparr>cpu := c\<rparr>) = fr_task_handle_is_valid ?h s"
    unfolding fr_task_handle_is_valid_def by simp
  have "fr_task_handle_is_valid ?h s" using handle_valid_iff [OF assms(1,2,3)] assms(4) by blast
  then have v: "fr_task_handle_is_valid ?h (s\<lparr>cpu := c\<rparr>)" by (simp only: same)
  have "task_of_handle ?h (s\<lparr>cpu := c\<rparr>) = Pool i"
    using task_of_handle_slot [OF i8, of "s\<lparr>cpu := c\<rparr>"] by simp
  then show ?thesis using v c(2) [of s] by (simp add: fr_task_get_info_def c(1) Let_def)
qed

lemma created_count:
  assumes "created_from cfg s s'" and "g_fr_task_count s < 8"
  shows "unat (g_fr_task_count s') = Suc (unat (g_fr_task_count s))"
  using assms unat_Suc_word [of "g_fr_task_count s" 8] by (simp add: created_from_def)

lemma demo_tasks_created:
  assumes "config_ok (producer_config (dlinks d))" and "config_ok (consumer_config (dlinks d))"
    and "ds_initialized (g_fr_release_demo_status d)" and "g_fr_task_count s = 0" and "pool_placed s"
  shows "\<exists>s1 s2 h1 h2. created_from (producer_config (dlinks d)) s s1 \<and> created_from (consumer_config (dlinks d)) s1 s2 \<and>
    fr_task_create True (Some (producer_config (dlinks d))) s = Ret (TASK_OK, Wrote (Some (Pool 0))) s1 \<and>
    fr_task_create True (Some (consumer_config (dlinks d))) s1 = Ret (TASK_OK, Wrote (Some (Pool 1))) s2 \<and>
    fr_release_demo_create_tasks s d = Ret (True, (upd_status (\<lambda>t. t\<lparr>ds_producer_task_id := 1, ds_consumer_task_id := 2\<rparr>) d)
      \<lparr>g_fr_release_demo_producer_task := h1, g_fr_release_demo_consumer_task := h2\<rparr>) s2"
proof -
  obtain s1 where s1: "fr_task_create True (Some (producer_config (dlinks d))) s = Ret (TASK_OK, Wrote (Some (Pool 0))) s1"
    "created_from (producer_config (dlinks d)) s s1"
    using create_ok [OF assms(1), of s] assms(4) by auto
  have n1: "g_fr_task_count s1 = 1" using s1(2) assms(4) by (simp add: created_from_def)
  obtain s2 where s2: "fr_task_create True (Some (consumer_config (dlinks d))) s1 = Ret (TASK_OK, Wrote (Some (Pool 1))) s2"
    "created_from (consumer_config (dlinks d)) s1 s2"
    using create_ok [OF assms(2), of s1] n1 by auto
  have n2: "g_fr_task_count s2 = 2" using s2(2) n1 by (simp add: created_from_def)
  have lk: "links s1 = links s" "links s2 = links s" using s1(2) s2(2) by (simp_all add: created_from_def)
  have t: "task_id (tcb s2 (Pool 0)) = 1" "task_id (tcb s2 (Pool 1)) = 2"
    using s1(2) s2(2) assms(4) n1 by (simp_all add: created_from_def created_task_def)
  have pl: "pool_placed s2" using assms(5) lk by (simp add: pool_placed_def)
  have ids: "task_id (tcb s2 (Pool i)) \<noteq> 0" if "i < unat (g_fr_task_count s2)" for i
    using that t n2 by (auto simp: less_2_cases_iff)
  obtain i0 i1 where info: "fr_task_get_info (lm_task_pool (links s)) True s2 = (Some i0, s2)" "ti_id i0 = 1"
    "fr_task_get_info (lm_task_pool (links s) + 56) True s2 = (Some i1, s2)" "ti_id i1 = 2"
    using slot_info [OF pl _ ids, of 0] slot_info [OF pl _ ids, of 1] n2 t lk by auto
  have "fr_release_demo_create_tasks s d = Ret (True, (upd_status (\<lambda>t. t\<lparr>ds_producer_task_id := 1, ds_consumer_task_id := 2\<rparr>) d)
      \<lparr>g_fr_release_demo_producer_task := lm_task_pool (links s), g_fr_release_demo_consumer_task := lm_task_pool (links s) + 56\<rparr>) s2"
    using s1(1) s2(1) assms(3) info lk by (simp add: fr_release_demo_create_tasks_def demo_task_ids_def upd_status_def Let_def)
  then show ?thesis using s1 s2 by blast
qed


section \<open>The start\<close>

lemma reset_divisor: "fr_uart_calculate_brr 16000000 115200 = 139"
  by (simp add: fr_uart_calculate_brr_def Let_def word_div_def)

text \<open>The last part of the bootstrap, from a kernel without tasks.\<close>

lemma consumer_first:
  assumes "registered s = {Pool 0, Pool 1, Pool 2}" and "tcb s (Pool 0) = created_task (producer_config l) 0"
    and "tcb s (Pool 1) = created_task (consumer_config l) 1" and "tcb s (Pool 2) = created_task (monitor_config w) 2"
  shows "first_task s = Pool 1"
proof -
  have ready: "ready s (Pool 1)" using assms(1,3) by (simp add: ready_def created_task_def)
  then obtain p where p: "fr_scheduler_select_highest_ready s = Some p" "first_task s = p"
    using first_task_cases [of s] by (auto simp: first_task_def split: option.splits)
  note best = select_highest_Some [OF p(1)]
  have "p \<in> {Pool 0, Pool 1, Pool 2}" using best(1) assms(1) by (simp add: ready_def)
  moreover have "prio s (Pool 1) \<le> prio s p" by (rule best(2) [OF ready])
  ultimately show ?thesis
    using p(2) assms(2-4)
    by (auto simp: prio_def created_task_def producer_config_def consumer_config_def monitor_config_def word_le_nat_alt)
qed

lemma bootstrap_tasks_start:
  assumes "booted lm (rl_kernel w)" and "release_placed w" and "g_fr_task_count (rl_kernel w) = 0"
    and "g_fr_release_demo_status (rl_demo w) = zero_status"
  shows "\<exists>w' k'. bootstrap_tasks w = Ret (True, w') k' \<and> rl_kernel w' = k' \<and> reachable lm (k', \<lambda>_. None) \<and>
    rl_uart w' = rl_uart w \<and> dlinks (rl_demo w') = dlinks (rl_demo w) \<and>
    g_fr_release_demo_status (rl_demo w') = zero_status\<lparr>ds_initialized := True, ds_producer_task_id := 1, ds_consumer_task_id := 2\<rparr> \<and>
    registered k' = {Pool 0, Pool 1, Pool 2} \<and> executing (Pool 1) k' \<and>
    prio k' (Pool 0) = 3 \<and> prio k' (Pool 1) = 4 \<and> prio k' (Pool 2) = 1 \<and>
    entry (tcb k' (Pool 0)) = dl_producer_entry (dlinks (rl_demo w)) \<and>
    entry (tcb k' (Pool 1)) = dl_consumer_entry (dlinks (rl_demo w)) \<and> entry (tcb k' (Pool 2)) = rl_monitor_entry w \<and>
    objects k' (dl_queue (dlinks (rl_demo w))) = Queue \<lparr>q_magic = FR_QUEUE_MAGIC, q_storage = dl_queue_storage (dlinks (rl_demo w)),
      q_capacity = 8, q_item_size = 8, q_head = 0, q_tail = 0, q_count = 0\<rparr>"
proof -
  let ?l = "dlinks (rl_demo w)" and ?s = "rl_kernel w"
  let ?sq = "snd (fr_queue_init (dl_queue ?l) (dl_queue_storage ?l) 8 8 ?s)"
  let ?dq = "upd_status (\<lambda>t. t\<lparr>ds_initialized := True, ds_queue_depth := 0\<rparr>) (rl_demo w)"
  note pl = assms(2) [unfolded release_placed_def Let_def]
  have nr: "\<not> fr_scheduler_is_running ?s" using booted_ok [OF assms(1)] by (simp add: fr_scheduler_is_running_def)
  have qi: "fr_queue_init (dl_queue ?l) (dl_queue_storage ?l) 8 8 ?s = (True, ?sq)"
    "objects ?sq (dl_queue ?l) = Queue \<lparr>q_magic = FR_QUEUE_MAGIC, q_storage = dl_queue_storage ?l,
      q_capacity = 8, q_item_size = 8, q_head = 0, q_tail = 0, q_count = 0\<rparr>"
    "g_fr_task_count ?sq = 0" "links ?sq = links ?s"
    using pl nr assms(3) by (simp_all add: fr_queue_init_def word_le_nat_alt word_less_nat_alt unat_div)
  have init: "fr_release_demo_init ?s (rl_demo w) = (True, ?sq, ?dq)"
    using arg_cong [OF qi(1), of fst] by (simp add: fr_release_demo_init_def split_beta)
  have b0: "booted lm ?sq" by (rule booted.queue [OF assms(1)])
  have d0: "dlinks ?dq = ?l" "ds_initialized (g_fr_release_demo_status ?dq)" by (simp_all add: upd_status_def)
  have p0: "pool_placed ?sq" using pl qi(4) by (simp add: pool_placed_def)
  obtain s1 s2 h1 h2 where c: "created_from (producer_config ?l) ?sq s1" "created_from (consumer_config ?l) s1 s2"
    "fr_task_create True (Some (producer_config ?l)) ?sq = Ret (TASK_OK, Wrote (Some (Pool 0))) s1"
    "fr_task_create True (Some (consumer_config ?l)) s1 = Ret (TASK_OK, Wrote (Some (Pool 1))) s2"
    "fr_release_demo_create_tasks ?sq ?dq = Ret (True, (upd_status (\<lambda>t. t\<lparr>ds_producer_task_id := 1, ds_consumer_task_id := 2\<rparr>) ?dq)
      \<lparr>g_fr_release_demo_producer_task := h1, g_fr_release_demo_consumer_task := h2\<rparr>) s2"
    using demo_tasks_created [of ?dq ?sq] pl d0 qi(3) p0 by auto
  let ?du = "(upd_status (\<lambda>t. t\<lparr>ds_producer_task_id := 1, ds_consumer_task_id := 2\<rparr>) ?dq)
      \<lparr>g_fr_release_demo_producer_task := h1, g_fr_release_demo_consumer_task := h2\<rparr>"
  let ?wu = "w\<lparr>rl_kernel := s2, rl_demo := ?du\<rparr>"
  have n: "g_fr_task_count s1 = 1" "g_fr_task_count s2 = 2" using c(1,2) qi(3) by (simp_all add: created_from_def)
  have mc: "monitor_config ?wu = monitor_config w" by (simp add: monitor_config_def)
  obtain s3 where s3: "fr_task_create True (Some (monitor_config w)) s2 = Ret (TASK_OK, Wrote (Some (Pool 2))) s3"
    "created_from (monitor_config w) s2 s3"
    using create_ok [of "monitor_config w" s2] pl n by auto
  have n3: "g_fr_task_count s3 = 3" using s3(2) n by (simp add: created_from_def)
  have b3: "booted lm s3" by (rule booted.create [OF booted.create [OF booted.create [OF b0 c(3)] c(4)] s3(1)])
  have f3: "links s3 = links ?s" "objects s3 = objects ?sq" using c(1,2) s3(2) qi(4) by (simp_all add: created_from_def)
  have idle: "idle_placed s3" using pl f3(1) by (simp add: idle_placed_def)
  obtain k' where k': "fr_scheduler_start s3 = Ret None k'" "started_from s3 k'"
    using start_closed [of s3] booted_ok [OF b3] idle by blast
  have t3: "tcb s3 (Pool 0) = created_task (producer_config ?l) 0" "tcb s3 (Pool 1) = created_task (consumer_config ?l) 1"
    "tcb s3 (Pool 2) = created_task (monitor_config w) 2"
    using c(1,2) s3(2) n qi(3) by (simp_all add: created_from_def)
  have r3: "registered s3 = {Pool 0, Pool 1, Pool 2}" using n3 by (auto simp: registered_def)
  have first: "first_task s3 = Pool 1" by (rule consumer_first [OF r3 t3])
  have k: "registered k' = {Pool 0, Pool 1, Pool 2}" "executing (Pool 1) k'" "objects k' = objects ?sq"
    "tcb k' (Pool 0) = tcb s3 (Pool 0)" "tcb k' (Pool 1) = (tcb s3 (Pool 1))\<lparr>task_state := STATE_RUNNING\<rparr>" "tcb k' (Pool 2) = tcb s3 (Pool 2)"
    using k'(2) r3 f3(2) unfolding started_from_def first by (auto simp: registered_def executing_def)
  have run: "bootstrap_tasks w = Ret (True, ?wu\<lparr>g_fr_release_monitor_task := stored_handle (Wrote (Some (Pool 2))) s3 0, rl_kernel := k'\<rparr>) k'"
    using init c(5) s3(1) mc k'(1) by (simp add: bootstrap_tasks_def fr_release_monitor_create_task_def Let_def)
  show ?thesis
    unfolding run using reachable.start [OF b3 idle k'(1)] k t3 qi(2) assms(4)
    by (simp add: prio_def created_task_def producer_config_def consumer_config_def monitor_config_def upd_status_def zero_status_def)
qed

text \<open>The registers that configure the pins: PA2 and PA3 in alternate mode, PA5 an output.\<close>

lemma moder_fields:
  fixes x :: u32
  shows "(((x AND NOT (push_bit 10 3)) OR push_bit 10 1) AND NOT (push_bit 4 3 OR push_bit 6 3)
      OR (push_bit 4 2 OR push_bit 6 2)) AND 0xCF0 = 0x4A0"
  by (simp add: bit.conj_disj_distrib2 and.assoc)

lemma bootstrap_hardware:
  assumes "\<not> g_fr_uart_initialized (rl_uart w)"
  obtains u m where "fr_release_bootstrap_entry io w = bootstrap_tasks
      (w\<lparr>rl_uart := u, rl_kernel := fr_trace_init (fst (snd (fr_systick_init 16000000 1000 (fr_assert_init (rl_kernel w)) m)))\<rparr>)"
    "g_fr_uart_initialized u" "g_fr_uart_baud_divisor u = 139" "uart_mmio u FR_USART2_BRR = 139" "uart_mmio u SYSTICK_LOAD = 15999"
    "uart_mmio u GPIOA_MODER AND 0xCF0 = 0x4A0"
proof -
  let ?m0 = "fr_board_init (fr_fault_init (uart_mmio (rl_uart w)))"
  let ?u0 = "(rl_uart w)\<lparr>uart_mmio := ?m0\<rparr>"
  obtain u1 where u1: "fr_uart_init io 16000000 115200 ?u0 = (True, u1)" "g_fr_uart_initialized u1" "g_fr_uart_baud_divisor u1 = 139"
    "uart_mmio u1 FR_USART2_BRR = 139" "uart_mmio u1 GPIOA_MODER = uart_pins ?m0 GPIOA_MODER"
    using assms by (simp add: fr_uart_init_def reset_divisor Let_def split_beta)
  let ?r = "fr_systick_init 16000000 1000 (fr_assert_init (rl_kernel w)) (uart_mmio u1)"
  let ?u2 = "u1\<lparr>uart_mmio := snd (snd ?r)\<rparr>"
  have st: "fst ?r" "snd (snd ?r) SYSTICK_LOAD = 15999" "snd (snd ?r) FR_USART2_BRR = 139" "snd (snd ?r) GPIOA_MODER = uart_mmio u1 GPIOA_MODER"
    using u1(4) by (simp_all add: fr_systick_init_def Let_def word_div_def word_mod_def)
  have mo: "uart_pins ?m0 GPIOA_MODER AND 0xCF0 = 0x4A0"
    using moder_fields by (simp add: uart_pins_def reg_field_def fr_board_init_def FR_GPIO_MODE_AF_def Let_def)
  show thesis
    by (rule that [where u = ?u2 and m = "uart_mmio u1"])
      (use u1 st mo in \<open>auto simp: fr_release_bootstrap_entry_def Let_def split_beta\<close>)
qed

lemma boots:
  assumes "release_placed (power_on lm l monitor_entry monitor_stack m dev)"
  shows "\<exists>w k. snd (main io vectors stack (power_on lm l monitor_entry monitor_stack m dev)) = Ret (True, w) k \<and>
    rl_kernel w = k \<and> reachable lm (k, \<lambda>_. None) \<and>
    g_fr_uart_initialized (rl_uart w) \<and> uart_mmio (rl_uart w) FR_USART2_BRR = 139 \<and>
    uart_mmio (rl_uart w) SYSTICK_LOAD = 15999 \<and> uart_mmio (rl_uart w) GPIOA_MODER AND 0xCF0 = 0x4A0 \<and>
    dlinks (rl_demo w) = l \<and>
    g_fr_release_demo_status (rl_demo w) = zero_status\<lparr>ds_initialized := True, ds_producer_task_id := 1, ds_consumer_task_id := 2\<rparr> \<and>
    registered k = {Pool 0, Pool 1, Pool 2} \<and> executing (Pool 1) k \<and>
    prio k (Pool 0) = 3 \<and> prio k (Pool 1) = 4 \<and> prio k (Pool 2) = 1 \<and>
    entry (tcb k (Pool 0)) = dl_producer_entry l \<and> entry (tcb k (Pool 1)) = dl_consumer_entry l \<and>
    entry (tcb k (Pool 2)) = monitor_entry \<and>
    objects k (dl_queue l) = Queue \<lparr>q_magic = FR_QUEUE_MAGIC, q_storage = dl_queue_storage l,
      q_capacity = 8, q_item_size = 8, q_head = 0, q_tail = 0, q_count = 0\<rparr>"
proof -
  let ?w = "power_on lm l monitor_entry monitor_stack m dev"
  define s where "s = fr_arch_enter_thread_psp (stack + 512) (fr_release_prepare_bootstrap_stack stack (rl_kernel ?w))"
  define wb where "wb = ?w\<lparr>rl_kernel := s\<rparr>"
  have mn: "snd (main io vectors stack ?w) = fr_release_bootstrap_entry io wb"
    by (simp add: main_def Let_def s_def wb_def)
  have "\<not> g_fr_uart_initialized (rl_uart wb)" by (simp add: wb_def power_on_def)
  then obtain u m2 where hw: "fr_release_bootstrap_entry io wb = bootstrap_tasks
      (wb\<lparr>rl_uart := u, rl_kernel := fr_trace_init (fst (snd (fr_systick_init 16000000 1000 (fr_assert_init (rl_kernel wb)) m2)))\<rparr>)"
    "g_fr_uart_initialized u" "g_fr_uart_baud_divisor u = 139" "uart_mmio u FR_USART2_BRR = 139" "uart_mmio u SYSTICK_LOAD = 15999"
    "uart_mmio u GPIOA_MODER AND 0xCF0 = 0x4A0"
    by (rule bootstrap_hardware)
  define s3 where "s3 = fr_trace_init (fst (snd (fr_systick_init 16000000 1000 (fr_assert_init (rl_kernel wb)) m2)))"
  let ?wt = "wb\<lparr>rl_uart := u, rl_kernel := s3\<rparr>"
  have b: "booted lm s" unfolding s_def fr_release_prepare_bootstrap_stack_def
    by (intro booted.process_stack booted.memory) (simp add: power_on_def booted.reset)
  then have b3: "booted lm s3" unfolding s3_def by (intro booted.trace booted.systick booted.assertions) (simp add: wb_def)
  have same: "links s3 = links (rl_kernel ?w)" "g_fr_task_count s3 = g_fr_task_count (rl_kernel ?w)"
    using boot_same_ops(1) [of s] boot_same_ops(2) [of "fst (snd (fr_systick_init 16000000 1000 (fr_assert_init s) m2))"]
      boot_same_ops(3) [of "fr_assert_init s" 16000000 1000 m2]
    by (simp_all add: boot_same_def same_kernel_def s3_def wb_def s_def fr_arch_enter_thread_psp_def fr_release_prepare_bootstrap_stack_def)
  have mc: "monitor_config ?wt = monitor_config ?w" by (simp add: monitor_config_def wb_def)
  have pl: "release_placed ?wt"
    using assms same(1) mc by (simp add: release_placed_def Let_def pool_placed_def idle_placed_def) (simp add: wb_def)
  have t0: "g_fr_task_count (rl_kernel ?wt) = 0" "g_fr_release_demo_status (rl_demo ?wt) = zero_status"
    "dlinks (rl_demo ?wt) = l" "rl_monitor_entry ?wt = monitor_entry"
    using same(2) by (simp_all add: wb_def power_on_def reset_kernel_def)
  have bt: "booted lm (rl_kernel ?wt)" using b3 by simp
  show ?thesis
    unfolding mn hw(1) s3_def [symmetric]
    using bootstrap_tasks_start [OF bt pl t0(1,2)] hw(2,4-) unfolding t0(3,4) by fastforce
qed

text \<open>
  C12. The release firmware boots. For every placement of the static objects that the linker guarantees,
  \<open>main\<close> reaches the scheduler from the power-on state: no assertion fails and no initialisation is
  rejected. USART2 then has the divisor 139 (115200 baud), SysTick reloads every 16000 cycles (1 kHz),
  the UART pins are in alternate mode and the LED pin is still an output. Exactly the producer
  (priority 3), the consumer (4) and the monitor (1) are registered, in this order, the consumer has
  the processor, the message queue is empty, no error is counted, and the kernel is in a state of the
  system that the kernel theorems are about.
\<close>

theorem release_boots:
  assumes "release_placed (power_on lm l monitor_entry monitor_stack m dev)"
  shows "\<exists>w k. snd (main io vectors stack (power_on lm l monitor_entry monitor_stack m dev)) = Ret (True, w) k \<and>
    rl_kernel w = k \<and> reachable lm (k, \<lambda>_. None) \<and>
    g_fr_uart_initialized (rl_uart w) \<and> uart_mmio (rl_uart w) FR_USART2_BRR = 139 \<and>
    uart_mmio (rl_uart w) SYSTICK_LOAD = 15999 \<and> uart_mmio (rl_uart w) GPIOA_MODER AND 0xCF0 = 0x4A0 \<and>
    dlinks (rl_demo w) = l \<and>
    g_fr_release_demo_status (rl_demo w) = zero_status\<lparr>ds_initialized := True, ds_producer_task_id := 1, ds_consumer_task_id := 2\<rparr> \<and>
    registered k = {Pool 0, Pool 1, Pool 2} \<and> executing (Pool 1) k \<and>
    prio k (Pool 0) = 3 \<and> prio k (Pool 1) = 4 \<and> prio k (Pool 2) = 1 \<and>
    entry (tcb k (Pool 0)) = dl_producer_entry l \<and> entry (tcb k (Pool 1)) = dl_consumer_entry l \<and>
    entry (tcb k (Pool 2)) = monitor_entry \<and>
    objects k (dl_queue l) = Queue \<lparr>q_magic = FR_QUEUE_MAGIC, q_storage = dl_queue_storage l,
      q_capacity = 8, q_item_size = 8, q_head = 0, q_tail = 0, q_count = 0\<rparr>"
  using assms by (rule boots)

definition example_demo_links :: demo_links where
  "example_demo_links = \<lparr>dl_queue = 0x20002000, dl_queue_storage = 0x20002100, dl_producer_stack = 0x20002200,
     dl_consumer_stack = 0x20002400, dl_producer_entry = 0x08001001, dl_consumer_entry = 0x08001101\<rparr>"

abbreviation example_power_on :: "(nat \<times> u8 list) release" where
  "example_power_on \<equiv> power_on example_links example_demo_links 0x08001201 0x20002600 (\<lambda>_. 0) (0, [])"

lemma example_placed: "release_placed example_power_on"
  by (simp add: release_placed_def Let_def power_on_def config_ok_def producer_config_def consumer_config_def monitor_config_def
      example_demo_links_def stack_is_valid_iff pool_placed_def idle_placed_def reset_kernel_def example_links_def word_le_nat_alt)

theorem release_boots_witness:
  "\<exists>w k. snd (main slow_io (\<lambda>_. 0) 0x20002800 example_power_on) = Ret (True, w) k \<and>
     executing (Pool 1) k \<and> uart_mmio (rl_uart w) FR_USART2_BRR = 139"
  using release_boots [OF example_placed, of slow_io "\<lambda>_. 0" "0x20002800"] by blast

end
