(* ===== verification/Startup.thy ===== *)
theory Startup
  imports Boot Contexts
begin

text \<open>
  From reset to \<open>main\<close>: the vector table and \<open>Reset_Handler\<close> of \<open>startup/startup_stm32f446re.S\<close>, and what
  the linker script \<open>linker/stm32f446re.ld\<close> says of the memory layout. The initialisation loops end at an
  address, so on a layout that the linker script cannot produce they need not end at all.
\<close>


section \<open>Linker script\<close>

definition FLASH_ORIGIN :: nat where [simp]: "FLASH_ORIGIN = 0x08000000"
definition FLASH_LENGTH :: nat where [simp]: "FLASH_LENGTH = 512 * 1024"
definition RAM_ORIGIN :: nat where [simp]: "RAM_ORIGIN = 0x20000000"
definition RAM_LENGTH :: nat where [simp]: "RAM_LENGTH = 128 * 1024"

text \<open>\<open>ALIGN(n)\<close>: the location counter rounded up.\<close>

definition ALIGN :: "nat \<Rightarrow> nat \<Rightarrow> nat" where
  "ALIGN n a = (a + n - 1) div n * n"

record linker_symbols =
  sym_estack :: u32
  sym_sidata :: u32
  sym_sdata :: u32
  sym_edata :: u32
  sym_sbss :: u32
  sym_ebss :: u32
  sym_end :: u32

text \<open>
  The symbols for \<open>data_size\<close> and \<open>bss_size\<close> bytes of input sections, where \<open>load_address\<close> is
  \<open>LOADADDR(.data)\<close>. The linker rejects an image that does not fit into a memory region.
\<close>

definition link_image :: "nat \<Rightarrow> nat \<Rightarrow> nat \<Rightarrow> linker_symbols option" where
  "link_image load_address data_size bss_size =
     (let sdata = ALIGN 4 RAM_ORIGIN;
          edata = ALIGN 4 (sdata + data_size);
          sbss = ALIGN 8 edata;
          ebss = ALIGN 8 (sbss + bss_size)
      in if FLASH_ORIGIN \<le> load_address \<and> load_address + (edata - sdata) \<le> FLASH_ORIGIN + FLASH_LENGTH \<and>
            ebss \<le> RAM_ORIGIN + RAM_LENGTH
         then Some \<lparr>sym_estack = of_nat (RAM_ORIGIN + RAM_LENGTH), sym_sidata = of_nat load_address,
           sym_sdata = of_nat sdata, sym_edata = of_nat edata, sym_sbss = of_nat sbss, sym_ebss = of_nat ebss,
           sym_end = of_nat (ALIGN 8 ebss)\<rparr>
         else None)"


section \<open>Vector table\<close>

datatype symbol = Reset_Handler_sym | NMI_Handler_sym | HardFault_Handler_sym | MemManage_Handler_sym | BusFault_Handler_sym
  | UsageFault_Handler_sym | SVC_Handler_sym | DebugMon_Handler_sym | PendSV_Handler_sym | SysTick_Handler_sym | Default_Handler_sym

datatype vector = Word u32 | Addr symbol

definition g_pfnVectors_table :: "u32 \<Rightarrow> vector list" where
  "g_pfnVectors_table estack =
     [Word estack, Addr Reset_Handler_sym, Addr NMI_Handler_sym, Addr HardFault_Handler_sym, Addr MemManage_Handler_sym,
      Addr BusFault_Handler_sym, Addr UsageFault_Handler_sym, Word 0, Word 0, Word 0, Word 0, Addr SVC_Handler_sym,
      Addr DebugMon_Handler_sym, Word 0, Addr PendSV_Handler_sym, Addr SysTick_Handler_sym]"

text \<open>\<open>WEAK_DEFAULT\<close>: a handler that no other file defines is \<open>Default_Handler\<close>, an endless loop.\<close>

definition WEAK_DEFAULT :: "(symbol \<Rightarrow> u32 option) \<Rightarrow> u32 \<Rightarrow> symbol \<Rightarrow> u32" where
  "WEAK_DEFAULT strong default_handler handler = (case strong handler of Some a \<Rightarrow> a | None \<Rightarrow> default_handler)"

fun vector_word :: "(symbol \<Rightarrow> u32) \<Rightarrow> vector \<Rightarrow> u32" where
  "vector_word address (Word w) = w"
| "vector_word address (Addr h) = address h"

text \<open>The handlers that the port defines (\<open>portasm.S\<close>, \<open>systick.c\<close>); for the faults with the number they report.\<close>

fun fault_number_of :: "symbol \<Rightarrow> u32 option" where
  "fault_number_of HardFault_Handler_sym = Some 3"
| "fault_number_of MemManage_Handler_sym = Some 4"
| "fault_number_of BusFault_Handler_sym = Some 5"
| "fault_number_of UsageFault_Handler_sym = Some 6"
| "fault_number_of _ = None"


section \<open>Reset handler\<close>

partial_function (option) copy_data :: "u32 \<Rightarrow> u32 \<Rightarrow> u32 \<Rightarrow> (u32 \<Rightarrow> u8) \<Rightarrow> (u32 \<Rightarrow> u8) option" where
  "copy_data r0 r1 r2 m = (if r2 \<le> r1 then Some m else copy_data (r0 + 4) (r1 + 4) r2 (store32 m r1 (load32 m r0)))"

partial_function (option) zero_bss :: "u32 \<Rightarrow> u32 \<Rightarrow> (u32 \<Rightarrow> u8) \<Rightarrow> (u32 \<Rightarrow> u8) option" where
  "zero_bss r0 r1 m = (if r1 \<le> r0 then Some m else zero_bss (r0 + 4) r1 (store32 m r0 0))"

text \<open>The registers of the peripherals and the memory with which \<open>main\<close> is called.\<close>

definition Reset_Handler :: "linker_symbols \<Rightarrow> u32 \<Rightarrow> mmio \<Rightarrow> (u32 \<Rightarrow> u8) \<Rightarrow> (mmio \<times> (u32 \<Rightarrow> u8)) option" where
  "Reset_Handler l g_pfnVectors io m =
     (case copy_data (sym_sidata l) (sym_sdata l) (sym_edata l) m of None \<Rightarrow> None
      | Some m \<Rightarrow> (case zero_bss (sym_sbss l) (sym_ebss l) m of None \<Rightarrow> None
          | Some m \<Rightarrow> Some (io(SCB_VTOR := g_pfnVectors), m)))"


section \<open>The loops\<close>

lemma words_shift: "map (\<lambda>i. load32 m (word_at a i)) [0..<Suc n] = load32 m a # map (\<lambda>i. load32 m (word_at (a + 4) i)) [0..<n]"
  unfolding map_upt_Suc by (simp add: word_at_def algebra_simps)

lemma loop_goes_on:
  assumes "unat a + 4 * Suc n = unat (b :: u32)"
  shows "\<not> b \<le> a" "unat (a + 4) + 4 * n = unat b"
proof -
  have u: "unat (a + 4) = unat a + 4"
  proof -
    have "unat a + 4 \<le> unat b" using assms by simp
    then have "unat a + 4 < 4294967296" using unat_lt_u32 [of b] by linarith
    then show ?thesis by (simp add: unat_word_ariths)
  qed
  show "\<not> b \<le> a" "unat (a + 4) + 4 * n = unat b" using assms u by (auto simp: word_le_nat_alt)
qed

lemma copy_data_words:
  assumes "unat r1 + 4 * n = unat r2" and "region r0 (4 * n) \<inter> region r1 (4 * n) = {}"
  shows "copy_data r0 r1 r2 m = Some (store_words m r1 (map (\<lambda>i. load32 m (word_at r0 i)) [0..<n]))"
  using assms
proof (induction n arbitrary: r0 r1 m)
  case 0
  then have "r1 = r2" by (simp add: word_unat_eq_iff)
  then show ?case by (subst copy_data.simps) simp
next
  case (Suc n)
  let ?m = "store32 m r1 (load32 m r0)"
  note go = loop_goes_on [OF Suc.prems(1)]
  have up: "region (a + 4) (4 * n) \<subseteq> region a (4 * Suc n)" "region a 4 \<subseteq> region a (4 * Suc n)" for a
    by (auto simp: region_def image_iff intro!: bexI [of _ "4 + _"])
  have dis: "region (r0 + 4) (4 * n) \<inter> region (r1 + 4) (4 * n) = {}" using Suc.prems(2) up(1) by blast
  have "?m x = m x" if "x \<in> region (r0 + 4) (4 * n)" for x
  proof -
    have "x \<notin> region r1 4" using that Suc.prems(2) up [of r0] up [of r1] by blast
    then show ?thesis using store_words_outside [of x r1 "[load32 m r0]" m] by simp
  qed
  then have "load32 ?m (word_at (r0 + 4) i) = load32 m (word_at (r0 + 4) i)" if "i < n" for i
    using that by (intro load_words_kept_n [of _ n])
  then have "map (\<lambda>i. load32 ?m (word_at (r0 + 4) i)) [0..<n] = map (\<lambda>i. load32 m (word_at (r0 + 4) i)) [0..<n]" by (intro map_cong) simp_all
  then show ?case
    unfolding words_shift using Suc.IH [OF go(2) dis, of ?m] go(1) by (simp only: copy_data.simps [of r0] if_False store_words.simps)
qed

lemma zero_bss_words:
  assumes "unat r0 + 4 * n = unat r1"
  shows "zero_bss r0 r1 m = Some (store_words m r0 (replicate n 0))"
  using assms
proof (induction n arbitrary: r0 m)
  case 0
  then have "r0 = r1" by (simp add: word_unat_eq_iff)
  then show ?case by (subst zero_bss.simps) simp
next
  case (Suc n)
  then show ?case using loop_goes_on [OF Suc.prems] Suc.IH [of "r0 + 4"] by (simp add: zero_bss.simps [of r0])
qed

text \<open>A loop whose end lies in the last word of the address space starts over at address 0.\<close>

lemma zero_bss_wraps: "zero_bss 0xFFFFFFFC 0xFFFFFFFD m = zero_bss 0 0xFFFFFFFD (store32 m 0xFFFFFFFC 0)"
proof -
  have "(0xFFFFFFFC :: u32) + 4 = 0" by (simp add: word_unat_eq_iff unat_word_ariths)
  moreover have "\<not> (0xFFFFFFFD :: u32) \<le> 0xFFFFFFFC" by (simp add: word_le_nat_alt)
  ultimately show ?thesis by (simp only: zero_bss.simps [of "0xFFFFFFFC"] if_False)
qed


section \<open>The layout\<close>

lemma ALIGN_bounds:
  assumes "0 < n"
  shows "a \<le> ALIGN n a" "ALIGN n a < a + n" "n dvd ALIGN n a"
proof -
  have d: "(a + n - 1) div n * n + (a + n - 1) mod n = a + n - 1" by (rule div_mult_mod_eq)
  have r: "(a + n - 1) mod n < n" using assms by simp
  show "a \<le> ALIGN n a" "ALIGN n a < a + n" using d r assms unfolding ALIGN_def by linarith+
  show "n dvd ALIGN n a" by (simp add: ALIGN_def)
qed


text \<open>
  The sections follow each other in RAM and their sizes are multiples of four bytes, which is what the
  loops rely on; the initial values are in flash.
\<close>

lemma link_image_layout:
  assumes "link_image load_address data_size bss_size = Some l"
  obtains n k where "unat (sym_sdata l) = RAM_ORIGIN" "unat (sym_edata l) = RAM_ORIGIN + 4 * n"
    "unat (sym_edata l) \<le> unat (sym_sbss l)" "unat (sym_ebss l) = unat (sym_sbss l) + 4 * k"
    "unat (sym_ebss l) \<le> RAM_ORIGIN + RAM_LENGTH" "data_size \<le> 4 * n" "bss_size \<le> 4 * k"
    "unat (sym_sidata l) = load_address" "load_address + 4 * n \<le> RAM_ORIGIN" "sym_estack l = 0x20020000"
proof -
  define ed where "ed = ALIGN 4 (RAM_ORIGIN + data_size)"
  define sb where "sb = ALIGN 8 ed"
  define eb where "eb = ALIGN 8 (sb + bss_size)"
  have sd: "ALIGN 4 RAM_ORIGIN = RAM_ORIGIN" by (simp add: ALIGN_def)
  have l: "l = \<lparr>sym_estack = of_nat (RAM_ORIGIN + RAM_LENGTH), sym_sidata = of_nat load_address, sym_sdata = of_nat RAM_ORIGIN,
      sym_edata = of_nat ed, sym_sbss = of_nat sb, sym_ebss = of_nat eb, sym_end = of_nat (ALIGN 8 eb)\<rparr>"
    and fits: "load_address + (ed - RAM_ORIGIN) \<le> FLASH_ORIGIN + FLASH_LENGTH" "eb \<le> RAM_ORIGIN + RAM_LENGTH"
    using assms unfolding link_image_def Let_def sd ed_def [symmetric] sb_def [symmetric] eb_def [symmetric]
    by (auto split: if_splits)
  have b: "RAM_ORIGIN + data_size \<le> ed" "4 dvd ed" "ed \<le> sb" "8 dvd sb" "sb + bss_size \<le> eb" "8 dvd eb"
    unfolding ed_def sb_def eb_def by (rule ALIGN_bounds, simp)+
  have "4 dvd ed - RAM_ORIGIN" using b(2) by (intro dvd_diff_nat) simp_all
  then obtain n where n: "ed = RAM_ORIGIN + 4 * n" using b(1) by (metis add_leD1 dvd_def le_add_diff_inverse)
  have "4 dvd sb" "4 dvd eb" using b(4,6) by (auto intro: dvd_trans [of 4 8])
  then have "4 dvd eb - sb" by (rule dvd_diff_nat [rotated])
  then obtain k where k: "eb = sb + 4 * k" using b(5) by (metis add_leD1 dvd_def le_add_diff_inverse)
  have u: "unat (sym_edata l) = ed" "unat (sym_sbss l) = sb" "unat (sym_ebss l) = eb" "unat (sym_sidata l) = load_address"
    "unat (sym_sdata l) = RAM_ORIGIN" "sym_estack l = 0x20020000"
    using fits b(3,5) by (simp_all add: l unat_of_nat32)
  show thesis
    by (rule that [of n k], unfold u) (use b(1,3,5) fits n k in simp_all)
qed


section \<open>Reset\<close>

text \<open>
  C13. Startup leaves the memory as C requires. For every image that the linker accepts, both loops of
  \<open>Reset_Handler\<close> end; then every word from \<open>_sdata\<close> up to \<open>_edata\<close> has its initial value from flash, every
  word from \<open>_sbss\<close> up to \<open>_ebss\<close> is zero, and no byte outside these two intervals has changed: the byte at
  \<open>_ebss\<close> and everything behind it is as it was. The intervals do not overlap, lie in RAM and hold the
  \<open>.data\<close> and \<open>.bss\<close> input sections. Of the peripherals only VTOR has changed, which holds the vector table. The boot snapshot that \<open>main\<close> takes next shows
  that vector table, the top of RAM as the initial stack pointer and the address of the reset handler.
\<close>

theorem reset_initialises_memory:
  assumes "link_image load_address data_size bss_size = Some l"
  shows "\<exists>io' m' n k. Reset_Handler l vectors io m = Some (io', m') \<and>
    unat (sym_edata l) = unat (sym_sdata l) + 4 * n \<and> unat (sym_ebss l) = unat (sym_sbss l) + 4 * k \<and>
    unat (sym_sdata l) = RAM_ORIGIN \<and> unat (sym_edata l) \<le> unat (sym_sbss l) \<and> unat (sym_ebss l) \<le> RAM_ORIGIN + RAM_LENGTH \<and>
    (\<forall>i < n. load32 m' (word_at (sym_sdata l) i) = load32 m (word_at (sym_sidata l) i)) \<and>
    (\<forall>i < k. load32 m' (word_at (sym_sbss l) i) = 0) \<and>
    (\<forall>x. \<not> (sym_sdata l \<le> x \<and> x < sym_edata l) \<and> \<not> (sym_sbss l \<le> x \<and> x < sym_ebss l) \<longrightarrow> m' x = m x) \<and>
    data_size \<le> 4 * n \<and> bss_size \<le> 4 * k \<and> io' = io(SCB_VTOR := vectors) \<and>
    (let snapshot = fst (main uio (\<lambda>i. vector_word address (g_pfnVectors_table (sym_estack l) ! i)) stack
        (power_on lm dl monitor_entry monitor_stack io' dev))
     in bs_vtor snapshot = vectors \<and> bs_initial_msp snapshot = 0x20020000 \<and> bs_reset_vector snapshot = address Reset_Handler_sym)"
proof -
  obtain n k where s: "unat (sym_sdata l) = RAM_ORIGIN" "unat (sym_edata l) = RAM_ORIGIN + 4 * n"
    "unat (sym_edata l) \<le> unat (sym_sbss l)" "unat (sym_ebss l) = unat (sym_sbss l) + 4 * k"
    "unat (sym_ebss l) \<le> RAM_ORIGIN + RAM_LENGTH" "data_size \<le> 4 * n" "bss_size \<le> 4 * k"
    "unat (sym_sidata l) = load_address" "load_address + 4 * n \<le> RAM_ORIGIN" "sym_estack l = 0x20020000"
    by (rule link_image_layout [OF assms])
  let ?d = "map (\<lambda>i. load32 m (word_at (sym_sidata l) i)) [0..<n]"
  let ?m1 = "store_words m (sym_sdata l) ?d"
  let ?m2 = "store_words ?m1 (sym_sbss l) (replicate k 0)"
  have d1: "region (sym_sidata l) (4 * n) \<inter> region (sym_sdata l) (4 * n) = {}"
    by (rule region_disjoint) (use s in simp_all)
  have d2: "region (sym_sdata l) (4 * n) \<inter> region (sym_sbss l) (4 * k) = {}"
    by (rule region_disjoint) (use s in simp_all)
  have reset: "Reset_Handler l vectors io m = Some (io(SCB_VTOR := vectors), ?m2)"
    using copy_data_words [OF _ d1, of "sym_edata l" m] zero_bss_words [of "sym_sbss l" k "sym_ebss l" ?m1] s
    by (simp add: Reset_Handler_def)
  have n: "n < 1073741824" "k < 1073741824" using s(2-5) by simp_all
  have "load32 ?m2 (word_at (sym_sdata l) i) = load32 m (word_at (sym_sidata l) i)" if "i < n" for i
  proof -
    have "load32 ?m2 (word_at (sym_sdata l) i) = load32 ?m1 (word_at (sym_sdata l) i)"
      using that d2 by (intro load_words_kept_n [of _ n] store_words_outside) auto
    then show ?thesis using load32_store_words [of 0 ?d i m "sym_sdata l"] that n by (simp add: word_at_def)
  qed
  moreover have "load32 ?m2 (word_at (sym_sbss l) i) = 0" if "i < k" for i
    using load32_store_words [of 0 "replicate k 0" i ?m1 "sym_sbss l"] that n by (simp add: word_at_def)
  moreover have "?m2 x = m x" if "x \<notin> region (sym_sdata l) (4 * n) \<union> region (sym_sbss l) (4 * k)" for x
    using that store_words_outside [of x "sym_sdata l" ?d m] store_words_outside [of x "sym_sbss l" "replicate k 0" ?m1] by simp
  then have "?m2 x = m x" if "\<not> (sym_sdata l \<le> x \<and> x < sym_edata l)" "\<not> (sym_sbss l \<le> x \<and> x < sym_ebss l)" for x
    using that region_interval [of "sym_edata l" "sym_sdata l" "4 * n" x] region_interval [of "sym_ebss l" "sym_sbss l" "4 * k" x] s(1,2,4)
    by auto
  ultimately show ?thesis
    using reset s(1-7,10)
    by (intro exI [of _ "io(SCB_VTOR := vectors)"] exI [of _ ?m2] exI [of _ n] exI [of _ k])
      (simp add: main_def power_on_def fr_arch_capture_boot_snapshot_def g_pfnVectors_table_def Let_def)
qed

text \<open>An image with five bytes of initialised data behind a kilobyte of code, and ten zeroed bytes.\<close>

theorem reset_initialises_memory_witness:
  "\<exists>l io' m' n. link_image 0x08000400 5 10 = Some l \<and> Reset_Handler l 0x08000000 (\<lambda>_. 0) (\<lambda>_. 7) = Some (io', m') \<and> 5 \<le> 4 * n \<and>
     (\<forall>i < n. load32 m' (word_at (sym_sdata l) i) = 0x07070707)"
proof -
  obtain l where l: "link_image 0x08000400 5 10 = Some l" by (simp add: link_image_def Let_def ALIGN_def)
  obtain io' m' n where "Reset_Handler l 0x08000000 (\<lambda>_. 0) (\<lambda>_. 7) = Some (io', m')" "5 \<le> 4 * n"
    "\<forall>i < n. load32 m' (word_at (sym_sdata l) i) = load32 (\<lambda>_. 7) (word_at (sym_sidata l) i)"
    using reset_initialises_memory [OF l, of "0x08000000" "\<lambda>_. 0" "\<lambda>_. 7" slow_io "\<lambda>_. 0x08000101" "0x20002800"
        example_links example_demo_links "0x08001201" "0x20002600" "(0, [])"] by meson
  then show ?thesis using l by (auto simp: load32_def)
qed

text \<open>
  An exception is handled by its own handler: the fault handlers report the exception number of the
  vector they are in, the kernel's three exceptions have the vectors 11, 14 and 15, and a vector
  without a handler of its own enters \<open>Default_Handler\<close>.
\<close>

lemma vectors_dispatch:
  "length (g_pfnVectors_table e) = 16"
  "i < 16 \<Longrightarrow> g_pfnVectors_table e ! i = Addr h \<Longrightarrow> fault_number_of h = Some f \<Longrightarrow> f = of_nat i"
  "g_pfnVectors_table e ! 11 = Addr SVC_Handler_sym" "g_pfnVectors_table e ! 14 = Addr PendSV_Handler_sym"
  "g_pfnVectors_table e ! 15 = Addr SysTick_Handler_sym"
  "strong h = None \<Longrightarrow> vector_word (WEAK_DEFAULT strong d) (Addr h) = d"
proof -
  show "f = of_nat i" if i: "i < 16" "g_pfnVectors_table e ! i = Addr h" "fault_number_of h = Some f"
  proof -
    have "i \<in> {0, 1, 2, 3, 4, 5, 6, 7, 8, 9, 10, 11, 12, 13, 14, 15}" using i(1) by (auto simp: less_Suc_eq numeral_eq_Suc)
    then show ?thesis using i(2,3) by (auto simp: g_pfnVectors_table_def)
  qed
qed (simp_all add: g_pfnVectors_table_def WEAK_DEFAULT_def)

end
