(* ===== verification/Firmware.thy ===== *)
theory Firmware
  imports Boot Contexts
begin

text \<open>
  The release firmware as one system: the kernel, the interrupts and the three tasks that \<open>src/main.c\<close>
  creates, from power-on. The producer and the consumer run the code of \<open>src/demo.c\<close>, interleaved
  with everything else at every kernel call and interrupt; of the monitor only its kernel calls
  matter here, and what it and the idle task do in between is arbitrary. Every step is a step of the
  kernel's system or leaves the kernel alone, so the properties of reachable kernel states hold here.
\<close>


section \<open>Steps\<close>

record firmware =
  fw_kernel :: kernel
  fw_waits :: "task_ptr \<Rightarrow> continuation option"
  fw_demo :: demo
  fw_mmio :: mmio
  fw_producer :: producer
  fw_consumer :: consumer

abbreviation producer_task :: task_ptr where "producer_task \<equiv> Pool 0"
abbreviation consumer_task :: task_ptr where "consumer_task \<equiv> Pool 1"
abbreviation monitor_task :: task_ptr where "monitor_task \<equiv> Pool 2"

text \<open>The memory that the demonstration relies on: the storage of the queue and the two message buffers.\<close>

definition shared :: "demo_links \<Rightarrow> u32 \<Rightarrow> u32 \<Rightarrow> u32 set" where
  "shared l mp mc = region (dl_queue_storage l) 64 \<union> region mp 8 \<union> region mc 8"

definition messages_placed :: "demo_links \<Rightarrow> u32 \<Rightarrow> u32 \<Rightarrow> bool" where
  "messages_placed l mp mc \<longleftrightarrow> dl_queue l \<noteq> 0 \<and> mp \<noteq> 0 \<and> mc \<noteq> 0 \<and> region mp 8 \<inter> region (dl_queue_storage l) 64 = {} \<and>
     region mc 8 \<inter> region (dl_queue_storage l) 64 = {} \<and> region mp 8 \<inter> region mc 8 = {}"

text \<open>What a finished or suspended call leaves in the table of continuations.\<close>

fun left_waiting :: "bool call \<Rightarrow> continuation \<Rightarrow> continuation option" where
  "left_waiting Suspended x = Some x"
| "left_waiting (Returned b) x = None"

fun producer_after :: "bool call \<Rightarrow> kernel \<Rightarrow> producer \<Rightarrow> producer" where
  "producer_after Suspended s t = t"
| "producer_after (Returned ok) s t = producer_returned ok s t"

fun consumer_after :: "bool call \<Rightarrow> consumer \<Rightarrow> consumer" where
  "consumer_after Suspended t = t"
| "consumer_after (Returned ok) t = consumer_returned ok t"

text \<open>
  In every rule the stack pointer of the running task has room for a register frame, and neither a
  register frame nor the code of other tasks touches the shared memory.
\<close>

inductive fw_step :: "demo_links \<Rightarrow> u32 \<Rightarrow> u32 \<Rightarrow> firmware \<Rightarrow> firmware \<Rightarrow> bool" for l mp mc where
  tick: "SysTick_Handler (fw_kernel f) = Ret () k' \<Longrightarrow> fw_step l mp mc f (f\<lparr>fw_kernel := k'\<rparr>)"
| switch: "pendsv_pending (fw_kernel f) \<Longrightarrow> g_fr_scheduler_current_task (fw_kernel f) = Some p \<Longrightarrow>
     fr_scheduler_saved_sp_valid (Some p) (cpu_psp (cpu (fw_kernel f)) - 32) (fw_kernel f) \<Longrightarrow> length regs = 8 \<Longrightarrow>
     region (cpu_psp (cpu (fw_kernel f)) - 32) 32 \<inter> shared l mp mc = {} \<Longrightarrow>
     PendSV_Handler regs (fw_kernel f) = Ret loaded k' \<Longrightarrow> fw_step l mp mc f (f\<lparr>fw_kernel := k'\<rparr>)"
| run: "g_fr_scheduler_current_task (fw_kernel f) = Some p \<Longrightarrow> \<not> pendsv_pending (fw_kernel f) \<Longrightarrow>
     fr_scheduler_saved_sp_valid (Some p) (sp - 32) (fw_kernel f) \<Longrightarrow>
     (\<And>x. x \<in> shared l mp mc \<Longrightarrow> m x = ram (fw_kernel f) x) \<Longrightarrow>
     fw_step l mp mc f (f\<lparr>fw_kernel := (fw_kernel f)\<lparr>ram := m, cpu := (cpu (fw_kernel f))\<lparr>cpu_psp := sp\<rparr>\<rparr>\<rparr>)"
| producer_code: "executing producer_task (fw_kernel f) \<Longrightarrow> fw_waits f producer_task = None \<Longrightarrow>
     producer_call l (fw_producer f) = None \<Longrightarrow>
     fr_scheduler_saved_sp_valid (Some producer_task) (cpu_psp (cpu (fw_kernel f)) - 32) (fw_kernel f) \<Longrightarrow>
     fr_release_demo_producer_entry (fw_kernel f) (fw_demo f) (fw_producer f) = (k', d', t') \<Longrightarrow>
     fw_step l mp mc f (f\<lparr>fw_kernel := k', fw_demo := d', fw_producer := t'\<rparr>)"
| producer_calls: "executing producer_task (fw_kernel f) \<Longrightarrow> fw_waits f producer_task = None \<Longrightarrow>
     producer_call l (fw_producer f) = Some op \<Longrightarrow> exec op (fw_kernel f) = Ret r k' \<Longrightarrow>
     fw_step l mp mc f (f\<lparr>fw_kernel := k',
       fw_waits := (fw_waits f)(producer_task := left_waiting r (continuation_of op (fw_kernel f))),
       fw_producer := producer_after r k' (fw_producer f)\<rparr>)"
| producer_resumes: "executing producer_task (fw_kernel f) \<Longrightarrow> fw_waits f producer_task = Some x \<Longrightarrow>
     resume x producer_task (fw_kernel f) = Ret r k' \<Longrightarrow>
     fw_step l mp mc f (f\<lparr>fw_kernel := k', fw_waits := (fw_waits f)(producer_task := left_waiting r x),
       fw_producer := producer_after r k' (fw_producer f)\<rparr>)"
| consumer_code: "executing consumer_task (fw_kernel f) \<Longrightarrow> fw_waits f consumer_task = None \<Longrightarrow>
     consumer_call l (fw_consumer f) = None \<Longrightarrow>
     fr_release_demo_consumer_entry (fw_kernel f) (fw_demo f) (fw_mmio f) (fw_consumer f) = (k', d', m', t') \<Longrightarrow>
     fw_step l mp mc f (f\<lparr>fw_kernel := k', fw_demo := d', fw_mmio := m', fw_consumer := t'\<rparr>)"
| consumer_calls: "executing consumer_task (fw_kernel f) \<Longrightarrow> fw_waits f consumer_task = None \<Longrightarrow>
     consumer_call l (fw_consumer f) = Some op \<Longrightarrow> exec op (fw_kernel f) = Ret r k' \<Longrightarrow>
     fw_step l mp mc f (f\<lparr>fw_kernel := k',
       fw_waits := (fw_waits f)(consumer_task := left_waiting r (continuation_of op (fw_kernel f))),
       fw_consumer := consumer_after r (fw_consumer f)\<rparr>)"
| consumer_resumes: "executing consumer_task (fw_kernel f) \<Longrightarrow> fw_waits f consumer_task = Some x \<Longrightarrow>
     resume x consumer_task (fw_kernel f) = Ret r k' \<Longrightarrow>
     fw_step l mp mc f (f\<lparr>fw_kernel := k', fw_waits := (fw_waits f)(consumer_task := left_waiting r x),
       fw_consumer := consumer_after r (fw_consumer f)\<rparr>)"
| monitor_calls: "executing monitor_task (fw_kernel f) \<Longrightarrow> fw_waits f monitor_task = None \<Longrightarrow>
     exec (Sleep FR_RELEASE_MONITOR_POLL_TICKS) (fw_kernel f) = Ret r k' \<Longrightarrow>
     fw_step l mp mc f (f\<lparr>fw_kernel := k', fw_waits := (fw_waits f)(monitor_task := left_waiting r AfterSleep)\<rparr>)"
| monitor_resumes: "executing monitor_task (fw_kernel f) \<Longrightarrow> fw_waits f monitor_task = Some x \<Longrightarrow>
     resume x monitor_task (fw_kernel f) = Ret r k' \<Longrightarrow>
     fw_step l mp mc f (f\<lparr>fw_kernel := k', fw_waits := (fw_waits f)(monitor_task := left_waiting r x)\<rparr>)"

inductive fw_reachable :: "'d usart_io \<Rightarrow> link_map \<Rightarrow> demo_links \<Rightarrow> u32 \<Rightarrow> u32 \<Rightarrow> firmware \<Rightarrow> bool" for io lm l mp mc where
  start: "release_placed (power_on lm l monitor_entry monitor_stack m dev) \<Longrightarrow>
     snd (main io vectors stack (power_on lm l monitor_entry monitor_stack m dev)) = Ret (True, w) k \<Longrightarrow>
     fw_reachable io lm l mp mc \<lparr>fw_kernel = k, fw_waits = (\<lambda>_. None), fw_demo = rl_demo w, fw_mmio = uart_mmio (rl_uart w),
       fw_producer = producer_start mp, fw_consumer = consumer_start mc\<rparr>"
| more: "fw_reachable io lm l mp mc f \<Longrightarrow> fw_step l mp mc f f' \<Longrightarrow> fw_reachable io lm l mp mc f'"


section \<open>The firmware runs on the kernel's system\<close>

lemma left_waiting_if: "left_waiting r x = (if r = Suspended then Some x else None)"
  by (cases r) simp_all

lemma local_code_kernel:
  "fst (fr_release_demo_record_send_error s d) = s" "fst (fr_release_demo_record_receive_error s d) = s"
  "fst (producer_record t s d) = s" "fst (consumer_record u s d) = s"
  by (simp_all add: fr_release_demo_record_send_error_def fr_release_demo_record_receive_error_def producer_record_def
      consumer_record_def Let_def split_beta split: if_splits)

lemma producer_code_kernel:
  assumes "fr_release_demo_producer_entry s d t = (s', d', t')"
  shows "s' = s \<or> pr_pc t = P_Message \<and> s' = producer_message t s"
  using assms local_code_kernel(1,3)
  by (auto simp: fr_release_demo_producer_entry_def split: producer_pc.splits prod.splits) (metis fst_conv)+

lemma consumer_code_kernel:
  assumes "fr_release_demo_consumer_entry s d m t = (s', d', m', t')"
  shows "s' = s"
  using assms local_code_kernel(2,4)
  by (auto simp: fr_release_demo_consumer_entry_def split: consumer_pc.splits prod.splits) (metis fst_conv)+

lemma fw_step_system:
  assumes "fw_step l mp mc f f'"
  shows "(fw_kernel f', fw_waits f') = (fw_kernel f, fw_waits f) \<or>
    (\<exists>lb. step lb (fw_kernel f, fw_waits f) (fw_kernel f', fw_waits f'))"
  using assms
proof cases
  case (tick k')
  then show ?thesis using step.tick by fastforce
next
  case (switch p regs loaded k')
  then show ?thesis using step.switch [of "fw_kernel f" p regs loaded k' "fw_waits f"] by auto
next
  case (run p sp m)
  then show ?thesis using step.run [of "fw_kernel f" p sp "fw_waits f" m] by auto
next
  case (producer_code k' d' t')
  let ?k = "fw_kernel f"
  have "step Run (?k, c) (?k\<lparr>ram := mem, cpu := (cpu ?k)\<lparr>cpu_psp := cpu_psp (cpu ?k)\<rparr>\<rparr>, c)" for mem c
    by (rule step.run [of ?k producer_task]) (use producer_code in \<open>auto simp: executing_def\<close>)
  then have "step Run (?k, fw_waits f) (producer_message (fw_producer f) ?k, fw_waits f)"
    by (simp add: producer_message_def)
  then show ?thesis using producer_code_kernel [OF producer_code(6)] producer_code(1) by auto
next
  case (producer_calls op r k')
  then show ?thesis using step.call [of producer_task "fw_kernel f" "fw_waits f" op r k'] by (auto simp: left_waiting_if)
next
  case (producer_resumes x r k')
  then show ?thesis using step.resume [of producer_task "fw_kernel f" "fw_waits f" x r k'] by (auto simp: left_waiting_if)
next
  case (consumer_code k' d' m' t')
  then show ?thesis using consumer_code_kernel [OF consumer_code(5)] by simp
next
  case (consumer_calls op r k')
  then show ?thesis using step.call [of consumer_task "fw_kernel f" "fw_waits f" op r k'] by (auto simp: left_waiting_if)
next
  case (consumer_resumes x r k')
  then show ?thesis using step.resume [of consumer_task "fw_kernel f" "fw_waits f" x r k'] by (auto simp: left_waiting_if)
next
  case (monitor_calls r k')
  then show ?thesis
    using step.call [of monitor_task "fw_kernel f" "fw_waits f" "Sleep FR_RELEASE_MONITOR_POLL_TICKS" r k']
    by (auto simp: left_waiting_if)
next
  case (monitor_resumes x r k')
  then show ?thesis using step.resume [of monitor_task "fw_kernel f" "fw_waits f" x r k'] by (auto simp: left_waiting_if)
qed

lemma fw_system: "fw_reachable io lm l mp mc f \<Longrightarrow> reachable lm (fw_kernel f, fw_waits f)"
proof (induction rule: fw_reachable.induct)
  case (start monitor_entry monitor_stack m dev vectors stack w k)
  then show ?case using boots [OF start(1), of io vectors stack] by auto
next
  case (more f f')
  from fw_step_system [OF more(2)] show ?case
  proof
    assume "(fw_kernel f', fw_waits f') = (fw_kernel f, fw_waits f)"
    then show ?thesis using more.IH by simp
  next
    assume "\<exists>lb. step lb (fw_kernel f, fw_waits f) (fw_kernel f', fw_waits f')"
    then show ?thesis using reachable.more [OF more.IH] by blast
  qed
qed


section \<open>Waiting without a deadline\<close>

text \<open>The task is not, and cannot be, timed out.\<close>

definition untimed :: "kernel \<Rightarrow> task_ptr \<Rightarrow> bool" where
  "untimed k q \<longleftrightarrow> wait_result (tcb k q) \<noteq> RESULT_TIMEOUT \<and> (task_state (tcb k q) = STATE_BLOCKED \<longrightarrow> \<not> wait_has_deadline (tcb k q))"

lemma untimed_cong: "tcb k' q = tcb k q \<Longrightarrow> untimed k' q = untimed k q"
  by (simp add: untimed_def)

text \<open>A step of the kernel on behalf of \<open>P\<close> that leaves the demonstration's memory and objects alone.\<close>

definition quiet :: "u32 set \<Rightarrow> task_ptr set \<Rightarrow> kernel \<Rightarrow> kernel \<Rightarrow> bool" where
  "quiet S P k k' \<longleftrightarrow> objects k' = objects k \<and> (\<forall>x \<in> S. ram k' x = ram k x) \<and> (\<forall>q. q \<notin> P \<longrightarrow> untimed k q \<longrightarrow> untimed k' q)"

lemma quiet_refl: "quiet S P k k"
  by (simp add: quiet_def)

lemma quiet_tick:
  assumes "system_ok (k, c)" and "SysTick_Handler k = Ret () k'"
  shows "quiet S {} k k'"
proof -
  note ok = system_okD [OF assms(1)]
  obtain s1 k2 where t: "SysTick_Handler k = Ret () k2"
    and e: "expired_in (g_fr_kernel_tick_count k + 1) (registered k) (k\<lparr>g_fr_kernel_tick_count := g_fr_kernel_tick_count k + 1\<rparr>) s1"
    and k2: "k2 = (if fr_scheduler_select_next (g_fr_scheduler_current_task k) s1 \<noteq> g_fr_scheduler_current_task k
           then fr_port_request_context_switch s1 else s1)"
    using tick_ok [OF ok(1,3)] by metis
  have "k' = k2" using t assms(2) by simp
  then have f: "tcb k' = tcb s1" "objects k' = objects s1" "ram k' = ram s1" using k2 by simp_all
  have o: "objects s1 = objects k" "ram s1 = ram k" using e by (simp_all add: expired_in_def outside_same_def)
  have "untimed k' q" if "untimed k q" for q
  proof -
    have "\<not> expires now (tcb k q)" for now using that by (auto simp: untimed_def expires_def)
    then have "tcb s1 q = (tcb k q)\<lparr>priority := prio s1 q\<rparr>" using e by (simp add: expired_in_def)
    then show ?thesis using that by (simp add: untimed_def f(1))
  qed
  then show ?thesis using f o by (simp add: quiet_def)
qed

lemma quiet_switch:
  assumes "system_ok (k, c)" and "g_fr_scheduler_current_task k = Some p"
    and "fr_scheduler_saved_sp_valid (Some p) (cpu_psp (cpu k) - 32) k" and "length regs = 8"
    and "region (cpu_psp (cpu k) - 32) 32 \<inter> S = {}" and "PendSV_Handler regs k = Ret loaded k'"
  shows "quiet S {} k k'"
proof -
  note ok = system_okD [OF assms(1)]
  let ?sp = "cpu_psp (cpu k) - 32"
  let ?u = "k\<lparr>pendsv_pending := False, ram := store_words (ram k) ?sp regs\<rparr>"
  obtain q s1 where sw: "fr_scheduler_switch_from_isr ?sp ?u = Ret (saved_sp (tcb s1 q)) s1" "switched_ok p q ?sp ?u s1"
    "fr_scheduler_saved_sp_valid (Some q) (saved_sp (tcb s1 q)) s1"
    using switch_ok [OF ok(1,3) assms(2,3) refl] by metis
  have nz: "saved_sp (tcb s1 q) \<noteq> 0" using sw(3) by (auto simp: fr_scheduler_saved_sp_valid_def split: if_splits)
  have "k' = s1\<lparr>cpu := (cpu s1)\<lparr>cpu_psp := saved_sp (tcb s1 q) + 32\<rparr>\<rparr>"
    using assms(6) sw(1) nz by (simp add: PendSV_Handler_def Let_def)
  then have f: "tcb k' = switched_tcb p q ?sp k" "objects k' = objects k" "ram k' = store_words (ram k) ?sp regs"
    using sw(2) switched_tcb_cong [of ?u k] by (simp_all add: switched_ok_def)
  have "ram k' x = ram k x" if "x \<in> S" for x
    using that assms(4,5) store_words_outside [of x ?sp regs] unfolding f(3) by auto
  moreover have "untimed k' x" if "untimed k x" for x using that by (auto simp: untimed_def f(1) switched_tcb_def split: if_splits)
  ultimately show ?thesis using f(2) by (simp add: quiet_def)
qed

lemma sleep_result:
  assumes "system_ok (k, c)" and "executing p k" and "d \<noteq> 0" and "d \<le> FR_TASK_SLEEP_MAX_TICKS" and "exec (Sleep d) k = Ret r k'"
  shows "r = Suspended" "quiet S {p} k k'"
proof -
  have "exec (Sleep d) k = Ret Suspended (suspended p WAIT_SLEEP 0 d k)"
    using sleep_call [OF executing_caller [OF assms(1,2)] assms(3,4)] by simp
  then have k': "r = Suspended" "k' = suspended p WAIT_SLEEP 0 d k" using assms(5) by simp_all
  show "r = Suspended" by (rule k')
  have "tcb k' q = tcb k q" if "q \<noteq> p" for q using that by (simp add: k'(2))
  then show "quiet S {p} k k'" using untimed_cong [of k' _ k] by (auto simp: quiet_def k'(2))
qed

lemma sleep_resumed:
  assumes "system_ok (k, c)" and "executing p k" and "c p = Some AfterSleep" and "resume AfterSleep p k = Ret r k'"
  shows "r = Returned True" "k' = k"
proof -
  have "blocked_on k p = None"
    using caller_facts(11) [OF executing_caller [OF assms(1,2)]] by (simp add: blocked_on_def)
  then have "wait_result (tcb k p) = RESULT_TIMEOUT"
    using system_okD(6) [OF assms(1,3)] by (auto simp: continuation_ok_def wview_def)
  then show "r = Returned True" "k' = k" using assms(4) by (simp_all add: fr_task_sleep_resume_def)
qed


section \<open>The queue calls of the demonstration\<close>

lemma signalled:
  assumes "system_ok (k, c)" and "executing p k" and "c p = Some x" and "untimed k p"
  shows "wait_result (tcb k p) = RESULT_SIGNALED"
proof -
  have "blocked_on k p = None"
    using caller_facts(11) [OF executing_caller [OF assms(1,2)]] by (simp add: blocked_on_def)
  then show ?thesis
    using system_okD(6) [OF assms(1,3)] assms(4) by (auto simp: continuation_ok_def wview_def untimed_def)
qed

lemma send_effect:
  assumes "system_ok (k, c)" and "executing p k" and "objects k a = Queue q" and "a \<noteq> 0" and "item \<noteq> 0"
    and "region item (unat (q_item_size q)) \<inter> storage_region q = {}"
    and "exec (Send a item FR_QUEUE_WAIT_FOREVER) k = Ret r k' \<or>
      c p = Some (AfterSend a item to) \<and> to_wait_forever to \<and> untimed k p \<and> resume (AfterSend a item to) p k = Ret r k'"
  shows "queue_send_post p a q item True FR_WAIT_FOREVER k r k'"
proof -
  have cl: "caller p k" by (rule executing_caller [OF assms(1,2)])
  have args: "wait_args_ok WAIT_QUEUE_SEND a FR_WAIT_FOREVER" using assms(4) by (simp add: wait_args_ok_def)
  show ?thesis
  proof (cases "exec (Send a item FR_QUEUE_WAIT_FOREVER) k = Ret r k'")
    case True
    then show ?thesis using send_wait_post [OF cl assms(3-6), of FR_WAIT_FOREVER] by auto
  next
    case False
    then have x: "c p = Some (AfterSend a item to)" "to_wait_forever to" "untimed k p" "resume (AfterSend a item to) p k = Ret r k'"
      using assms(7) by auto
    then have "fr_queue_send_pass a item to k = Ret r k'"
      using signalled [OF assms(1,2) x(1,3)] by (simp add: fr_queue_send_resume_def)
    moreover have "fr_wait_timeout_remaining to k = (True, FR_WAIT_FOREVER)" using x(2) by (simp add: fr_wait_timeout_remaining_def)
    ultimately show ?thesis using send_pass_post [OF cl assms(3,4,6)] args by fastforce
  qed
qed

lemma receive_effect:
  assumes "system_ok (k, c)" and "executing p k" and "objects k a = Queue q" and "a \<noteq> 0" and "item \<noteq> 0"
    and "region item (unat (q_item_size q)) \<inter> storage_region q = {}"
    and "exec (Receive a item FR_QUEUE_WAIT_FOREVER) k = Ret r k' \<or>
      c p = Some (AfterReceive a item to) \<and> to_wait_forever to \<and> untimed k p \<and> resume (AfterReceive a item to) p k = Ret r k'"
  shows "queue_receive_post p a q item True FR_WAIT_FOREVER k r k'"
proof -
  have cl: "caller p k" by (rule executing_caller [OF assms(1,2)])
  have args: "wait_args_ok WAIT_QUEUE_RECEIVE a FR_WAIT_FOREVER" using assms(4) by (simp add: wait_args_ok_def)
  show ?thesis
  proof (cases "exec (Receive a item FR_QUEUE_WAIT_FOREVER) k = Ret r k'")
    case True
    then show ?thesis using receive_wait_post [OF cl assms(3-6), of FR_WAIT_FOREVER] by auto
  next
    case False
    then have x: "c p = Some (AfterReceive a item to)" "to_wait_forever to" "untimed k p"
      "resume (AfterReceive a item to) p k = Ret r k'"
      using assms(7) by auto
    then have "fr_queue_receive_pass a item to k = Ret r k'"
      using signalled [OF assms(1,2) x(1,3)] by (simp add: fr_queue_receive_resume_def)
    moreover have "fr_wait_timeout_remaining to k = (True, FR_WAIT_FOREVER)" using x(2) by (simp add: fr_wait_timeout_remaining_def)
    ultimately show ?thesis using receive_pass_post [OF cl assms(3,4,6)] args by fastforce
  qed
qed

text \<open>Neither call times out another task, nor leaves its own caller with a deadline.\<close>

lemma wake_untimed: "wake_post r a k k' \<Longrightarrow> untimed k x \<Longrightarrow> untimed k' x"
  unfolding wake_post_def untimed_def by (metis fr_task_state.distinct fr_wait_result.distinct)

lemma suspend_untimed: "suspend_post p r a n k k' \<Longrightarrow> x \<noteq> p \<Longrightarrow> untimed k x \<Longrightarrow> untimed k' x"
  by (simp add: suspend_post_def untimed_def)

lemma posts_untimed:
  "queue_send_post p a q item b n k r k' \<Longrightarrow> x \<noteq> p \<Longrightarrow> untimed k x \<Longrightarrow> untimed k' x"
  "queue_receive_post p a q item b n k r k' \<Longrightarrow> x \<noteq> p \<Longrightarrow> untimed k x \<Longrightarrow> untimed k' x"
  unfolding queue_send_post_def queue_receive_post_def
  by (auto split: if_splits intro: wake_untimed suspend_untimed)

lemma suspended_untimed:
  assumes "system_ok (k', c')" and "c' p = Some x" and "suspend_post p r a FR_WAIT_FOREVER k k'"
  shows "untimed k' p"
proof -
  have "p \<in> queue_waiters r a k'" "\<not> wait_has_deadline (tcb k' p)" using assms(3) by (auto simp: suspend_post_def)
  then have "blocked_on k' p \<noteq> None" by (auto simp: queue_waiters_def waiting_def blocked_on_def)
  then have "wait_result (tcb k' p) = RESULT_PENDING"
    using system_okD(6) [OF assms(1,2)] by (auto simp: continuation_ok_def wview_def)
  then show ?thesis using \<open>\<not> wait_has_deadline (tcb k' p)\<close> by (simp add: untimed_def)
qed


section \<open>The invariant of the demonstration\<close>

definition item_sequence :: "u8 list \<Rightarrow> u32" where
  "item_sequence bs = load32 (\<lambda>a. bs ! unat a) 0"

lemma item_sequence_buffer: "item_sequence (buffer m a 8) = message_sequence m a"
  by (simp add: item_sequence_def message_sequence_def buffer_def load32_def)

lemma message_cong: "(\<And>x. x \<in> region a 8 \<Longrightarrow> m' x = m x) \<Longrightarrow> message_sequence m' a = message_sequence m a"
  using buffer_cong [of a 8 m' m] item_sequence_buffer by metis

definition consecutive :: "u32 \<Rightarrow> nat \<Rightarrow> u32 list" where
  "consecutive a n = map (\<lambda>i. a + of_nat i) [0..<n]"

lemma consecutive_Suc: "consecutive a (Suc n) = consecutive a n @ [a + of_nat n]"
  by (simp add: consecutive_def)

lemma consecutive_Cons: "consecutive a (Suc n) = a # consecutive (a + 1) n"
proof (induction n)
  case 0
  then show ?case by (simp add: consecutive_def)
next
  case (Suc n)
  then show ?case using consecutive_Suc [of a "Suc n"] consecutive_Suc [of "a + 1" n] by (simp add: add.assoc)
qed

text \<open>A message that the consumer has taken from the queue and not yet accounted for.\<close>

definition taken :: "consumer \<Rightarrow> bool" where
  "taken u \<longleftrightarrow> co_pc u \<in> {C_Latency, C_Record}"

definition counters_ok :: "fr_release_demo_status \<Rightarrow> producer \<Rightarrow> consumer \<Rightarrow> bool" where
  "counters_ok s t u \<longleftrightarrow> ds_order_errors s = 0 \<and> ds_send_errors s = 0 \<and> ds_receive_errors s = 0 \<and> ds_task_create_errors s = 0 \<and>
     ds_last_received_sequence s = ds_messages_received s \<and> ds_last_sent_sequence s = ds_messages_sent s \<and>
     co_expected_sequence u = ds_messages_received s + 1 \<and> pr_sequence t = ds_messages_sent s + of_bool (pr_pc t = P_Record)"

definition in_transit :: "demo_links \<Rightarrow> kernel \<Rightarrow> producer \<Rightarrow> consumer \<Rightarrow> bool" where
  "in_transit l k t u \<longleftrightarrow> (\<exists>q. objects k (dl_queue l) = Queue q \<and> q_storage q = dl_queue_storage l \<and> q_capacity q = 8 \<and>
     q_item_size q = 8 \<and>
     map item_sequence (queue_items q (ram k)) = consecutive (co_expected_sequence u + of_bool (taken u)) (unat (q_count q)) \<and>
     co_expected_sequence u + of_bool (taken u) + q_count q = pr_sequence t + 1)"

definition demo_ok :: "demo_links \<Rightarrow> u32 \<Rightarrow> u32 \<Rightarrow> kernel \<Rightarrow> demo \<Rightarrow> producer \<Rightarrow> consumer \<Rightarrow> bool" where
  "demo_ok l mp mc k d t u \<longleftrightarrow> dlinks d = l \<and> pr_message t = mp \<and> co_message u = mc \<and> in_transit l k t u \<and>
     (pr_pc t = P_Send \<longrightarrow> message_sequence (ram k) mp = pr_sequence t + 1) \<and>
     (taken u \<longrightarrow> message_sequence (ram k) mc = co_expected_sequence u) \<and>
     pr_pc t \<notin> {P_SendFailed, P_SleepFailed} \<and> co_pc u \<noteq> C_ReceiveFailed \<and> counters_ok (g_fr_release_demo_status d) t u"

lemma queue_items_cong:
  assumes "queue_ok q" and "\<And>x. x \<in> storage_region q \<Longrightarrow> m' x = m x"
  shows "queue_items q m' = queue_items q m"
proof -
  have h: "unat (q_head q) < unat (q_capacity q)" using queue_okD(5) [OF assms(1)] by (simp add: word_less_nat_alt)
  have "slot_bytes q m' i = slot_bytes q m i" if "i < unat (q_capacity q)" for i
    unfolding slot_bytes_def using slot_region [OF that] assms(2) by (intro buffer_cong) blast
  then show ?thesis unfolding queue_items_def using ring_slots_less [OF h] by (intro map_cong refl) blast
qed

lemma demo_quiet:
  assumes "kernel_ok k" and "demo_ok l mp mc k d t u" and "quiet (shared l mp mc) P k k'"
  shows "demo_ok l mp mc k' d t u"
proof -
  have same: "objects k' = objects k" "\<And>x. x \<in> shared l mp mc \<Longrightarrow> ram k' x = ram k x" using assms(3) by (auto simp: quiet_def)
  have mp: "message_sequence (ram k') mp = message_sequence (ram k) mp"
    by (rule message_cong) (simp add: same(2) shared_def)
  have mc: "message_sequence (ram k') mc = message_sequence (ram k) mc"
    by (rule message_cong) (simp add: same(2) shared_def)
  obtain q where q: "objects k (dl_queue l) = Queue q" "q_storage q = dl_queue_storage l" "q_capacity q = 8" "q_item_size q = 8"
    "map item_sequence (queue_items q (ram k)) = consecutive (co_expected_sequence u + of_bool (taken u)) (unat (q_count q))"
    "co_expected_sequence u + of_bool (taken u) + q_count q = pr_sequence t + 1"
    using assms(2) by (auto simp: demo_ok_def in_transit_def)
  have "queue_items q (ram k') = queue_items q (ram k)"
    by (rule queue_items_cong [OF queue_object_ok [OF kernel_okD(1) [OF assms(1)] q(1)]])
      (simp add: same(2) shared_def storage_region_def q(2-4))
  then have "in_transit l k' t u" unfolding in_transit_def using q same(1) by auto
  then show ?thesis using assms(2) mp mc by (simp add: demo_ok_def)
qed

lemma count_Suc: "unat (a :: u32) = Suc (unat b) \<Longrightarrow> a = b + 1"
proof -
  assume a: "unat a = Suc (unat b)"
  then have "Suc (unat b) < 4294967296" using unat_lt_u32 [of a] by simp
  then show ?thesis using a by (simp add: word_unat_eq_iff unat_word_ariths)
qed

lemma demo_sent:
  assumes "messages_placed l mp mc" and "demo_ok l mp mc k d t u" and "pr_pc t = P_Send"
    and "objects k (dl_queue l) = Queue q" and "queue_send_post p (dl_queue l) q mp True FR_WAIT_FOREVER k r k'"
  shows "demo_ok l mp mc k' d (producer_after r k' t) u" "r = Suspended \<Longrightarrow> suspend_post p WAIT_QUEUE_SEND (dl_queue l) FR_WAIT_FOREVER k k'"
    "r \<noteq> Suspended \<Longrightarrow> pr_pc (producer_after r k' t) = P_Record"
proof -
  let ?lo = "co_expected_sequence u + of_bool (taken u)"
  have q: "q_storage q = dl_queue_storage l" "q_capacity q = 8" "q_item_size q = 8"
    "map item_sequence (queue_items q (ram k)) = consecutive ?lo (unat (q_count q))" "?lo + q_count q = pr_sequence t + 1"
    using assms(2,4) by (auto simp: demo_ok_def in_transit_def)
  have D: "message_sequence (ram k) mp = pr_sequence t + 1" "taken u \<Longrightarrow> message_sequence (ram k) mc = co_expected_sequence u"
    using assms(2,3) by (simp_all add: demo_ok_def)
  have room: "r = Returned True \<and> (\<exists>q'. objects k' (dl_queue l) = Queue q' \<and> q_storage q' = q_storage q \<and> q_capacity q' = q_capacity q \<and>
      q_item_size q' = q_item_size q \<and> queue_items q' (ram k') = queue_items q (ram k) @ [buffer (ram k) mp (unat (q_item_size q))]) \<and>
      (\<forall>x. x \<notin> storage_region q \<longrightarrow> ram k' x = ram k x) \<or>
    r = Suspended \<and> suspend_post p WAIT_QUEUE_SEND (dl_queue l) FR_WAIT_FOREVER k k'"
    using assms(5) unfolding queue_send_post_def by (auto split: if_splits)
  then show "r = Suspended \<Longrightarrow> suspend_post p WAIT_QUEUE_SEND (dl_queue l) FR_WAIT_FOREVER k k'" by auto
  show "r \<noteq> Suspended \<Longrightarrow> pr_pc (producer_after r k' t) = P_Record"
    using room assms(3) by (auto simp: producer_returned_def)
  show "demo_ok l mp mc k' d (producer_after r k' t) u"
  proof (cases "r = Suspended")
    case True
    then have "objects k' = objects k" "ram k' = ram k" using room by (auto simp: suspend_post_def)
    then show ?thesis using True assms(2) by (simp add: demo_ok_def in_transit_def)
  next
    case False
    then obtain q' where q': "r = Returned True" "objects k' (dl_queue l) = Queue q'" "q_storage q' = q_storage q" "q_capacity q' = q_capacity q"
      "q_item_size q' = q_item_size q" "queue_items q' (ram k') = queue_items q (ram k) @ [buffer (ram k) mp 8]"
      "\<And>x. x \<notin> storage_region q \<Longrightarrow> ram k' x = ram k x"
      using room q(3) by auto
    have cnt: "unat (q_count q') = Suc (unat (q_count q))" using arg_cong [OF q'(6), of length] by simp
    note cnt' = count_Suc [OF cnt]
    have mp: "message_sequence (ram k') mp = message_sequence (ram k) mp"
      using assms(1) by (intro message_cong q'(7)) (auto simp: messages_placed_def storage_region_def q(1-3))
    have mc: "message_sequence (ram k') mc = message_sequence (ram k) mc"
      using assms(1) by (intro message_cong q'(7)) (auto simp: messages_placed_def storage_region_def q(1-3))
    have "map item_sequence (queue_items q' (ram k')) = consecutive ?lo (unat (q_count q'))"
      using q(4,5) D(1) by (simp add: q'(6) cnt consecutive_Suc item_sequence_buffer del: of_nat_Suc)
    moreover have "?lo + q_count q' = (pr_sequence t + 1) + 1" using q(5) by (simp add: cnt' add.assoc [symmetric])
    ultimately have "in_transit l k' (producer_after r k' t) u"
      using q' q(1-3) D(1) mp assms(2,3) by (simp add: in_transit_def producer_returned_def demo_ok_def)
    then show ?thesis
      using assms(2,3) mp mc D q'(1) by (auto simp: demo_ok_def producer_returned_def counters_ok_def)
  qed
qed

lemma demo_received:
  assumes "messages_placed l mp mc" and "demo_ok l mp mc k d t u" and "co_pc u = C_Receive"
    and "objects k (dl_queue l) = Queue q" and "queue_receive_post p (dl_queue l) q mc True FR_WAIT_FOREVER k r k'"
  shows "demo_ok l mp mc k' d t (consumer_after r u)" "r = Suspended \<Longrightarrow> suspend_post p WAIT_QUEUE_RECEIVE (dl_queue l) FR_WAIT_FOREVER k k'"
    "r \<noteq> Suspended \<Longrightarrow> co_pc (consumer_after r u) = C_Latency"
proof -
  let ?lo = "co_expected_sequence u"
  have nt: "\<not> taken u" using assms(3) by (simp add: taken_def)
  have q: "q_storage q = dl_queue_storage l" "q_capacity q = 8" "q_item_size q = 8"
    "map item_sequence (queue_items q (ram k)) = consecutive ?lo (unat (q_count q))" "?lo + q_count q = pr_sequence t + 1"
    using assms(2,4) nt by (auto simp: demo_ok_def in_transit_def)
  have room: "r = Returned True \<and> (\<exists>q'. objects k' (dl_queue l) = Queue q' \<and> q_storage q' = q_storage q \<and> q_capacity q' = q_capacity q \<and>
      q_item_size q' = q_item_size q \<and> queue_items q (ram k) = buffer (ram k') mc (unat (q_item_size q)) # queue_items q' (ram k')) \<and>
      (\<forall>x. x \<notin> region mc (unat (q_item_size q)) \<longrightarrow> ram k' x = ram k x) \<or>
    r = Suspended \<and> suspend_post p WAIT_QUEUE_RECEIVE (dl_queue l) FR_WAIT_FOREVER k k'"
    using assms(5) unfolding queue_receive_post_def by (auto split: if_splits)
  then show "r = Suspended \<Longrightarrow> suspend_post p WAIT_QUEUE_RECEIVE (dl_queue l) FR_WAIT_FOREVER k k'" by auto
  show "r \<noteq> Suspended \<Longrightarrow> co_pc (consumer_after r u) = C_Latency"
    using room assms(3) by (auto simp: consumer_returned_def)
  show "demo_ok l mp mc k' d t (consumer_after r u)"
  proof (cases "r = Suspended")
    case True
    then have "objects k' = objects k" "ram k' = ram k" using room by (auto simp: suspend_post_def)
    then show ?thesis using True assms(2) by (simp add: demo_ok_def in_transit_def)
  next
    case False
    then obtain q' where q': "r = Returned True" "objects k' (dl_queue l) = Queue q'" "q_storage q' = q_storage q" "q_capacity q' = q_capacity q"
      "q_item_size q' = q_item_size q" "queue_items q (ram k) = buffer (ram k') mc 8 # queue_items q' (ram k')"
      "\<And>x. x \<notin> region mc 8 \<Longrightarrow> ram k' x = ram k x"
      using room q(3) by auto
    have cnt: "unat (q_count q) = Suc (unat (q_count q'))" using arg_cong [OF q'(6), of length] by simp
    note cnt' = count_Suc [OF cnt]
    have mp: "message_sequence (ram k') mp = message_sequence (ram k) mp"
      using assms(1) by (intro message_cong q'(7)) (auto simp: messages_placed_def)
    have seq: "message_sequence (ram k') mc = ?lo" "map item_sequence (queue_items q' (ram k')) = consecutive (?lo + 1) (unat (q_count q'))"
      using q(4) unfolding q'(6) cnt consecutive_Cons by (simp_all add: item_sequence_buffer)
    have after: "consumer_after r u = u\<lparr>co_pc := C_Latency\<rparr>" using q'(1) assms(3) by (simp add: consumer_returned_def)
    have "in_transit l k' t (u\<lparr>co_pc := C_Latency\<rparr>)"
      using q' q(1-3,5) seq(2) by (auto simp: in_transit_def taken_def cnt' add.assoc add.commute)
    then show ?thesis
      unfolding after using assms(2) mp seq(1) by (auto simp: demo_ok_def taken_def counters_ok_def)
  qed
qed

text \<open>The code between the calls.\<close>

lemma message_written:
  "message_sequence (ram (producer_message t s)) (pr_message t) = pr_sequence t + 1"
proof -
  have "load32 (store32 m (a + 4) v) a = load32 m a" for m a and v :: u32
    using load32_store32_word [where m = m and b = a and i = 1 and v = v and j = 0] by (simp add: word_at_def)
  then show ?thesis by (simp add: producer_message_def message_sequence_def load32_store32_same)
qed

lemma message_outside:
  assumes "x \<notin> region (pr_message t) 8"
  shows "ram (producer_message t s) x = ram s x"
proof -
  have "store_words (ram s) (pr_message t) [pr_sequence t + 1, fr_tick_now s] x = ram s x"
    using assms by (intro store_words_outside) simp
  then show ?thesis by (simp add: producer_message_def)
qed

lemma demo_producer_code:
  assumes "kernel_ok s" and "messages_placed l mp mc" and "demo_ok l mp mc s d t u" and "producer_call l t = None"
    and "fr_release_demo_producer_entry s d t = (s', d', t')"
  shows "demo_ok l mp mc s' d' t' u" "untimed s' x = untimed s x"
proof -
  have pc: "pr_pc t = P_Message \<or> pr_pc t = P_Record"
    using assms(3,4) by (cases "pr_pc t") (auto simp: producer_call_def demo_ok_def)
  show "untimed s' x = untimed s x"
    using producer_code_kernel [OF assms(5)] by (auto simp: producer_message_def untimed_def)
  show "demo_ok l mp mc s' d' t' u"
    using pc
  proof
    assume m: "pr_pc t = P_Message"
    then have e: "s' = producer_message t s" "d' = d" "t' = t\<lparr>pr_pc := P_Send\<rparr>"
      using assms(5) by (simp_all add: fr_release_demo_producer_entry_def)
    have out: "ram s' x = ram s x" if "x \<in> region (dl_queue_storage l) 64 \<union> region mc 8" for x
      using that assms(2,3) message_outside [of x t s] unfolding e(1) by (auto simp: messages_placed_def demo_ok_def)
    have "message_sequence (ram s') mc = message_sequence (ram s) mc" by (rule message_cong) (simp add: out)
    moreover have "message_sequence (ram s') mp = pr_sequence t + 1"
      using message_written [of t s] assms(3) by (simp add: e(1) demo_ok_def)
    moreover have "in_transit l s' t u"
    proof -
      obtain q where q: "objects s (dl_queue l) = Queue q" "q_storage q = dl_queue_storage l" "q_capacity q = 8" "q_item_size q = 8"
        "map item_sequence (queue_items q (ram s)) = consecutive (co_expected_sequence u + of_bool (taken u)) (unat (q_count q))"
        "co_expected_sequence u + of_bool (taken u) + q_count q = pr_sequence t + 1"
        using assms(3) by (auto simp: demo_ok_def in_transit_def)
      have "queue_items q (ram s') = queue_items q (ram s)"
        by (rule queue_items_cong [OF queue_object_ok [OF kernel_okD(1) [OF assms(1)] q(1)]])
          (simp add: out storage_region_def q(2-4))
      then show ?thesis unfolding in_transit_def using q by (auto simp: e(1) producer_message_def)
    qed
    ultimately show ?thesis using assms(3) m by (auto simp: demo_ok_def e in_transit_def counters_ok_def)
  next
    assume m: "pr_pc t = P_Record"
    then have e: "s' = s" "t' = t\<lparr>pr_pc := P_Sleep\<rparr>" "d' = snd (producer_record t s d)"
      using assms(5) local_code_kernel(3) [of t s d] by (auto simp: fr_release_demo_producer_entry_def split: prod.splits)
    show ?thesis
      using assms(3) m by (auto simp: e demo_ok_def in_transit_def counters_ok_def producer_record_def upd_status_def Let_def split_beta)
  qed
qed

lemma demo_consumer_pc:
  assumes "demo_ok l mp mc s d t u" and "co_expected_sequence u' = co_expected_sequence u" and "taken u' = taken u"
    and "co_message u' = co_message u" and "co_pc u' \<noteq> C_ReceiveFailed"
  shows "demo_ok l mp mc s d t u'"
proof -
  have "in_transit l s t u' = in_transit l s t u" by (simp add: in_transit_def assms(2,3))
  moreover have "counters_ok st t u' = counters_ok st t u" for st by (simp add: counters_ok_def assms(2))
  ultimately show ?thesis using assms by (simp add: demo_ok_def)
qed

lemma demo_consumer_code:
  assumes "demo_ok l mp mc s d t u" and "consumer_call l u = None"
    and "fr_release_demo_consumer_entry s d m u = (s', d', m', u')"
  shows "demo_ok l mp mc s' d' t u'" "s' = s"
proof -
  show s: "s' = s" by (rule consumer_code_kernel [OF assms(3)])
  have D: "dlinks d = l" "co_message u = mc" "taken u \<Longrightarrow> message_sequence (ram s) mc = co_expected_sequence u"
    using assms(1) by (simp_all add: demo_ok_def)
  have "co_pc u \<in> {C_Latency, C_Record, C_Led}" using assms(1,2) by (cases "co_pc u") (auto simp: consumer_call_def demo_ok_def)
  then consider "co_pc u = C_Latency" | "co_pc u = C_Record" | "co_pc u = C_Led" by auto
  then show "demo_ok l mp mc s' d' t u'"
  proof cases
    case 1
    then have e: "d' = d" "u' = (consumer_latency u s)\<lparr>co_pc := C_Record\<rparr>"
      using assms(3) by (auto simp: fr_release_demo_consumer_entry_def)
    show ?thesis
      unfolding s e(1) by (rule demo_consumer_pc [OF assms(1)]) (use 1 in \<open>simp_all add: e(2) consumer_latency_def taken_def\<close>)
  next
    case 2
    have seq: "message_sequence (ram s) mc = co_expected_sequence u" using D(3) 2 by (simp add: taken_def)
    then have e: "d' = fst (snd (consumer_record u s d))" "u' = (snd (snd (consumer_record u s d)))\<lparr>co_pc := C_Led\<rparr>"
      using assms(3) 2 by (auto simp: fr_release_demo_consumer_entry_def split: prod.splits)
    have r: "dlinks d' = l" "co_message u' = mc" "co_expected_sequence u' = co_expected_sequence u + 1" "co_pc u' = C_Led"
      "ds_order_errors (g_fr_release_demo_status d') = ds_order_errors (g_fr_release_demo_status d)"
      "ds_send_errors (g_fr_release_demo_status d') = ds_send_errors (g_fr_release_demo_status d)"
      "ds_receive_errors (g_fr_release_demo_status d') = ds_receive_errors (g_fr_release_demo_status d)"
      "ds_task_create_errors (g_fr_release_demo_status d') = ds_task_create_errors (g_fr_release_demo_status d)"
      "ds_messages_sent (g_fr_release_demo_status d') = ds_messages_sent (g_fr_release_demo_status d)"
      "ds_last_sent_sequence (g_fr_release_demo_status d') = ds_last_sent_sequence (g_fr_release_demo_status d)"
      "ds_messages_received (g_fr_release_demo_status d') = ds_messages_received (g_fr_release_demo_status d) + 1"
      "ds_last_received_sequence (g_fr_release_demo_status d') = co_expected_sequence u"
      using D seq by (simp_all add: e consumer_record_def upd_status_def Let_def split_beta)
    have "in_transit l s t u' = in_transit l s t u" using r(3,4) 2 by (simp add: in_transit_def taken_def)
    moreover have "counters_ok (g_fr_release_demo_status d') t u'" using assms(1) r by (simp add: demo_ok_def counters_ok_def)
    ultimately show ?thesis using assms(1) r(1,2,4) by (simp add: s demo_ok_def taken_def)
  next
    case 3
    then have e: "d' = d" "u' = u\<lparr>co_pc := C_Receive\<rparr>" using assms(3) by (auto simp: fr_release_demo_consumer_entry_def)
    show ?thesis unfolding s e(1) by (rule demo_consumer_pc [OF assms(1)]) (use 3 in \<open>simp_all add: e(2) taken_def\<close>)
  qed
qed


section \<open>Every step keeps the demonstration in order\<close>

definition producer_waits :: "demo_links \<Rightarrow> u32 \<Rightarrow> kernel \<Rightarrow> producer \<Rightarrow> continuation option \<Rightarrow> bool" where
  "producer_waits l mp k t w \<longleftrightarrow> (\<forall>x. w = Some x \<longrightarrow>
     pr_pc t = P_Sleep \<and> x = AfterSleep \<or>
     pr_pc t = P_Send \<and> untimed k producer_task \<and> (\<exists>to. x = AfterSend (dl_queue l) mp to \<and> to_wait_forever to))"

definition consumer_waits :: "demo_links \<Rightarrow> u32 \<Rightarrow> kernel \<Rightarrow> consumer \<Rightarrow> continuation option \<Rightarrow> bool" where
  "consumer_waits l mc k u w \<longleftrightarrow> (\<forall>x. w = Some x \<longrightarrow>
     co_pc u = C_Receive \<and> untimed k consumer_task \<and> (\<exists>to. x = AfterReceive (dl_queue l) mc to \<and> to_wait_forever to))"

definition fw_ok :: "demo_links \<Rightarrow> u32 \<Rightarrow> u32 \<Rightarrow> firmware \<Rightarrow> bool" where
  "fw_ok l mp mc f \<longleftrightarrow> demo_ok l mp mc (fw_kernel f) (fw_demo f) (fw_producer f) (fw_consumer f) \<and>
     producer_waits l mp (fw_kernel f) (fw_producer f) (fw_waits f producer_task) \<and>
     consumer_waits l mc (fw_kernel f) (fw_consumer f) (fw_waits f consumer_task) \<and>
     (\<forall>x. fw_waits f monitor_task = Some x \<longrightarrow> x = AfterSleep)"

lemma waits_mono:
  "producer_waits l mp k t w \<Longrightarrow> (untimed k producer_task \<Longrightarrow> untimed k' producer_task) \<Longrightarrow> producer_waits l mp k' t w"
  "consumer_waits l mc k u w \<Longrightarrow> (untimed k consumer_task \<Longrightarrow> untimed k' consumer_task) \<Longrightarrow> consumer_waits l mc k' u w"
  by (auto simp: producer_waits_def consumer_waits_def)

lemma waits_none [simp]: "producer_waits l mp k t None" "consumer_waits l mc k u None"
  by (simp_all add: producer_waits_def consumer_waits_def)

lemma fw_ok_quiet:
  assumes "fw_ok l mp mc f" and "kernel_ok (fw_kernel f)" and "quiet (shared l mp mc) P (fw_kernel f) k'"
    and "producer_task \<notin> P" and "consumer_task \<notin> P"
  shows "fw_ok l mp mc (f\<lparr>fw_kernel := k'\<rparr>)"
  using assms demo_quiet [OF assms(2) _ assms(3)] waits_mono [of l _ "fw_kernel f" _ _ k']
  by (auto simp: fw_ok_def quiet_def)

lemma placed_item:
  assumes "messages_placed l mp mc" and "q_storage q = dl_queue_storage l" and "q_capacity q = 8" and "q_item_size q = 8"
  shows "region mp (unat (q_item_size q)) \<inter> storage_region q = {}" "region mc (unat (q_item_size q)) \<inter> storage_region q = {}"
  using assms by (simp_all add: messages_placed_def storage_region_def)

lemma demo_queue:
  assumes "demo_ok l mp mc k d t u"
  obtains q where "objects k (dl_queue l) = Queue q" "q_storage q = dl_queue_storage l" "q_capacity q = 8" "q_item_size q = 8"
  using assms by (auto simp: demo_ok_def in_transit_def)

lemma producer_send_ok:
  assumes "messages_placed l mp mc" and "fw_ok l mp mc f" and "system_ok (fw_kernel f, fw_waits f)" and "executing producer_task (fw_kernel f)"
    and "pr_pc (fw_producer f) = P_Send"
    and "exec (Send (dl_queue l) mp FR_QUEUE_WAIT_FOREVER) (fw_kernel f) = Ret r k' \<or> fw_waits f producer_task = Some x \<and>
      x = AfterSend (dl_queue l) mp to \<and> untimed (fw_kernel f) producer_task \<and> resume x producer_task (fw_kernel f) = Ret r k'"
    and "x = AfterSend (dl_queue l) mp to" and "to_wait_forever to"
    and "system_ok (k', (fw_waits f)(producer_task := left_waiting r x))"
  shows "fw_ok l mp mc (f\<lparr>fw_kernel := k', fw_waits := (fw_waits f)(producer_task := left_waiting r x),
    fw_producer := producer_after r k' (fw_producer f)\<rparr>)"
proof -
  let ?k = "fw_kernel f" and ?t = "fw_producer f"
  have d: "demo_ok l mp mc ?k (fw_demo f) ?t (fw_consumer f)" using assms(2) by (simp add: fw_ok_def)
  then obtain q where q: "objects ?k (dl_queue l) = Queue q" "q_storage q = dl_queue_storage l" "q_capacity q = 8" "q_item_size q = 8"
    by (rule demo_queue)
  have nz: "dl_queue l \<noteq> 0" "mp \<noteq> 0" using assms(1) by (simp_all add: messages_placed_def)
  have post: "queue_send_post producer_task (dl_queue l) q mp True FR_WAIT_FOREVER ?k r k'"
    using send_effect [OF assms(3,4) q(1) nz placed_item(1) [OF assms(1) q(2-4)]] assms(6-8) by blast
  note ds = demo_sent [OF assms(1) d assms(5) q(1) post]
  have pw: "producer_waits l mp k' (producer_after r k' ?t) (left_waiting r x)"
  proof (cases r)
    case Suspended
    then have "untimed k' producer_task" using suspended_untimed [OF assms(9) _ ds(2)] by simp
    then show ?thesis using Suspended assms(5,7,8) by (auto simp: producer_waits_def)
  qed simp
  have cw: "consumer_waits l mc k' (fw_consumer f) (fw_waits f consumer_task)"
  proof (rule waits_mono(2))
    show "consumer_waits l mc ?k (fw_consumer f) (fw_waits f consumer_task)" using assms(2) by (simp add: fw_ok_def)
  qed (rule posts_untimed(1) [OF post]; simp)
  show ?thesis using ds(1) pw cw assms(2) by (simp add: fw_ok_def)
qed

lemma consumer_receive_ok:
  assumes "messages_placed l mp mc" and "fw_ok l mp mc f" and "system_ok (fw_kernel f, fw_waits f)" and "executing consumer_task (fw_kernel f)"
    and "co_pc (fw_consumer f) = C_Receive"
    and "exec (Receive (dl_queue l) mc FR_QUEUE_WAIT_FOREVER) (fw_kernel f) = Ret r k' \<or> fw_waits f consumer_task = Some x \<and>
      x = AfterReceive (dl_queue l) mc to \<and> untimed (fw_kernel f) consumer_task \<and> resume x consumer_task (fw_kernel f) = Ret r k'"
    and "x = AfterReceive (dl_queue l) mc to" and "to_wait_forever to"
    and "system_ok (k', (fw_waits f)(consumer_task := left_waiting r x))"
  shows "fw_ok l mp mc (f\<lparr>fw_kernel := k', fw_waits := (fw_waits f)(consumer_task := left_waiting r x),
    fw_consumer := consumer_after r (fw_consumer f)\<rparr>)"
proof -
  let ?k = "fw_kernel f" and ?u = "fw_consumer f"
  have d: "demo_ok l mp mc ?k (fw_demo f) (fw_producer f) ?u" using assms(2) by (simp add: fw_ok_def)
  then obtain q where q: "objects ?k (dl_queue l) = Queue q" "q_storage q = dl_queue_storage l" "q_capacity q = 8" "q_item_size q = 8"
    by (rule demo_queue)
  have nz: "dl_queue l \<noteq> 0" "mc \<noteq> 0" using assms(1) by (simp_all add: messages_placed_def)
  have post: "queue_receive_post consumer_task (dl_queue l) q mc True FR_WAIT_FOREVER ?k r k'"
    using receive_effect [OF assms(3,4) q(1) nz placed_item(2) [OF assms(1) q(2-4)]] assms(6-8) by blast
  note dr = demo_received [OF assms(1) d assms(5) q(1) post]
  have cw: "consumer_waits l mc k' (consumer_after r ?u) (left_waiting r x)"
  proof (cases r)
    case Suspended
    then have "untimed k' consumer_task" using suspended_untimed [OF assms(9) _ dr(2)] by simp
    then show ?thesis using Suspended assms(5,7,8) by (auto simp: consumer_waits_def)
  qed simp
  have pw: "producer_waits l mp k' (fw_producer f) (fw_waits f producer_task)"
  proof (rule waits_mono(1))
    show "producer_waits l mp ?k (fw_producer f) (fw_waits f producer_task)" using assms(2) by (simp add: fw_ok_def)
  qed (rule posts_untimed(2) [OF post]; simp)
  show ?thesis using dr(1) cw pw assms(2) by (simp add: fw_ok_def)
qed

lemma started_forever: "to_wait_forever (started_timeout FR_QUEUE_WAIT_FOREVER k)"
  by (simp add: started_timeout_def fr_wait_timeout_start_def)

lemma producer_call_cases:
  assumes "producer_call l t = Some op" and "pr_message t = mp"
  obtains "pr_pc t = P_Send" "op = Send (dl_queue l) mp FR_QUEUE_WAIT_FOREVER"
    | "pr_pc t = P_Sleep" "op = Sleep FR_RELEASE_DEMO_PRODUCER_PERIOD_TICKS"
  using assms by (auto simp: producer_call_def split: producer_pc.splits)

lemma fw_ok_sleep:
  assumes "fw_ok l mp mc f" and "system_ok (fw_kernel f, fw_waits f)" and "executing p (fw_kernel f)" and "d \<noteq> 0" and "d \<le> FR_TASK_SLEEP_MAX_TICKS"
    and "exec (Sleep d) (fw_kernel f) = Ret r k'" and "p = monitor_task \<or> p = producer_task \<and> pr_pc (fw_producer f) = P_Sleep"
  shows "r = Suspended" "fw_ok l mp mc (f\<lparr>fw_kernel := k', fw_waits := (fw_waits f)(p := Some AfterSleep)\<rparr>)"
proof -
  note s = sleep_result [OF assms(2-6)]
  show "r = Suspended" by (rule s)
  have ko: "kernel_ok (fw_kernel f)" by (rule system_okD(1) [OF assms(2)])
  have q: "quiet (shared l mp mc) {p} (fw_kernel f) k'" by (rule s)
  have "demo_ok l mp mc k' (fw_demo f) (fw_producer f) (fw_consumer f)"
    using demo_quiet [OF ko _ q] assms(1) by (simp add: fw_ok_def)
  moreover have "consumer_waits l mc k' (fw_consumer f) (fw_waits f consumer_task)"
    by (rule waits_mono(2) [of l mc "fw_kernel f"]) (use assms(1,7) q in \<open>auto simp: fw_ok_def quiet_def\<close>)
  moreover have "producer_waits l mp k' (fw_producer f) (fw_waits f producer_task)" if "p = monitor_task"
    by (rule waits_mono(1) [of l mp "fw_kernel f"]) (use assms(1) q that in \<open>auto simp: fw_ok_def quiet_def\<close>)
  ultimately show "fw_ok l mp mc (f\<lparr>fw_kernel := k', fw_waits := (fw_waits f)(p := Some AfterSleep)\<rparr>)"
    using assms(1,7) by (auto simp: fw_ok_def producer_waits_def)
qed

lemma demo_slept:
  assumes "demo_ok l mp mc s d t u" and "pr_pc t = P_Sleep"
  shows "demo_ok l mp mc s d (t\<lparr>pr_pc := P_Message\<rparr>) u"
proof -
  have "in_transit l s (t\<lparr>pr_pc := P_Message\<rparr>) u = in_transit l s t u" by (simp add: in_transit_def)
  moreover have "counters_ok st (t\<lparr>pr_pc := P_Message\<rparr>) u = counters_ok st t u" for st using assms(2) by (simp add: counters_ok_def)
  ultimately show ?thesis using assms by (simp add: demo_ok_def)
qed

lemma producer_call_ok:
  assumes "messages_placed l mp mc" and "fw_ok l mp mc f" and "system_ok (fw_kernel f, fw_waits f)" and "executing producer_task (fw_kernel f)"
    and "producer_call l (fw_producer f) = Some op" and "exec op (fw_kernel f) = Ret r k'"
    and "system_ok (k', (fw_waits f)(producer_task := left_waiting r (continuation_of op (fw_kernel f))))"
  shows "fw_ok l mp mc (f\<lparr>fw_kernel := k', fw_waits := (fw_waits f)(producer_task := left_waiting r (continuation_of op (fw_kernel f))),
    fw_producer := producer_after r k' (fw_producer f)\<rparr>)"
proof -
  have "pr_message (fw_producer f) = mp" using assms(2) by (simp add: fw_ok_def demo_ok_def)
  from assms(5) this show ?thesis
  proof (cases rule: producer_call_cases)
    case 1
    have x: "continuation_of op (fw_kernel f) = AfterSend (dl_queue l) mp (started_timeout FR_QUEUE_WAIT_FOREVER (fw_kernel f))"
      using 1(2) by simp
    show ?thesis
      using producer_send_ok [OF assms(1-4) 1(1) _ x started_forever, of r k'] assms(6,7) unfolding 1(2) by simp
  next
    case 2
    have e: "exec (Sleep 100) (fw_kernel f) = Ret r k'" using assms(6) 2(2) by simp
    note s = fw_ok_sleep [OF assms(2-4) _ _ e]
    have "r = Suspended" using s(1) 2(1) by (simp add: word_le_nat_alt)
    then show ?thesis using s(2) 2 by (simp add: word_le_nat_alt)
  qed
qed

lemma producer_resume_ok:
  assumes "messages_placed l mp mc" and "fw_ok l mp mc f" and "system_ok (fw_kernel f, fw_waits f)" and "executing producer_task (fw_kernel f)"
    and "fw_waits f producer_task = Some x" and "resume x producer_task (fw_kernel f) = Ret r k'"
    and "system_ok (k', (fw_waits f)(producer_task := left_waiting r x))"
  shows "fw_ok l mp mc (f\<lparr>fw_kernel := k', fw_waits := (fw_waits f)(producer_task := left_waiting r x),
    fw_producer := producer_after r k' (fw_producer f)\<rparr>)"
proof -
  have d: "demo_ok l mp mc (fw_kernel f) (fw_demo f) (fw_producer f) (fw_consumer f)" using assms(2) by (simp add: fw_ok_def)
  have w: "producer_waits l mp (fw_kernel f) (fw_producer f) (Some x)" using assms(2,5) by (simp add: fw_ok_def)
  show ?thesis
  proof (cases "x = AfterSleep")
    case True
    then have pc: "pr_pc (fw_producer f) = P_Sleep" using w by (auto simp: producer_waits_def)
    have r: "r = Returned True" "k' = fw_kernel f" using sleep_resumed [OF assms(3,4)] assms(5,6) True by auto
    have "producer_after r k' (fw_producer f) = (fw_producer f)\<lparr>pr_pc := P_Message\<rparr>" using r(1) pc by (simp add: producer_returned_def)
    then show ?thesis using assms(2) r demo_slept [OF d pc] by (simp add: fw_ok_def)
  next
    case False
    then obtain to where x: "pr_pc (fw_producer f) = P_Send" "untimed (fw_kernel f) producer_task"
      "x = AfterSend (dl_queue l) mp to" "to_wait_forever to"
      using w by (auto simp: producer_waits_def)
    show ?thesis using producer_send_ok [OF assms(1-4) x(1) _ x(3,4), of r k'] assms(5-7) x(2,3) by simp
  qed
qed

lemma consumer_call_ok:
  assumes "messages_placed l mp mc" and "fw_ok l mp mc f" and "system_ok (fw_kernel f, fw_waits f)" and "executing consumer_task (fw_kernel f)"
    and "consumer_call l (fw_consumer f) = Some op" and "exec op (fw_kernel f) = Ret r k'"
    and "system_ok (k', (fw_waits f)(consumer_task := left_waiting r (continuation_of op (fw_kernel f))))"
  shows "fw_ok l mp mc (f\<lparr>fw_kernel := k', fw_waits := (fw_waits f)(consumer_task := left_waiting r (continuation_of op (fw_kernel f))),
    fw_consumer := consumer_after r (fw_consumer f)\<rparr>)"
proof -
  have "co_message (fw_consumer f) = mc" using assms(2) by (simp add: fw_ok_def demo_ok_def)
  then have c: "co_pc (fw_consumer f) = C_Receive" "op = Receive (dl_queue l) mc FR_QUEUE_WAIT_FOREVER"
    using assms(5) by (auto simp: consumer_call_def split: consumer_pc.splits)
  then have x: "continuation_of op (fw_kernel f) = AfterReceive (dl_queue l) mc (started_timeout FR_QUEUE_WAIT_FOREVER (fw_kernel f))"
    by simp
  show ?thesis
    using consumer_receive_ok [OF assms(1-4) c(1) _ x started_forever, of r k'] assms(6,7) unfolding c(2) by simp
qed

lemma consumer_resume_ok:
  assumes "messages_placed l mp mc" and "fw_ok l mp mc f" and "system_ok (fw_kernel f, fw_waits f)" and "executing consumer_task (fw_kernel f)"
    and "fw_waits f consumer_task = Some x" and "resume x consumer_task (fw_kernel f) = Ret r k'"
    and "system_ok (k', (fw_waits f)(consumer_task := left_waiting r x))"
  shows "fw_ok l mp mc (f\<lparr>fw_kernel := k', fw_waits := (fw_waits f)(consumer_task := left_waiting r x),
    fw_consumer := consumer_after r (fw_consumer f)\<rparr>)"
proof -
  have "consumer_waits l mc (fw_kernel f) (fw_consumer f) (Some x)" using assms(2,5) by (simp add: fw_ok_def)
  then obtain to where x: "co_pc (fw_consumer f) = C_Receive" "untimed (fw_kernel f) consumer_task"
    "x = AfterReceive (dl_queue l) mc to" "to_wait_forever to"
    by (auto simp: consumer_waits_def)
  show ?thesis using consumer_receive_ok [OF assms(1-4) x(1) _ x(3,4), of r k'] assms(5-7) x(2,3) by simp
qed

lemma fw_step_ok:
  assumes "messages_placed l mp mc" and "fw_ok l mp mc f" and "fw_step l mp mc f f'"
    and "system_ok (fw_kernel f, fw_waits f)" and "system_ok (fw_kernel f', fw_waits f')"
  shows "fw_ok l mp mc f'"
proof -
  have ko: "kernel_ok (fw_kernel f)" by (rule system_okD(1) [OF assms(4)])
  have d: "demo_ok l mp mc (fw_kernel f) (fw_demo f) (fw_producer f) (fw_consumer f)" using assms(2) by (simp add: fw_ok_def)
  from assms(3) show ?thesis
  proof cases
    case (tick k')
    then show ?thesis using fw_ok_quiet [OF assms(2) ko quiet_tick [OF assms(4)]] by simp
  next
    case (switch p regs loaded k')
    then show ?thesis using fw_ok_quiet [OF assms(2) ko quiet_switch [OF assms(4)]] by simp
  next
    case (run p sp m)
    have "quiet (shared l mp mc) {} (fw_kernel f) ((fw_kernel f)\<lparr>ram := m, cpu := (cpu (fw_kernel f))\<lparr>cpu_psp := sp\<rparr>\<rparr>)"
      using run(5) by (simp add: quiet_def untimed_def)
    from fw_ok_quiet [OF assms(2) ko this] run(1) show ?thesis by simp
  next
    case (producer_code k' d' t')
    note pc = demo_producer_code [OF ko assms(1) d producer_code(4,6)]
    have "producer_waits l mp k' t' (fw_waits f producer_task)" using producer_code(3) by simp
    moreover have "consumer_waits l mc k' (fw_consumer f) (fw_waits f consumer_task)"
      by (rule waits_mono(2) [of l mc "fw_kernel f"]) (use assms(2) pc(2) in \<open>auto simp: fw_ok_def\<close>)
    ultimately show ?thesis using pc(1) producer_code(1) assms(2) by (simp add: fw_ok_def)
  next
    case (producer_calls op r k')
    then show ?thesis
      using producer_call_ok [OF assms(1,2,4) producer_calls(2,4,5)] assms(5) unfolding producer_calls(1) by simp
  next
    case (producer_resumes x r k')
    then show ?thesis
      using producer_resume_ok [OF assms(1,2,4) producer_resumes(2,3,4)] assms(5) unfolding producer_resumes(1) by simp
  next
    case (consumer_code k' d' m' t')
    note cc = demo_consumer_code [OF d consumer_code(4,5)]
    show ?thesis using cc consumer_code(1,3) assms(2) by (simp add: fw_ok_def)
  next
    case (consumer_calls op r k')
    then show ?thesis
      using consumer_call_ok [OF assms(1,2,4) consumer_calls(2,4,5)] assms(5) unfolding consumer_calls(1) by simp
  next
    case (consumer_resumes x r k')
    then show ?thesis
      using consumer_resume_ok [OF assms(1,2,4) consumer_resumes(2,3,4)] assms(5) unfolding consumer_resumes(1) by simp
  next
    case (monitor_calls r k')
    have e: "exec (Sleep 50) (fw_kernel f) = Ret r k'" using monitor_calls(4) by simp
    note s = fw_ok_sleep [OF assms(2,4) monitor_calls(2) _ _ e]
    have "r = Suspended" using s(1) by (simp add: word_le_nat_alt)
    then show ?thesis using s(2) monitor_calls(1) by (simp add: word_le_nat_alt)
  next
    case (monitor_resumes x r k')
    then have x: "x = AfterSleep" using assms(2) by (simp add: fw_ok_def)
    then have "r = Returned True" "k' = fw_kernel f"
      using sleep_resumed [OF assms(4) monitor_resumes(2)] monitor_resumes(3,4) by auto
    then show ?thesis using assms(2) monitor_resumes(1) by (simp add: fw_ok_def)
  qed
qed

lemma fw_reachable_ok:
  assumes "messages_placed l mp mc" and "fw_reachable io lm l mp mc f"
  shows "fw_ok l mp mc f"
  using assms(2)
proof (induction rule: fw_reachable.induct)
  case (start monitor_entry monitor_stack m dev vectors stack w k)
  from boots [OF start(1), of io vectors stack] start(2)
  have b: "dlinks (rl_demo w) = l"
    "g_fr_release_demo_status (rl_demo w) = zero_status\<lparr>ds_initialized := True, ds_producer_task_id := 1, ds_consumer_task_id := 2\<rparr>"
    "objects k (dl_queue l) = Queue \<lparr>q_magic = FR_QUEUE_MAGIC, q_storage = dl_queue_storage l,
      q_capacity = 8, q_item_size = 8, q_head = 0, q_tail = 0, q_count = 0\<rparr>"
    by auto
  then show ?case
    by (auto simp: fw_ok_def demo_ok_def in_transit_def counters_ok_def zero_status_def producer_start_def consumer_start_def taken_def
        queue_items_def consecutive_def)
next
  case (more f f')
  have "system_ok (fw_kernel f, fw_waits f)" "system_ok (fw_kernel f', fw_waits f')"
    using reachable_ok [OF fw_system [OF more(1)]] reachable_ok [OF fw_system [OF fw_reachable.more [OF more(1,2)]]] by simp_all
  then show ?case using fw_step_ok [OF assms(1) more.IH more(2)] by simp
qed


section \<open>Properties\<close>

text \<open>
  C11. The firmware refines the kernel's system. Every state that the release firmware reaches from
  power-on, under any interleaving of its tasks with the tick and the context switch, is a reachable
  state of the kernel, and each of its steps is a step of the kernel's system or leaves the kernel
  alone. So the theorems on the running system hold of the firmware, from \<open>main\<close> on.
\<close>

theorem firmware_refines_kernel:
  assumes "fw_reachable io lm l mp mc f"
  shows "reachable lm (fw_kernel f, fw_waits f) \<and>
    (\<forall>f'. fw_step l mp mc f f' \<longrightarrow> (fw_kernel f', fw_waits f') = (fw_kernel f, fw_waits f) \<or>
       (\<exists>lb. step lb (fw_kernel f, fw_waits f) (fw_kernel f', fw_waits f')))"
  using fw_system [OF assms] fw_step_system by blast

text \<open>
  C4. The demonstration delivers every message once, in order. In every reachable state of the release
  firmware no order, send, receive or creation error has been counted, the last number sent and the
  last number received equal the counts of messages sent and received (modulo \<open>2\<^sup>3\<^sup>2\<close>), and the queue
  holds, oldest first, exactly the consecutive numbers between them, at most 8 of them; a message
  already taken and not yet counted, or sent and not yet counted, is the one next in line.
\<close>

theorem demo_delivers_in_order:
  assumes "messages_placed l mp mc" and "fw_reachable io lm l mp mc f"
  shows "let s = g_fr_release_demo_status (fw_demo f); n = ds_messages_received s + of_bool (taken (fw_consumer f)) in
    ds_order_errors s = 0 \<and> ds_send_errors s = 0 \<and> ds_receive_errors s = 0 \<and> ds_task_create_errors s = 0 \<and>
    ds_last_sent_sequence s = ds_messages_sent s \<and> ds_last_received_sequence s = ds_messages_received s \<and>
    (\<exists>q. objects (fw_kernel f) (dl_queue l) = Queue q \<and> q_count q \<le> 8 \<and>
       map item_sequence (queue_items q (ram (fw_kernel f))) = consecutive (n + 1) (unat (q_count q)) \<and>
       n + q_count q = ds_messages_sent s + of_bool (pr_pc (fw_producer f) = P_Record))"
proof -
  have ok: "demo_ok l mp mc (fw_kernel f) (fw_demo f) (fw_producer f) (fw_consumer f)"
    using fw_reachable_ok [OF assms] by (simp add: fw_ok_def)
  have base: "base_ok (fw_kernel f)" using reachable_ok [OF fw_system [OF assms(2)]] system_okD(1) kernel_okD(1) by blast
  have "q_count q \<le> 8" if "objects (fw_kernel f) (dl_queue l) = Queue q" "q_capacity q = 8" for q
    using queue_okD(6) [OF queue_object_ok [OF base that(1)]] that(2) by simp
  then show ?thesis
    using ok unfolding demo_ok_def in_transit_def counters_ok_def Let_def by (auto simp: ac_simps)
qed

lemma example_messages: "messages_placed example_demo_links 0x200023C0 0x200025C0"
proof -
  have "region (0x20002100 :: u32) 64 \<inter> region 0x200023C0 8 = {}" "region (0x20002100 :: u32) 64 \<inter> region 0x200025C0 8 = {}"
    "region (0x200023C0 :: u32) 8 \<inter> region 0x200025C0 8 = {}"
    by (rule region_disjoint; simp)+
  then show ?thesis by (auto simp: messages_placed_def example_demo_links_def)
qed

text \<open>The example firmware after power-on and one tick.\<close>

lemma example_firmware:
  obtains f where "fw_reachable slow_io example_links example_demo_links 0x200023C0 0x200025C0 f"
    "ds_initialized (g_fr_release_demo_status (fw_demo f))"
proof -
  obtain w k where b: "snd (main slow_io (\<lambda>_. 0) 0x20002800 example_power_on) = Ret (True, w) k"
    "g_fr_release_demo_status (rl_demo w) = zero_status\<lparr>ds_initialized := True, ds_producer_task_id := 1, ds_consumer_task_id := 2\<rparr>"
    using boots [OF example_placed, of slow_io "\<lambda>_. 0" "0x20002800"] by blast
  note r = fw_reachable.start [OF example_placed b(1)]
  note ok = system_okD [OF reachable_ok [OF fw_system [OF r]]]
  obtain k' where k': "SysTick_Handler k = Ret () k'" using tick_ok [of k] ok(1,3) by auto
  show thesis by (rule that [OF fw_reachable.more [OF r fw_step.tick]]) (simp_all add: k' b(2))
qed

theorem firmware_refines_kernel_witness:
  "\<exists>f. fw_reachable slow_io example_links example_demo_links 0x200023C0 0x200025C0 f \<and>
     reachable example_links (fw_kernel f, fw_waits f)"
proof -
  obtain f where f: "fw_reachable slow_io example_links example_demo_links 0x200023C0 0x200025C0 f" by (rule example_firmware)
  then show ?thesis using firmware_refines_kernel by blast
qed

theorem demo_delivers_in_order_witness:
  "\<exists>f. fw_reachable slow_io example_links example_demo_links 0x200023C0 0x200025C0 f \<and>
     ds_initialized (g_fr_release_demo_status (fw_demo f)) \<and> ds_order_errors (g_fr_release_demo_status (fw_demo f)) = 0"
proof -
  obtain f where f: "fw_reachable slow_io example_links example_demo_links 0x200023C0 0x200025C0 f"
    "ds_initialized (g_fr_release_demo_status (fw_demo f))"
    by (rule example_firmware)
  then show ?thesis using demo_delivers_in_order [OF example_messages f(1)] unfolding Let_def by blast
qed

end
