(* ===== verification/Spec2Isabelle.thy ===== *)
theory Spec2Isabelle
  imports Queue_Wakeups Creation Startup Firmware
begin

text \<open>
  A verification development for ForgeRTOS, a preemptive fixed-priority kernel in C11 for the
  Cortex-M4, with its board support and its release firmware.

  \<^bold>\<open>The program.\<close> Tasks live in a static pool (\<open>kernel/task.c\<close>) and are scheduled by \<open>kernel/scheduler.c\<close>:
  the tick interrupt (\<open>port/cortex_m4/systick.c\<close>, \<open>kernel/tick.c\<close>) expires timed waits, PendSV
  (\<open>port/cortex_m4/portasm.S\<close>) switches contexts, and the services (semaphores, mutexes with priority
  inheritance, message queues, event flags, sleep and yield) block and wake tasks inside BASEPRI
  critical sections. A trace ring, a self-check, assertions and a fault record serve diagnosis. The
  release firmware (\<open>src/main.c\<close>, \<open>src/demo.c\<close>, \<open>src/monitor.c\<close>) runs a producer, a consumer and a
  UART monitor on it. It is entered by the reset code (\<open>startup/\<close>) in a memory that the linker script
  (\<open>linker/\<close>) lays out.

  \<^bold>\<open>The model.\<close> The static variables of the C files, the processor registers the kernel uses, RAM as bytes
  and the kernel objects by address are the fields of the record \<open>kernel\<close> (theory \<open>Kernel_State\<close>). A
  function is a definition of the same name from the state to its result and the new state. An
  operation that contains an assertion yields an \<open>outcome\<close>: \<open>Ret\<close>, or the halt of \<open>fr_assert_fail\<close>.
  32-bit integers are words and wrap. A \<open>fr_task_t *\<close> is the datatype \<open>task_ptr\<close>; other addresses are
  words, and the addresses the linker chooses are the record \<open>link_map\<close>, a parameter. A result returned
  through a pointer is part of the value; an argument \<open>out_valid\<close> says whether that pointer is non-null. A blocking
  service is split where it gives up the processor: the call ends in \<open>Suspended\<close>, and the rest of the
  function (\<open>..._resume\<close>) runs when the task has the processor again.

  \<^bold>\<open>The theories\<close>, in the order of their imports:
  \<^item> \<open>Forge_Prelude\<close>: integer types, word lemmas, and the interfaces \<open>priority_scan\<close> (a loop that keeps
    the best candidate; interpreted by the three selection loops of the scheduler) and \<open>ring_index\<close> (an
    index advanced with wrap-around; interpreted by the trace ring and the message queues).
  \<^item> \<open>Kernel_State\<close>, \<open>Port\<close>, \<open>Tick\<close>, \<open>Trace\<close>, \<open>Memory\<close>: the data; \<open>critical.c\<close>, \<open>pendsv.c\<close> and \<open>assert.c\<close>;
    \<open>tick.c\<close> and \<open>wait_timeout.c\<close>; \<open>trace.c\<close>; 32-bit accesses to the bytes of RAM. Deadlines are exact across
    tick wrap-around; the trace refines a bounded list.
  \<^item> \<open>Task\<close>: \<open>task.c\<close> and \<open>task_context.c\<close>. Creation, handles, stack reports.
  \<^item> \<open>Inheritance\<close>: the priority chains of \<open>mutex.c\<close>. Their loops restore the equation that every effective
    priority is the maximum of the base priority and those of the waiters, also on chains and cycles.
  \<^item> \<open>Scheduler\<close>, \<open>Diagnostics\<close>: \<open>scheduler.c\<close> with the handlers of the port, and \<open>diagnostics.c\<close>.
  \<^item> \<open>Kernel_Invariant\<close>, \<open>Scheduler_Steps\<close>, \<open>Critical_Sections\<close>: the invariant \<open>kernel_ok\<close>, its preservation
    by ticks, switches, sleep and yield, the exact effect of each, and what all services share.
  \<^item> \<open>Semaphore\<close>, \<open>Mutex_Service\<close>, \<open>Queue_Service\<close>, \<open>Event_Service\<close>: \<open>semaphore.c\<close>, \<open>mutex.c\<close>, \<open>queue.c\<close>,
    \<open>event_flags.c\<close>. Each service refines an abstract object on every branch; the two semaphores are
    interpretations of the interface \<open>token_semaphore\<close>.
  \<^item> \<open>Services\<close>, \<open>System\<close>, \<open>Queue_Wakeups\<close>: all services as one type, and the running system as a step
    relation that interleaves service calls, resumptions, task code, ticks and context switches.
    Reachable states never fail an assertion, have no priority inversion, exclude each other from
    mutexes, keep the types of objects, end timed waits in time, pass the kernel's self-check and lose no
    wake-up of a queue.
  \<^item> \<open>Contexts\<close>: a task that is switched out gets its registers, stack pointer and exception frame back, whatever
    happens in between; with the self-test \<open>context_probe.S\<close>, which accepts exactly this, and the idle task.
  \<^item> \<open>Creation\<close>: the three parts of \<open>fr_task_create\<close> interleaved with the running system. Every creation
    completes and the invariant holds while tasks are half created; a new task does not preempt its creator,
    and objects can no longer be initialised.
  \<^item> \<open>Peripherals\<close>, \<open>Uart\<close>: \<open>systick.c\<close>, \<open>fault.c\<close>, \<open>cortex_m4.c\<close>, the supervisor calls and fault entries of
    \<open>portasm.S\<close>, \<open>board.c\<close>; \<open>uart.c\<close>. Memory-mapped registers without side effects are a map \<open>mmio\<close>; the
    status and data registers of USART2 are the parameter \<open>usart_io\<close>, and \<open>usart_law\<close> states what the
    reference manual documents of the transmitter (\<open>slow_io\<close> is a device that has it).
  \<^item> \<open>Startup\<close>: the vector table, \<open>Reset_Handler\<close> and the symbols of the linker script. Its loops end, for
    every image that fits, with \<open>.data\<close> copied, \<open>.bss\<close> zero and nothing else written.
  \<^item> \<open>Demo\<close>, \<open>Monitor\<close>, \<open>Boot\<close>, \<open>Firmware\<close>: \<open>demo.c\<close>, \<open>monitor.c\<close>, \<open>main.c\<close>, and the firmware as a system: it
    boots into a reachable state of the kernel, each of its steps is one of the kernel's system, and
    every message is delivered once and in order; the monitor answers each command completely and
    never leaves its line buffer.

  \<^bold>\<open>Loops and termination.\<close> The bounded loops of the kernel are recursions over the task pool, the items or
  the stack words, with no fuel. The inheritance walks run at most once per task of the pool, the
  bound that the C code has. Five loops may not end and are partial functions, with \<open>None\<close> for not
  returning: the busy-wait \<open>poll_sr\<close>, the string length, the two loops of the reset code and the drain of
  the receiver. For the first four the results show that they return, on a documented transmitter, for
  terminated strings and for the layouts of the linker script. The drain reads until the receiver is empty, which depends on the line alone.

  \<^bold>\<open>Assumptions.\<close> The kernel starts from zeroed static variables, which the reset code provides. During
  set-up ticks may happen between the initialisation calls. The results of \<open>System\<close> are for tasks created
  before the scheduler is started; \<open>Creation\<close> adds those created later. A task's stack pointer stays inside its
  stack, with room for a register frame, when an interrupt is taken. Interrupts are taken between steps: a
  service call up to the end of its critical section is one step, and so is PendSV. Not represented are a tick
  between the computation of a deadline and the critical section, with which the wait is shorter by this
  tick, and one in PendSV before its critical section, which has the effect of a tick before PendSV. In the firmware the message buffers and
  the storage of the queue are disjoint and written by no other code.

  \<^bold>\<open>Not modelled.\<close> \<open>tests/\<close> (test firmware); where the linker puts code, and each static variable in RAM
  (\<open>LOADADDR(.data)\<close> and \<open>link_map\<close> are parameters); preemption in the middle of the monitor's functions,
  which changes only the values that it prints; tick interrupts during \<open>fr_release_bootstrap_entry\<close>.
\<close>

end
